(* ===== verification/DVB_Prelude.thy ===== *)
theory DVB_Prelude
  imports Main "HOL-Library.Word"
begin

unbundle bit_operations_syntax

text \<open>
  Shared vocabulary of the DVB core development: machine integers, kernel error numbers, the
  result of a kernel routine that may hang or fault, bounded memory copies, the search loop for
  a free slot of an array, and the generic lemmas about them.
\<close>

named_theorems blit_simps \<open>reading back what a bounded copy wrote\<close>

type_synonym u8 = "8 word"
type_synonym u16 = "16 word"
type_synonym u32 = "32 word"
type_synonym bytes = "u8 list"

section \<open>Kernel error numbers\<close>

text \<open>
  The routines return an \<^typ>\<open>int\<close>: a count or \<open>0\<close> on success, a negated error number
  otherwise. The numbers are those of \<^verbatim>\<open><asm/errno.h>\<close>.
\<close>

abbreviation EPERM :: int where "EPERM \<equiv> 1"
abbreviation ESRCH :: int where "ESRCH \<equiv> 3"
abbreviation EINTR :: int where "EINTR \<equiv> 4"
abbreviation EWOULDBLOCK :: int where "EWOULDBLOCK \<equiv> 11"
abbreviation ENOMEM :: int where "ENOMEM \<equiv> 12"
abbreviation EFAULT :: int where "EFAULT \<equiv> 14"
abbreviation EBUSY :: int where "EBUSY \<equiv> 16"
abbreviation ENODEV :: int where "ENODEV \<equiv> 19"
abbreviation EINVAL :: int where "EINVAL \<equiv> 22"
abbreviation ENFILE :: int where "ENFILE \<equiv> 23"
abbreviation EMFILE :: int where "EMFILE \<equiv> 24"
abbreviation ENOSYS :: int where "ENOSYS \<equiv> 38"
abbreviation EOVERFLOW :: int where "EOVERFLOW \<equiv> 75"
abbreviation EUSERS :: int where "EUSERS \<equiv> 87"
abbreviation EOPNOTSUPP :: int where "EOPNOTSUPP \<equiv> 95"
abbreviation ETIMEDOUT :: int where "ETIMEDOUT \<equiv> 110"
abbreviation ERESTARTSYS :: int where "ERESTARTSYS \<equiv> 512"

section \<open>Results of kernel routines\<close>

text \<open>
  \<open>Ret\<close> is a normal return. \<open>Hang\<close> is a call that never returns: a wait for a semaphore the
  caller itself holds, or a walk along a cyclic list. \<open>Oops\<close> is a memory fault: a dereferenced
  NULL pointer, or a copy that leaves the object it reads or writes.
\<close>

datatype 'a kres = Ret 'a | Hang | Oops

primrec kbind :: "'a kres \<Rightarrow> ('a \<Rightarrow> 'b kres) \<Rightarrow> 'b kres" where
  "kbind (Ret a) f = f a"
| "kbind Hang f = Hang"
| "kbind Oops f = Oops"

lemma kbind_Ret_right [simp]: "kbind m Ret = m"
  by (cases m) simp_all

lemma kbind_assoc: "kbind (kbind m f) g = kbind m (\<lambda>x. kbind (f x) g)"
  by (cases m) simp_all

lemma kbind_eq_Ret_iff: "kbind m f = Ret b \<longleftrightarrow> (\<exists>a. m = Ret a \<and> f a = Ret b)"
  by (cases m) simp_all

section \<open>Bounded memory copies\<close>

text \<open>
  \<open>blit dst off xs\<close> overwrites \<open>dst\<close> from index \<open>off\<close> on. \<open>memcpy\<close> is the C call with its two
  objects made explicit: it copies \<open>len\<close> bytes from offset \<open>soff\<close> of \<open>src\<close> to offset \<open>doff\<close> of
  \<open>dst\<close>, and faults when either range leaves its object.
\<close>

definition blit :: "'a list \<Rightarrow> nat \<Rightarrow> 'a list \<Rightarrow> 'a list" where
  "blit dst off xs = take off dst @ xs @ drop (off + length xs) dst"

definition memcpy :: "'a list \<Rightarrow> nat \<Rightarrow> 'a list \<Rightarrow> nat \<Rightarrow> nat \<Rightarrow> 'a list kres" where
  "memcpy dst doff src soff len =
     (if doff + len \<le> length dst \<and> soff + len \<le> length src
      then Ret (blit dst doff (take len (drop soff src))) else Oops)"

definition memread :: "'a list \<Rightarrow> nat \<Rightarrow> nat \<Rightarrow> 'a list kres" where
  "memread src off len = (if off + len \<le> length src then Ret (take len (drop off src)) else Oops)"

definition memset :: "'a list \<Rightarrow> nat \<Rightarrow> 'a \<Rightarrow> nat \<Rightarrow> 'a list kres" where
  "memset dst off c len =
     (if off + len \<le> length dst then Ret (blit dst off (replicate len c)) else Oops)"

lemma length_blit [simp, blit_simps]:
  "off + length xs \<le> length dst \<Longrightarrow> length (blit dst off xs) = length dst"
  by (simp add: blit_def)

lemma nth_blit [blit_simps]:
  assumes "off + length xs \<le> length dst" and "i < length dst"
  shows "blit dst off xs ! i =
    (if i < off then dst ! i else if i < off + length xs then xs ! (i - off) else dst ! i)"
proof -
  have "length (take off dst) = off" using assms by simp
  then show ?thesis
    using assms by (auto simp: blit_def nth_append add.commute)
qed

lemma take_blit [blit_simps]:
  "off + length xs \<le> length dst \<Longrightarrow> n \<le> off \<Longrightarrow> take n (blit dst off xs) = take n dst"
  by (simp add: blit_def min_def)

lemma take_blit_end [blit_simps]:
  "off + length xs \<le> length dst \<Longrightarrow>
   take (off + length xs) (blit dst off xs) = take off dst @ xs"
  by (simp add: blit_def)

lemma take_blit_all [blit_simps]:
  "length xs \<le> length dst \<Longrightarrow> n = length xs \<Longrightarrow> take n (blit dst 0 xs) = xs"
  by (simp add: blit_def)

lemma blit_Nil [simp]: "off \<le> length dst \<Longrightarrow> blit dst off [] = dst"
  by (simp add: blit_def)

lemma memcpy_Ret:
  "doff + len \<le> length dst \<Longrightarrow> soff + len \<le> length src \<Longrightarrow>
   memcpy dst doff src soff len = Ret (blit dst doff (take len (drop soff src)))"
  by (simp add: memcpy_def)

lemma memread_Ret: "off + len \<le> length src \<Longrightarrow> memread src off len = Ret (take len (drop off src))"
  by (simp add: memread_def)

section \<open>Searching an array for a slot\<close>

text \<open>
  The loop \<^verbatim>\<open>for (i=0; i<n; i++) if (P(a[i])) break;\<close> leaves in \<open>i\<close> the least index whose
  element satisfies the test, or \<open>n\<close>.
\<close>

primrec first_index :: "('a \<Rightarrow> bool) \<Rightarrow> 'a list \<Rightarrow> nat" where
  "first_index P [] = 0"
| "first_index P (x # xs) = (if P x then 0 else Suc (first_index P xs))"

lemma first_index_le [simp]: "first_index P xs \<le> length xs"
  by (induction xs) auto

lemma first_index_hit: "first_index P xs < length xs \<Longrightarrow> P (xs ! first_index P xs)"
  by (induction xs) auto

lemma first_index_least: "i < first_index P xs \<Longrightarrow> \<not> P (xs ! i)"
proof (induction xs arbitrary: i)
  case Nil
  then show ?case by simp
next
  case (Cons x xs)
  then show ?case by (cases i) (auto split: if_splits)
qed

lemma first_index_none: "first_index P xs = length xs \<longleftrightarrow> (\<forall>x\<in>set xs. \<not> P x)"
  by (induction xs) auto

lemma first_index_less: "first_index P xs < length xs \<longleftrightarrow> (\<exists>x\<in>set xs. P x)"
  using first_index_none [of P xs] first_index_le [of P xs] by (auto simp: le_less)

lemma first_index_map: "first_index P (map f xs) = first_index (P \<circ> f) xs"
  by (induction xs) auto

section \<open>Generic facts on words and lists\<close>

lemma u8_less_256 [simp]: "unat (b :: u8) < 256"
  using unsigned_less [of b] by simp

lemma u8_less [simp]: "256 \<le> n \<Longrightarrow> unat (b :: u8) < n"
  using u8_less_256 [of b] by linarith

lemma u8_le_255: "unat (b :: u8) \<le> 255"
  using u8_less_256 [of b] by linarith

lemma u8_and_le: "unat (b AND m) \<le> unat m" for b m :: u8
  by (rule word_and_le1 [THEN word_le_nat_alt [THEN iffD1]])

lemma unat_ucast_u8_u32 [simp]: "unat (ucast (b :: u8) :: u32) = unat b"
  by (simp add: unsigned_ucast_eq take_bit_nat_eq_self_iff)

lemma xor_eq_0_iff: "a XOR b = 0 \<longleftrightarrow> a = b" for a b :: "'a :: len word"
  by (auto simp: bit_eq_iff bit_xor_iff)

lemma xor_cancel_right [simp]: "a XOR x = b XOR x \<longleftrightarrow> a = b" for a b x :: "'a :: len word"
  by (auto simp: bit_eq_iff bit_xor_iff)

lemma xor_cancel_left [simp]: "x XOR a = x XOR b \<longleftrightarrow> a = b" for a b x :: "'a :: len word"
  by (auto simp: bit_eq_iff bit_xor_iff)

lemma take_append_drop_take:
  "m + n \<le> length xs \<Longrightarrow> take m xs @ take n (drop m xs) = take (m + n) xs"
  by (metis take_add)

lemma drop_append_step: "drop p xs = ys @ zs \<Longrightarrow> drop (p + length ys) xs = zs"
  by (metis add.commute append_eq_conv_conj drop_drop)

lemma drop_Cons_step: "drop p xs = y # ys \<Longrightarrow> xs ! p = y \<and> drop (p + 1) xs = ys"
  by (metis Suc_eq_plus1 drop_Suc list.sel(3) nth_via_drop tl_drop)

lemma nth_list_update_if: "k < length xs \<Longrightarrow> xs[i := x] ! k = (if i = k then x else xs ! k)"
  by simp

end
