(* ===== verification/DVB_Fifo.thy ===== *)
theory DVB_Fifo
  imports DVB_Prelude
begin

text \<open>
  Byte queues in a ring of memory. The first part is the arithmetic of a ring of cells with a
  read and a write index; the second states, as a locale, what a client of a byte queue may rely
  on, and proves for every such queue that a run of puts and gets loses, duplicates and reorders
  nothing.
\<close>

section \<open>Rings of cells\<close>

definition ring_contents :: "'a list \<Rightarrow> nat \<Rightarrow> nat \<Rightarrow> 'a list" where
  "ring_contents cells pr pw =
     (if pr \<le> pw then take (pw - pr) (drop pr cells) else drop pr cells @ take pw cells)"

definition ring_store :: "'a list \<Rightarrow> nat \<Rightarrow> 'a list \<Rightarrow> 'a list" where
  "ring_store cells pw xs =
     (if pw + length xs \<le> length cells then blit cells pw xs
      else blit (blit cells pw (take (length cells - pw) xs)) 0 (drop (length cells - pw) xs))"

lemma length_ring_contents:
  "pr < length cells \<Longrightarrow> pw < length cells \<Longrightarrow>
   length (ring_contents cells pr pw) = (if pr \<le> pw then pw - pr else length cells - pr + pw)"
  by (simp add: ring_contents_def)

lemma length_ring_store [simp]:
  "pw \<le> length cells \<Longrightarrow> length xs \<le> length cells \<Longrightarrow> length (ring_store cells pw xs) = length cells"
  by (simp add: ring_store_def)

lemma ring_contents_store:
  assumes pr: "pr < length cells" and pw: "pw < length cells"
    and room: "length (ring_contents cells pr pw) + length xs < length cells"
  shows "ring_contents (ring_store cells pw xs) pr ((pw + length xs) mod length cells) =
    ring_contents cells pr pw @ xs"
proof (cases "pr \<le> pw")
  case True
  with assms have room': "pw - pr + length xs < length cells" by (simp add: length_ring_contents)
  consider "pw + length xs < length cells" | "pw + length xs = length cells"
    | "length cells < pw + length xs" by linarith
  then show ?thesis
  proof cases
    case 1
    with True pr show ?thesis by (simp add: ring_contents_def ring_store_def blit_def drop_take)
  next
    case 2
    with room' True have "0 < pr" by linarith
    with 2 True pr show ?thesis by (simp add: ring_contents_def ring_store_def blit_def drop_take)
  next
    case 3
    have "(pw + length xs) mod length cells = pw + length xs - length cells"
      using 3 pw room' True by (simp add: mod_if)
    moreover have "pw + length xs - length cells < pr" using 3 True room' by linarith
    ultimately show ?thesis
      using 3 True pw room' by (simp add: ring_contents_def ring_store_def blit_def drop_take)
  qed
next
  case False
  with assms have "pw + length xs < pr" by (simp add: length_ring_contents)
  with False pr show ?thesis by (simp add: ring_contents_def ring_store_def blit_def)
qed

lemma take_ring_contents:
  assumes "pr < length cells" and "pw < length cells" and "n \<le> length (ring_contents cells pr pw)"
  shows "take n (ring_contents cells pr pw) = take n (drop pr cells) @ take (n - (length cells - pr)) cells"
proof (cases "pr \<le> pw")
  case True
  with assms have "n \<le> pw - pr" "n \<le> length cells - pr" by (simp_all add: length_ring_contents)
  with True show ?thesis by (simp add: ring_contents_def min_def)
next
  case False
  with assms have "n \<le> length cells - pr + pw" by (simp add: length_ring_contents)
  with False show ?thesis by (simp add: ring_contents_def min_def)
qed

lemma drop_ring_contents:
  assumes "pr < length cells" and "pw < length cells" and "n \<le> length (ring_contents cells pr pw)"
  shows "drop n (ring_contents cells pr pw) = ring_contents cells ((pr + n) mod length cells) pw"
proof (cases "pr \<le> pw")
  case True
  with assms show ?thesis by (auto simp: ring_contents_def drop_take add.commute)
next
  case False
  with assms have n: "n \<le> length cells - pr + pw" by (simp add: length_ring_contents)
  show ?thesis
  proof (cases "pr + n < length cells")
    case True
    with False assms show ?thesis by (simp add: ring_contents_def add.commute)
  next
    case wrap: False
    then have "(pr + n) mod length cells = pr + n - length cells"
      using assms n False by (simp add: mod_if)
    with wrap False assms n show ?thesis
      by (auto simp: ring_contents_def drop_take add.commute)
  qed
qed

section \<open>What a client of a byte queue relies on\<close>

datatype 'a fifo_op = Put "'a list" | Get nat

primrec fifo_run ::
  "('a list \<Rightarrow> 'q \<Rightarrow> 'q) \<Rightarrow> (nat \<Rightarrow> 'q \<Rightarrow> 'a list \<times> 'q) \<Rightarrow> 'a fifo_op list \<Rightarrow> 'q \<Rightarrow> 'a list \<times> 'q" where
  "fifo_run put get [] q = ([], q)"
| "fifo_run put get (op # ops) q =
     (case op of
        Put xs \<Rightarrow> fifo_run put get ops (put xs q)
      | Get n \<Rightarrow>
          (let (ys, q') = get n q; (zs, q'') = fifo_run put get ops q' in (ys @ zs, q'')))"

text \<open>A script fits a queue of \<open>cap\<close> cells holding \<open>len\<close> when no put overfills and no get underruns it.\<close>

primrec fifo_fits :: "nat \<Rightarrow> nat \<Rightarrow> 'a fifo_op list \<Rightarrow> bool" where
  "fifo_fits cap len [] = True"
| "fifo_fits cap len (op # ops) =
     (case op of
        Put xs \<Rightarrow> len + length xs \<le> cap \<and> fifo_fits cap (len + length xs) ops
      | Get n \<Rightarrow> n \<le> len \<and> fifo_fits cap (len - n) ops)"

primrec fifo_puts :: "'a fifo_op list \<Rightarrow> 'a list" where
  "fifo_puts [] = []"
| "fifo_puts (op # ops) = (case op of Put xs \<Rightarrow> xs | Get n \<Rightarrow> []) @ fifo_puts ops"

locale byte_fifo =
  fixes inv :: "'q \<Rightarrow> bool"
    and contents :: "'q \<Rightarrow> 'a list"
    and capacity :: "'q \<Rightarrow> nat"
    and put :: "'a list \<Rightarrow> 'q \<Rightarrow> 'q"
    and get :: "nat \<Rightarrow> 'q \<Rightarrow> 'a list \<times> 'q"
  assumes contents_bound: "inv q \<Longrightarrow> length (contents q) \<le> capacity q"
    and put_inv: "inv q \<Longrightarrow> length (contents q) + length xs \<le> capacity q \<Longrightarrow> inv (put xs q)"
    and put_contents: "inv q \<Longrightarrow> length (contents q) + length xs \<le> capacity q \<Longrightarrow>
      contents (put xs q) = contents q @ xs"
    and put_capacity: "inv q \<Longrightarrow> length (contents q) + length xs \<le> capacity q \<Longrightarrow>
      capacity (put xs q) = capacity q"
    and get_inv: "inv q \<Longrightarrow> n \<le> length (contents q) \<Longrightarrow> inv (snd (get n q))"
    and get_result: "inv q \<Longrightarrow> n \<le> length (contents q) \<Longrightarrow> fst (get n q) = take n (contents q)"
    and get_contents: "inv q \<Longrightarrow> n \<le> length (contents q) \<Longrightarrow>
      contents (snd (get n q)) = drop n (contents q)"
    and get_capacity: "inv q \<Longrightarrow> n \<le> length (contents q) \<Longrightarrow> capacity (snd (get n q)) = capacity q"
begin

lemma run_order:
  "inv q \<Longrightarrow> fifo_fits (capacity q) (length (contents q)) ops \<Longrightarrow>
   fst (fifo_run put get ops q) @ contents (snd (fifo_run put get ops q)) = contents q @ fifo_puts ops"
proof (induction ops arbitrary: q)
  case Nil
  then show ?case by simp
next
  case (Cons op ops)
  show ?case
  proof (cases op)
    case (Put xs)
    with Cons show ?thesis by (simp add: put_inv put_contents put_capacity)
  next
    case (Get n)
    with Cons.prems have n: "n \<le> length (contents q)" by simp
    let ?q = "snd (get n q)"
    have "fst (fifo_run put get ops ?q) @ contents (snd (fifo_run put get ops ?q)) =
      contents ?q @ fifo_puts ops"
      using Cons.prems Get n by (intro Cons.IH) (simp_all add: get_inv get_contents get_capacity)
    with Cons.prems(1) n Get show ?thesis
      by (simp add: case_prod_unfold Let_def get_result get_contents)
  qed
qed

lemma run_inv:
  "inv q \<Longrightarrow> fifo_fits (capacity q) (length (contents q)) ops \<Longrightarrow> inv (snd (fifo_run put get ops q))"
proof (induction ops arbitrary: q)
  case Nil
  then show ?case by simp
next
  case (Cons op ops)
  then show ?case
    by (cases op)
      (simp_all add: put_inv put_contents put_capacity get_inv get_contents get_capacity
        case_prod_unfold Let_def)
qed

lemma drained_run:
  assumes "inv q" and "contents q = []" and "fifo_fits (capacity q) 0 ops"
    and "contents (snd (fifo_run put get ops q)) = []"
  shows "fst (fifo_run put get ops q) = fifo_puts ops"
  using run_order [of q ops] assms by simp

end

end
