(* ===== verification/DVB_Ringbuffer.thy ===== *)
theory DVB_Ringbuffer
  imports DVB_Fifo
begin

text \<open>
  \<^verbatim>\<open>dvb-core/dvb_ringbuffer.c\<close>: the ring buffer of the DVB drivers. The lock and the wait queue of
  the structure carry no data and are left out. A copy between user and kernel memory may fault;
  whether the first or the second copy of a call does is an argument. A faulting copy transfers
  nothing in the model.

  The lemmas give the space accounting, the behaviour of transfers that do not cross the end of
  the memory, and what the index update of a transfer that does cross it really computes.
\<close>

section \<open>The code\<close>

record dvb_ringbuffer =
  rb_data :: bytes
  rb_size :: nat
  rb_pread :: nat
  rb_pwrite :: nat

definition dvb_ringbuffer_init :: "bytes \<Rightarrow> nat \<Rightarrow> dvb_ringbuffer" where
  "dvb_ringbuffer_init d len = \<lparr>rb_data = d, rb_size = len, rb_pread = 0, rb_pwrite = 0\<rparr>"

definition dvb_ringbuffer_empty :: "dvb_ringbuffer \<Rightarrow> bool" where
  "dvb_ringbuffer_empty rbuf \<longleftrightarrow> rb_pread rbuf = rb_pwrite rbuf"

definition dvb_ringbuffer_free :: "dvb_ringbuffer \<Rightarrow> int" where
  "dvb_ringbuffer_free rbuf =
     (let free = int (rb_pread rbuf) - int (rb_pwrite rbuf);
          free = (if free \<le> 0 then free + int (rb_size rbuf) else free)
      in free - 1)"

definition dvb_ringbuffer_avail :: "dvb_ringbuffer \<Rightarrow> int" where
  "dvb_ringbuffer_avail rbuf =
     (let avail = int (rb_pwrite rbuf) - int (rb_pread rbuf)
      in if avail < 0 then avail + int (rb_size rbuf) else avail)"

definition dvb_ringbuffer_flush :: "dvb_ringbuffer \<Rightarrow> dvb_ringbuffer" where
  "dvb_ringbuffer_flush rbuf = rbuf\<lparr>rb_pread := rb_pwrite rbuf\<rparr>"

definition dvb_ringbuffer_flush_spinlock_wakeup :: "dvb_ringbuffer \<Rightarrow> dvb_ringbuffer" where
  "dvb_ringbuffer_flush_spinlock_wakeup rbuf = dvb_ringbuffer_flush rbuf"

definition dvb_ringbuffer_read ::
  "dvb_ringbuffer \<Rightarrow> nat \<Rightarrow> bool \<Rightarrow> bool \<Rightarrow> bool \<Rightarrow> (int \<times> bytes \<times> dvb_ringbuffer) kres" where
  "dvb_ringbuffer_read rbuf len usermem fault1 fault2 =
     (let todo = len;
          split = (if rb_pread rbuf + len > rb_size rbuf then rb_size rbuf - rb_pread rbuf else 0)
      in if split > 0
         then kbind (memread (rb_data rbuf) (rb_pread rbuf) split) (\<lambda>xs.
           if usermem \<and> fault1 then Ret (- EFAULT, [], rbuf)
           else
             let todo = todo - split; rbuf = rbuf\<lparr>rb_pread := 0\<rparr>
             in kbind (memread (rb_data rbuf) (rb_pread rbuf) todo) (\<lambda>ys.
               if usermem \<and> fault2 then Ret (- EFAULT, xs, rbuf)
               else Ret (int len, xs @ ys,
                 rbuf\<lparr>rb_pread := (rb_pread rbuf + len) mod rb_size rbuf\<rparr>)))
         else kbind (memread (rb_data rbuf) (rb_pread rbuf) todo) (\<lambda>ys.
           if usermem \<and> fault2 then Ret (- EFAULT, [], rbuf)
           else Ret (int len, ys,
             rbuf\<lparr>rb_pread := (rb_pread rbuf + len) mod rb_size rbuf\<rparr>)))"

definition dvb_ringbuffer_write ::
  "dvb_ringbuffer \<Rightarrow> bytes \<Rightarrow> bool \<Rightarrow> bool \<Rightarrow> bool \<Rightarrow> (int \<times> dvb_ringbuffer) kres" where
  "dvb_ringbuffer_write rbuf buf usermem fault1 fault2 =
     (let len = length buf; todo = len;
          split = (if rb_pwrite rbuf + len > rb_size rbuf then rb_size rbuf - rb_pwrite rbuf else 0)
      in if split > 0
         then kbind (memcpy (rb_data rbuf) (rb_pwrite rbuf) buf 0 split) (\<lambda>d.
           if usermem \<and> fault1 then Ret (- EFAULT, rbuf)
           else
             let todo = todo - split; rbuf = rbuf\<lparr>rb_data := d, rb_pwrite := 0\<rparr>
             in kbind (memcpy (rb_data rbuf) (rb_pwrite rbuf) buf split todo) (\<lambda>d.
               if usermem \<and> fault2 then Ret (- EFAULT, rbuf)
               else Ret (int len, rbuf\<lparr>rb_data := d,
                 rb_pwrite := (rb_pwrite rbuf + len) mod rb_size rbuf\<rparr>)))
         else kbind (memcpy (rb_data rbuf) (rb_pwrite rbuf) buf 0 todo) (\<lambda>d.
           if usermem \<and> fault2 then Ret (- EFAULT, rbuf)
           else Ret (int len, rbuf\<lparr>rb_data := d,
             rb_pwrite := (rb_pwrite rbuf + len) mod rb_size rbuf\<rparr>)))"

section \<open>Invariant and contents\<close>

definition ringbuffer_inv :: "dvb_ringbuffer \<Rightarrow> bool" where
  "ringbuffer_inv r \<longleftrightarrow> length (rb_data r) = rb_size r \<and> rb_pread r < rb_size r \<and> rb_pwrite r < rb_size r"

definition ringbuffer_contents :: "dvb_ringbuffer \<Rightarrow> bytes" where
  "ringbuffer_contents r = ring_contents (rb_data r) (rb_pread r) (rb_pwrite r)"

lemma ringbuffer_init_inv: "0 < len \<Longrightarrow> length d = len \<Longrightarrow> ringbuffer_inv (dvb_ringbuffer_init d len)"
  by (simp add: ringbuffer_inv_def dvb_ringbuffer_init_def)

lemma ringbuffer_init_contents: "ringbuffer_contents (dvb_ringbuffer_init d len) = []"
  by (simp add: ringbuffer_contents_def dvb_ringbuffer_init_def ring_contents_def)

lemma ringbuffer_avail:
  "ringbuffer_inv r \<Longrightarrow> dvb_ringbuffer_avail r = int (length (ringbuffer_contents r))"
  by (auto simp: ringbuffer_inv_def ringbuffer_contents_def dvb_ringbuffer_avail_def Let_def
    length_ring_contents)

lemma ringbuffer_free:
  "ringbuffer_inv r \<Longrightarrow> dvb_ringbuffer_free r = int (rb_size r) - 1 - dvb_ringbuffer_avail r"
  by (auto simp: ringbuffer_inv_def dvb_ringbuffer_free_def dvb_ringbuffer_avail_def Let_def)

lemma ringbuffer_flush:
  "ringbuffer_inv r \<Longrightarrow> ringbuffer_inv (dvb_ringbuffer_flush r) \<and>
    ringbuffer_contents (dvb_ringbuffer_flush r) = []"
  by (simp add: ringbuffer_inv_def ringbuffer_contents_def dvb_ringbuffer_flush_def ring_contents_def)

lemma ringbuffer_write_straight:
  assumes "rb_pwrite r + length buf \<le> rb_size r" and "ringbuffer_inv r" and "\<not> (usermem \<and> fault2)"
  shows "dvb_ringbuffer_write r buf usermem fault1 fault2 = Ret (int (length buf),
    r\<lparr>rb_data := blit (rb_data r) (rb_pwrite r) buf,
      rb_pwrite := (rb_pwrite r + length buf) mod rb_size r\<rparr>)"
  using assms by (auto simp: dvb_ringbuffer_write_def ringbuffer_inv_def memcpy_def Let_def)

lemma ringbuffer_read_straight:
  assumes "rb_pread r + len \<le> rb_size r" and "ringbuffer_inv r" and "\<not> (usermem \<and> fault2)"
  shows "dvb_ringbuffer_read r len usermem fault1 fault2 = Ret (int len,
    take len (drop (rb_pread r) (rb_data r)), r\<lparr>rb_pread := (rb_pread r + len) mod rb_size r\<rparr>)"
  using assms by (auto simp: dvb_ringbuffer_read_def ringbuffer_inv_def memread_def Let_def)

section \<open>Properties\<close>

text \<open>
  C15. Free and available space add up to one cell less than the size, and a write that neither
  exceeds the free space nor crosses the end of the memory succeeds, keeps the invariant and
  appends exactly its bytes to the contents.
\<close>

theorem ringbuffer_write_appends:
  assumes "ringbuffer_inv r" and "int (length buf) \<le> dvb_ringbuffer_free r"
    and "rb_pwrite r + length buf \<le> rb_size r"
  shows "\<exists>r'. dvb_ringbuffer_write r buf False f1 f2 = Ret (int (length buf), r') \<and> ringbuffer_inv r' \<and>
    ringbuffer_contents r' = ringbuffer_contents r @ buf \<and>
    dvb_ringbuffer_free r' + dvb_ringbuffer_avail r' = int (rb_size r) - 1"
proof -
  let ?r = "r\<lparr>rb_data := blit (rb_data r) (rb_pwrite r) buf,
      rb_pwrite := (rb_pwrite r + length buf) mod rb_size r\<rparr>"
  have inv: "ringbuffer_inv ?r"
    using assms by (auto simp: ringbuffer_inv_def)
  have room: "length (ringbuffer_contents r) + length buf < length (rb_data r)"
    using assms by (simp add: ringbuffer_free ringbuffer_avail ringbuffer_inv_def)
  have "ring_store (rb_data r) (rb_pwrite r) buf = blit (rb_data r) (rb_pwrite r) buf"
    using assms by (simp add: ring_store_def ringbuffer_inv_def)
  then have "ringbuffer_contents ?r = ringbuffer_contents r @ buf"
    using ring_contents_store [of "rb_pread r" "rb_data r" "rb_pwrite r" buf] assms(1) room
    by (simp add: ringbuffer_contents_def ringbuffer_inv_def)
  moreover have "dvb_ringbuffer_free ?r + dvb_ringbuffer_avail ?r = int (rb_size r) - 1"
    using ringbuffer_free [OF inv] by simp
  ultimately show ?thesis
    using inv assms by (simp add: ringbuffer_write_straight)
qed

theorem ringbuffer_write_appends_witness:
  "\<exists>r'. dvb_ringbuffer_write (dvb_ringbuffer_init [0, 0, 0, 0] 4) [7, 8] False False False = Ret (2, r') \<and>
    ringbuffer_inv r' \<and> ringbuffer_contents r' = [7, 8] \<and>
    dvb_ringbuffer_free r' + dvb_ringbuffer_avail r' = 3"
  using ringbuffer_write_appends [of "dvb_ringbuffer_init [0, 0, 0, 0] 4" "[7, 8]" False False]
  by (simp add: ringbuffer_init_contents ringbuffer_inv_def dvb_ringbuffer_init_def
    dvb_ringbuffer_free_def Let_def ringbuffer_contents_def ring_contents_def)

text \<open>
  C32. A write that crosses the end of the memory stores its bytes in the right cells, but leaves
  the write index at \<open>len\<close> instead of \<open>pwrite + len - size\<close>: it adds the whole length to the index
  it has just reset to 0, so the index is always wrong, by the number of bytes before the end.
\<close>

theorem ringbuffer_wrapping_write_index:
  assumes "ringbuffer_inv r" and "length buf < rb_size r" and "rb_size r < rb_pwrite r + length buf"
  shows "\<exists>r'. dvb_ringbuffer_write r buf False f1 f2 = Ret (int (length buf), r') \<and>
    rb_data r' = ring_store (rb_data r) (rb_pwrite r) buf \<and>
    rb_pwrite r' = length buf \<and> rb_pwrite r' \<noteq> (rb_pwrite r + length buf) mod rb_size r"
proof -
  have "(rb_pwrite r + length buf) mod rb_size r = rb_pwrite r + length buf - rb_size r"
    using assms by (auto simp: ringbuffer_inv_def mod_if)
  moreover have "length buf \<noteq> rb_pwrite r + length buf - rb_size r"
    using assms by (auto simp: ringbuffer_inv_def)
  ultimately show ?thesis
    using assms by (auto simp: dvb_ringbuffer_write_def ringbuffer_inv_def memcpy_def Let_def ring_store_def)
qed

theorem ringbuffer_wrapping_write_index_witness:
  "\<exists>r'. dvb_ringbuffer_write \<lparr>rb_data = [1, 2, 3, 4], rb_size = 4, rb_pread = 3, rb_pwrite = 3\<rparr> [7, 8]
      False False False = Ret (2, r') \<and> rb_pwrite r' = 2 \<and> rb_pwrite r' \<noteq> (3 + 2) mod 4"
  using ringbuffer_wrapping_write_index
    [of "\<lparr>rb_data = [1, 2, 3, 4], rb_size = 4, rb_pread = 3, rb_pwrite = 3\<rparr>" "[7, 8]" False False]
  by (auto simp: ringbuffer_inv_def)

end
