(* ===== verification/DVB_Demux_Types.thy ===== *)
theory DVB_Demux_Types
  imports DVB_Prelude
begin

text \<open>
  The data of the kernel demultiplexer: \<^verbatim>\<open>dvb-core/demux.h\<close> and \<^verbatim>\<open>dvb-core/dvb_demux.h\<close>.

  Pointers to filters and feeds are indices into the arrays of the demultiplexer; NULL is
  \<^const>\<open>None\<close>. Everything outside the demultiplexer (its clients and the hardware) is one value of
  the type variable \<open>'u\<close>: callbacks and driver hooks are functions that may read and change it.
  The callbacks receive the two buffers of the callback interface and the \<^verbatim>\<open>priv\<close> pointer of the
  feed or filter they are registered for; the success code is always \<^verbatim>\<open>DMX_OK\<close> and is left out.
  The union of the TS and the section part of a feed starts with the same members in both
  variants, which are one field here. The embedded \<^verbatim>\<open>struct dmx_demux\<close> contributes the fields
  \<open>dmx_users\<close> and \<open>demux_frontend\<close>; \<open>demux_users\<close> is the counter of \<^verbatim>\<open>struct dvb_demux\<close> itself. Buffers of feeds are never allocated (\<^verbatim>\<open>NOBUFS\<close>).
\<close>

type_synonym 'u feed_cb = "bytes \<Rightarrow> bytes \<Rightarrow> nat option \<Rightarrow> 'u \<Rightarrow> int \<times> 'u"

datatype dmx_type = DMX_TYPE_TS | DMX_TYPE_SEC | DMX_TYPE_PES

datatype dmx_state =
  DMX_STATE_FREE | DMX_STATE_ALLOCATED | DMX_STATE_SET | DMX_STATE_READY | DMX_STATE_GO

datatype dmx_frontend_source =
  DMX_MEMORY_FE | DMX_FRONTEND_0 | DMX_FRONTEND_1 | DMX_FRONTEND_2 | DMX_FRONTEND_3
| DMX_STREAM_0 | DMX_STREAM_1 | DMX_STREAM_2 | DMX_STREAM_3

abbreviation DVB_DEMUX_MASK_MAX :: nat where "DVB_DEMUX_MASK_MAX \<equiv> 18"
abbreviation DMX_MAX_FILTER_SIZE :: nat where "DMX_MAX_FILTER_SIZE \<equiv> 18"
abbreviation DMX_TS_PES_OTHER :: nat where "DMX_TS_PES_OTHER \<equiv> 20"
abbreviation DMX_MAX_PID :: nat where "DMX_MAX_PID \<equiv> 0x2000"
abbreviation MAX_DVB_DEMUX_USERS :: int where "MAX_DVB_DEMUX_USERS \<equiv> 10"
abbreviation TS_PACKET :: int where "TS_PACKET \<equiv> 1"
abbreviation TS_PAYLOAD_ONLY :: int where "TS_PAYLOAD_ONLY \<equiv> 2"
abbreviation TS_DECODER :: int where "TS_DECODER \<equiv> 4"

record dmx_frontend =
  fe_id :: nat
  fe_source :: dmx_frontend_source

record dvb_demux_filter =
  filter_value :: bytes
  filter_mask :: bytes
  filter_mode :: bytes
  filter_priv :: "nat option"
  maskandmode :: bytes
  maskandnotmode :: bytes
  doneq :: bool
  filter_next :: "nat option"
  filter_feed :: "nat option"
  filter_index :: nat
  filter_state :: dmx_state
  filter_type :: dmx_type

record 'u dvb_demux_feed =
  is_filtering :: bool
  feed_priv :: "nat option"
  check_crc :: bool
  crc_val :: u32
  secbuf :: bytes
  secbufp :: nat
  seclen :: nat
  cb_ts :: "'u feed_cb"
  cb_sec :: "'u feed_cb"
  feed_type :: dmx_type
  feed_state :: dmx_state
  feed_pid :: nat
  feed_buffer_size :: nat
  feed_descramble :: bool
  feed_timeout :: nat
  feed_filter :: "nat option"
  cb_length :: nat
  ts_type :: int
  feed_pes_type :: nat
  feed_cc :: int
  peslen :: u16

record 'u dvb_demux =
  filters :: "dvb_demux_filter list"
  feeds :: "'u dvb_demux_feed list"
  dmx_users :: int
  demux_users :: int
  frontend_list :: "dmx_frontend list"
  demux_frontend :: "dmx_frontend option"
  pesfilter :: "nat option list"
  demux_pids :: "nat list"
  playing :: bool
  recording :: bool
  feed_list :: "nat list"
  tsbuf :: bytes
  tsbufp :: nat
  demux_mutex :: bool
  start_feed :: "(nat \<Rightarrow> 'u dvb_demux_feed \<Rightarrow> 'u \<Rightarrow> int \<times> 'u) option"
  stop_feed :: "(nat \<Rightarrow> 'u dvb_demux_feed \<Rightarrow> 'u \<Rightarrow> int \<times> 'u) option"
  write_to_decoder :: "(nat \<Rightarrow> 'u dvb_demux_feed \<Rightarrow> bytes \<Rightarrow> 'u \<Rightarrow> int \<times> 'u) option"

section \<open>The order of the feed states\<close>

text \<open>The code compares states as the numbers of \<^verbatim>\<open>dvb_demux.h\<close>.\<close>

primrec dmx_state_num :: "dmx_state \<Rightarrow> nat" where
  "dmx_state_num DMX_STATE_FREE = 0"
| "dmx_state_num DMX_STATE_ALLOCATED = 1"
| "dmx_state_num DMX_STATE_SET = 2"
| "dmx_state_num DMX_STATE_READY = 3"
| "dmx_state_num DMX_STATE_GO = 4"

lemma dmx_state_num_inject: "dmx_state_num a = dmx_state_num b \<longleftrightarrow> a = b"
  by (cases a; cases b) simp_all

instantiation dmx_state :: linorder
begin

definition less_eq_dmx_state :: "dmx_state \<Rightarrow> dmx_state \<Rightarrow> bool" where
  "less_eq_dmx_state a b \<longleftrightarrow> dmx_state_num a \<le> dmx_state_num b"

definition less_dmx_state :: "dmx_state \<Rightarrow> dmx_state \<Rightarrow> bool" where
  "less_dmx_state a b \<longleftrightarrow> dmx_state_num a < dmx_state_num b"

instance
  by standard (auto simp: less_eq_dmx_state_def less_dmx_state_def dmx_state_num_inject)

end

lemma dmx_state_less_GO [simp]: "s < DMX_STATE_GO \<longleftrightarrow> s \<noteq> DMX_STATE_GO"
  by (cases s) (simp_all add: less_dmx_state_def)

section \<open>Updates of one array element\<close>

definition set_feed :: "nat \<Rightarrow> 'u dvb_demux_feed \<Rightarrow> 'u dvb_demux \<Rightarrow> 'u dvb_demux" where
  "set_feed i f d = d\<lparr>feeds := (feeds d)[i := f]\<rparr>"

definition set_filter :: "nat \<Rightarrow> dvb_demux_filter \<Rightarrow> 'u dvb_demux \<Rightarrow> 'u dvb_demux" where
  "set_filter i f d = d\<lparr>filters := (filters d)[i := f]\<rparr>"

lemma set_feed_simps [simp]:
  "feeds (set_feed i f d) = (feeds d)[i := f]"
  "filters (set_feed i f d) = filters d"
  "feed_list (set_feed i f d) = feed_list d"
  "tsbuf (set_feed i f d) = tsbuf d"
  "tsbufp (set_feed i f d) = tsbufp d"
  "demux_mutex (set_feed i f d) = demux_mutex d"
  "pesfilter (set_feed i f d) = pesfilter d"
  "demux_pids (set_feed i f d) = demux_pids d"
  "demux_users (set_feed i f d) = demux_users d"
  "dmx_users (set_feed i f d) = dmx_users d"
  "frontend_list (set_feed i f d) = frontend_list d"
  "demux_frontend (set_feed i f d) = demux_frontend d"
  "start_feed (set_feed i f d) = start_feed d"
  "stop_feed (set_feed i f d) = stop_feed d"
  "write_to_decoder (set_feed i f d) = write_to_decoder d"
  by (simp_all add: set_feed_def)

lemma set_filter_simps [simp]:
  "filters (set_filter i f d) = (filters d)[i := f]"
  "feeds (set_filter i g d) = feeds d"
  "feed_list (set_filter i g d) = feed_list d"
  "tsbuf (set_filter i g d) = tsbuf d"
  "tsbufp (set_filter i g d) = tsbufp d"
  "demux_mutex (set_filter i g d) = demux_mutex d"
  "pesfilter (set_filter i g d) = pesfilter d"
  "demux_pids (set_filter i g d) = demux_pids d"
  "demux_users (set_filter i g d) = demux_users d"
  "dmx_users (set_filter i g d) = dmx_users d"
  "frontend_list (set_filter i g d) = frontend_list d"
  "demux_frontend (set_filter i g d) = demux_frontend d"
  "start_feed (set_filter i g d) = start_feed d"
  "stop_feed (set_filter i g d) = stop_feed d"
  "write_to_decoder (set_filter i g d) = write_to_decoder d"
  by (simp_all add: set_filter_def)

end
