(* ===== verification/DVB_Crc32.thy ===== *)
theory DVB_Crc32
  imports DVB_Prelude
begin

text \<open>
  The cyclic redundancy check of sections: the table-driven \<^verbatim>\<open>crc32_be\<close> of
  \<^verbatim>\<open>dvb-core/dvb_compat.c\<close> and \<^verbatim>\<open>dvb_set_crc32\<close> of \<^verbatim>\<open>dvb-core/dvb_demux.c\<close>.
  The lemmas show that the table is the one of the generator polynomial, that the routine is
  division by it bit by bit, that a block followed by its checksum has residue zero, and that
  any corruption confined to four consecutive bytes is detected.
\<close>

section \<open>The code\<close>

definition crc32_table :: "u32 list" where
  "crc32_table =
   [0x00000000, 0x04c11db7, 0x09823b6e, 0x0d4326d9, 0x130476dc, 0x17c56b6b,
    0x1a864db2, 0x1e475005, 0x2608edb8, 0x22c9f00f, 0x2f8ad6d6, 0x2b4bcb61,
    0x350c9b64, 0x31cd86d3, 0x3c8ea00a, 0x384fbdbd, 0x4c11db70, 0x48d0c6c7,
    0x4593e01e, 0x4152fda9, 0x5f15adac, 0x5bd4b01b, 0x569796c2, 0x52568b75,
    0x6a1936c8, 0x6ed82b7f, 0x639b0da6, 0x675a1011, 0x791d4014, 0x7ddc5da3,
    0x709f7b7a, 0x745e66cd, 0x9823b6e0, 0x9ce2ab57, 0x91a18d8e, 0x95609039,
    0x8b27c03c, 0x8fe6dd8b, 0x82a5fb52, 0x8664e6e5, 0xbe2b5b58, 0xbaea46ef,
    0xb7a96036, 0xb3687d81, 0xad2f2d84, 0xa9ee3033, 0xa4ad16ea, 0xa06c0b5d,
    0xd4326d90, 0xd0f37027, 0xddb056fe, 0xd9714b49, 0xc7361b4c, 0xc3f706fb,
    0xceb42022, 0xca753d95, 0xf23a8028, 0xf6fb9d9f, 0xfbb8bb46, 0xff79a6f1,
    0xe13ef6f4, 0xe5ffeb43, 0xe8bccd9a, 0xec7dd02d, 0x34867077, 0x30476dc0,
    0x3d044b19, 0x39c556ae, 0x278206ab, 0x23431b1c, 0x2e003dc5, 0x2ac12072,
    0x128e9dcf, 0x164f8078, 0x1b0ca6a1, 0x1fcdbb16, 0x018aeb13, 0x054bf6a4,
    0x0808d07d, 0x0cc9cdca, 0x7897ab07, 0x7c56b6b0, 0x71159069, 0x75d48dde,
    0x6b93dddb, 0x6f52c06c, 0x6211e6b5, 0x66d0fb02, 0x5e9f46bf, 0x5a5e5b08,
    0x571d7dd1, 0x53dc6066, 0x4d9b3063, 0x495a2dd4, 0x44190b0d, 0x40d816ba,
    0xaca5c697, 0xa864db20, 0xa527fdf9, 0xa1e6e04e, 0xbfa1b04b, 0xbb60adfc,
    0xb6238b25, 0xb2e29692, 0x8aad2b2f, 0x8e6c3698, 0x832f1041, 0x87ee0df6,
    0x99a95df3, 0x9d684044, 0x902b669d, 0x94ea7b2a, 0xe0b41de7, 0xe4750050,
    0xe9362689, 0xedf73b3e, 0xf3b06b3b, 0xf771768c, 0xfa325055, 0xfef34de2,
    0xc6bcf05f, 0xc27dede8, 0xcf3ecb31, 0xcbffd686, 0xd5b88683, 0xd1799b34,
    0xdc3abded, 0xd8fba05a, 0x690ce0ee, 0x6dcdfd59, 0x608edb80, 0x644fc637,
    0x7a089632, 0x7ec98b85, 0x738aad5c, 0x774bb0eb, 0x4f040d56, 0x4bc510e1,
    0x46863638, 0x42472b8f, 0x5c007b8a, 0x58c1663d, 0x558240e4, 0x51435d53,
    0x251d3b9e, 0x21dc2629, 0x2c9f00f0, 0x285e1d47, 0x36194d42, 0x32d850f5,
    0x3f9b762c, 0x3b5a6b9b, 0x0315d626, 0x07d4cb91, 0x0a97ed48, 0x0e56f0ff,
    0x1011a0fa, 0x14d0bd4d, 0x19939b94, 0x1d528623, 0xf12f560e, 0xf5ee4bb9,
    0xf8ad6d60, 0xfc6c70d7, 0xe22b20d2, 0xe6ea3d65, 0xeba91bbc, 0xef68060b,
    0xd727bbb6, 0xd3e6a601, 0xdea580d8, 0xda649d6f, 0xc423cd6a, 0xc0e2d0dd,
    0xcda1f604, 0xc960ebb3, 0xbd3e8d7e, 0xb9ff90c9, 0xb4bcb610, 0xb07daba7,
    0xae3afba2, 0xaafbe615, 0xa7b8c0cc, 0xa379dd7b, 0x9b3660c6, 0x9ff77d71,
    0x92b45ba8, 0x9675461f, 0x8832161a, 0x8cf30bad, 0x81b02d74, 0x857130c3,
    0x5d8a9099, 0x594b8d2e, 0x5408abf7, 0x50c9b640, 0x4e8ee645, 0x4a4ffbf2,
    0x470cdd2b, 0x43cdc09c, 0x7b827d21, 0x7f436096, 0x7200464f, 0x76c15bf8,
    0x68860bfd, 0x6c47164a, 0x61043093, 0x65c52d24, 0x119b4be9, 0x155a565e,
    0x18197087, 0x1cd86d30, 0x029f3d35, 0x065e2082, 0x0b1d065b, 0x0fdc1bec,
    0x3793a651, 0x3352bbe6, 0x3e119d3f, 0x3ad08088, 0x2497d08d, 0x2056cd3a,
    0x2d15ebe3, 0x29d4f654, 0xc5a92679, 0xc1683bce, 0xcc2b1d17, 0xc8ea00a0,
    0xd6ad50a5, 0xd26c4d12, 0xdf2f6bcb, 0xdbee767c, 0xe3a1cbc1, 0xe760d676,
    0xea23f0af, 0xeee2ed18, 0xf0a5bd1d, 0xf464a0aa, 0xf9278673, 0xfde69bc4,
    0x89b8fd09, 0x8d79e0be, 0x803ac667, 0x84fbdbd0, 0x9abc8bd5, 0x9e7d9662,
    0x933eb0bb, 0x97ffad0c, 0xafb010b1, 0xab710d06, 0xa6322bdf, 0xa2f33668,
    0xbcb4666d, 0xb8757bda, 0xb5365d03, 0xb1f740b4]"

definition crc32_step :: "u32 \<Rightarrow> u8 \<Rightarrow> u32" where
  "crc32_step crc b =
     push_bit 8 crc XOR crc32_table ! unat ((drop_bit 24 crc XOR ucast b) AND 0xff)"

definition crc32_be :: "u32 \<Rightarrow> bytes \<Rightarrow> u32" where
  "crc32_be crc data = foldl crc32_step crc data"

definition dvb_set_crc32 :: "bytes \<Rightarrow> nat \<Rightarrow> bytes kres" where
  "dvb_set_crc32 data len =
     (let crc = crc32_be (NOT 0) (take len data)
      in if len + 4 \<le> length data
         then Ret (blit data len
           [ucast (drop_bit 24 crc AND 0xff), ucast (drop_bit 16 crc AND 0xff),
            ucast (drop_bit 8 crc AND 0xff), ucast (crc AND 0xff)])
         else Oops)"

section \<open>Reference: division by the generator polynomial, one bit at a time\<close>

definition crc32_shift :: "u32 \<Rightarrow> u32" where
  "crc32_shift c = (if bit c 31 then push_bit 1 c XOR 0x04c11db7 else push_bit 1 c)"

definition crc32_bitwise :: "u32 \<Rightarrow> bytes \<Rightarrow> u32" where
  "crc32_bitwise crc data =
     foldl (\<lambda>c b. (crc32_shift ^^ 8) (c XOR push_bit 24 (ucast b))) crc data"

section \<open>The shift register is linear and injective\<close>

lemma crc32_shift_xor: "crc32_shift (a XOR b) = crc32_shift a XOR crc32_shift b"
  by (simp add: crc32_shift_def push_bit_xor bit_xor_iff ac_simps)

lemma crc32_shift_0 [simp]: "crc32_shift 0 = 0"
  by (simp add: crc32_shift_def)

lemma funpow_crc32_shift_xor:
  "(crc32_shift ^^ n) (a XOR b) = (crc32_shift ^^ n) a XOR (crc32_shift ^^ n) b"
  by (induction n) (simp_all add: crc32_shift_xor)

lemma crc32_shift_eq_0_iff [simp]: "crc32_shift c = 0 \<longleftrightarrow> c = 0"
proof
  assume 0: "crc32_shift c = 0"
  have top: "\<not> bit c 31"
  proof
    assume "bit c 31"
    with 0 have "bit (push_bit 1 c XOR (0x04c11db7 :: u32)) 0 = bit (0 :: u32) 0"
      by (simp add: crc32_shift_def)
    then show False by (simp add: bit_0 even_xor_iff)
  qed
  with 0 have sh: "push_bit 1 c = 0" by (simp add: crc32_shift_def)
  have "\<not> bit c n" for n
  proof (cases "n < 31")
    case True
    have "bit (push_bit 1 c) (Suc n) = bit (0 :: u32) (Suc n)" by (simp only: sh)
    with True show ?thesis by (simp add: bit_push_bit_iff del: push_bit_Suc)
  next
    case False
    then show ?thesis using top bit_imp_le_length [of c n] by (cases "n = 31") auto
  qed
  then show "c = 0" by (simp add: bit_eq_iff)
qed simp

lemma funpow_crc32_shift_eq_0_iff [simp]: "(crc32_shift ^^ n) c = 0 \<longleftrightarrow> c = 0"
  by (induction n) simp_all

section \<open>The table is the table of the polynomial\<close>

text \<open>
  \<open>crc32_level k\<close> lists the remainders of the \<open>2 ^ k\<close> words of \<open>k\<close> leading bits; level 8 is the
  table. A level is computed from the one before with one shift per entry.
\<close>

primrec crc32_level :: "nat \<Rightarrow> u32 list" where
  "crc32_level 0 = [0]"
| "crc32_level (Suc k) =
     concat (map (\<lambda>x. [crc32_shift x, crc32_shift x XOR 0x04c11db7]) (crc32_level k))"

definition crc32_entry :: "nat \<Rightarrow> nat \<Rightarrow> u32" where
  "crc32_entry k n = (crc32_shift ^^ k) (push_bit (32 - k) (of_nat n))"

lemma crc32_table_level: "crc32_table = crc32_level 8"
proof -
  have "crc32_level (Suc (Suc (Suc (Suc (Suc (Suc (Suc (Suc 0)))))))) = crc32_table"
    by (simp add: crc32_shift_def crc32_table_def)
  then show ?thesis by (simp add: eval_nat_numeral)
qed

lemma concat_pairs_upt:
  "concat (map (\<lambda>n. [f (2 * n), f (2 * n + 1)]) [0..<m]) = map f [0..<2 * m]"
  by (induction m) simp_all

lemma crc32_shift_low: "\<not> bit c 31 \<Longrightarrow> crc32_shift c = push_bit 1 c"
  by (simp add: crc32_shift_def)

lemma funpow_crc32_shift_low:
  "(\<And>n. bit c n \<Longrightarrow> n + k < 32) \<Longrightarrow> (crc32_shift ^^ k) c = push_bit k c"
proof (induction k)
  case 0
  show ?case by simp
next
  case (Suc k)
  have "\<not> bit (push_bit k c) 31"
    using Suc.prems [of "31 - k"] by (auto simp: bit_push_bit_iff)
  moreover have "(crc32_shift ^^ k) c = push_bit k c"
    using Suc.IH Suc.prems by (metis Suc_lessD add_Suc_right)
  ultimately show ?case
    by (simp add: crc32_shift_low push_bit_push_bit del: push_bit_Suc)
qed

lemma crc32_entry_double: "crc32_entry (Suc k) (2 * n) = crc32_shift (crc32_entry k n)" if "k < 32"
proof -
  have "push_bit (32 - Suc k) (of_nat (2 * n)) = push_bit (32 - k) (of_nat n :: u32)"
    using Suc_diff_Suc [OF that, symmetric] by (simp add: mult.commute)
  then show ?thesis by (simp add: crc32_entry_def)
qed

lemma funpow_crc32_shift_one: "k < 32 \<Longrightarrow> (crc32_shift ^^ Suc k) (push_bit (31 - k) 1) = 0x04c11db7"
proof -
  assume k: "k < 32"
  have "(crc32_shift ^^ k) (push_bit (31 - k) 1) = push_bit k (push_bit (31 - k) (1 :: u32))"
    using k by (intro funpow_crc32_shift_low) (auto simp: bit_exp_iff)
  also have "\<dots> = 0x80000000"
    using k by (simp add: push_bit_push_bit push_bit_eq_mult flip: power_add)
  finally show ?thesis by (simp add: crc32_shift_def)
qed

lemma crc32_entry_double_Suc:
  "k < 32 \<Longrightarrow> crc32_entry (Suc k) (2 * n + 1) = crc32_shift (crc32_entry k n) XOR 0x04c11db7"
proof -
  assume k: "k < 32"
  have even: "\<not> bit (of_nat (2 * n) :: u32) 0" by (simp add: bit_0)
  have "of_nat (2 * n + 1) = (of_nat (2 * n) :: u32) XOR 1"
    using even by (simp add: bit_0 xor_one_eq)
  then have "crc32_entry (Suc k) (2 * n + 1) =
    crc32_entry (Suc k) (2 * n) XOR (crc32_shift ^^ Suc k) (push_bit (31 - k) 1)"
    by (simp only: crc32_entry_def push_bit_xor funpow_crc32_shift_xor) simp
  then show ?thesis
    using k by (simp only: crc32_entry_double funpow_crc32_shift_one)
qed

lemma crc32_level_entries: "k \<le> 32 \<Longrightarrow> crc32_level k = map (crc32_entry k) [0..<2 ^ k]"
proof (induction k)
  case 0
  show ?case by (simp add: crc32_entry_def)
next
  case (Suc k)
  then have k: "k < 32" by simp
  have "crc32_level (Suc k) =
    concat (map (\<lambda>n. [crc32_entry (Suc k) (2 * n), crc32_entry (Suc k) (2 * n + 1)]) [0..<2 ^ k])"
    using Suc k by (simp add: crc32_entry_double crc32_entry_double_Suc [simplified] o_def)
  then show ?case by (simp only: concat_pairs_upt) (simp add: mult.commute)
qed

lemma crc32_table_nth: "n < 256 \<Longrightarrow> crc32_table ! n = crc32_entry 8 n"
  by (simp add: crc32_table_level crc32_level_entries)

section \<open>The table-driven step is eight bit steps\<close>

lemma crc32_index: "unat ((drop_bit 24 c XOR ucast b) AND 0xff :: u32) = unat (ucast (drop_bit 24 c) XOR b)"
  for b :: u8
proof -
  have mask: "0xff = (mask 8 :: u32)" by (simp add: mask_eq_exp_minus_1)
  have "(drop_bit 24 c XOR ucast b) AND 0xff = (ucast (ucast (drop_bit 24 c) XOR b) :: u32)"
    unfolding mask by (rule bit_word_eqI) (auto simp: bit_simps dest: bit_imp_le_length)
  then show ?thesis by simp
qed

lemma crc32_step_bitwise: "crc32_step c b = (crc32_shift ^^ 8) (c XOR push_bit 24 (ucast b))"
proof -
  let ?hi = "ucast (drop_bit 24 c) XOR b"
  have split: "c XOR push_bit 24 (ucast b) = push_bit 24 (ucast ?hi) XOR take_bit 24 c"
    by (rule bit_word_eqI) (auto simp: bit_simps)
  have "(crc32_shift ^^ 8) (take_bit 24 c) = push_bit 8 (take_bit 24 c)"
    by (rule funpow_crc32_shift_low) (auto simp: bit_simps)
  also have "\<dots> = push_bit 8 c"
    by (rule bit_word_eqI) (auto simp: bit_simps)
  finally have low: "(crc32_shift ^^ 8) (take_bit 24 c) = push_bit 8 c" .
  have "unat ?hi < 256" using unsigned_less [of ?hi] by simp
  then have "crc32_table ! unat ?hi = (crc32_shift ^^ 8) (push_bit 24 (ucast ?hi))"
    by (simp add: crc32_table_nth crc32_entry_def)
  then show ?thesis
    by (simp only: crc32_step_def crc32_index split funpow_crc32_shift_xor low) (simp add: ac_simps)
qed

lemma crc32_step_inject: "crc32_step c a XOR crc32_step d b = 0 \<longleftrightarrow> c XOR push_bit 24 (ucast a) = d XOR push_bit 24 (ucast b)"
proof -
  have "crc32_step c a XOR crc32_step d b =
    (crc32_shift ^^ 8) ((c XOR push_bit 24 (ucast a)) XOR (d XOR push_bit 24 (ucast b)))"
    by (simp only: crc32_step_bitwise funpow_crc32_shift_xor)
  then show ?thesis by (simp add: xor_eq_0_iff)
qed

lemma crc32_be_Nil [simp]: "crc32_be c [] = c"
  by (simp add: crc32_be_def)

lemma crc32_be_Cons [simp]: "crc32_be c (b # bs) = crc32_be (crc32_step c b) bs"
  by (simp add: crc32_be_def)

lemma crc32_be_append [simp]: "crc32_be c (xs @ ys) = crc32_be (crc32_be c xs) ys"
  by (simp add: crc32_be_def)

lemma crc32_be_inject_seed: "crc32_be c xs = crc32_be d xs \<longleftrightarrow> c = d"
proof (induction xs arbitrary: c d)
  case Nil
  show ?case by simp
next
  case (Cons x xs)
  have "crc32_step c x = crc32_step d x \<longleftrightarrow> c = d"
    using crc32_step_inject [of c x d x] by (simp add: xor_eq_0_iff)
  with Cons.IH show ?case by simp
qed

text \<open>
  The register is affine in the four bytes that enter it: whatever four bytes are shifted in,
  different bytes leave different registers.
\<close>

definition be32 :: "u8 \<Rightarrow> u8 \<Rightarrow> u8 \<Rightarrow> u8 \<Rightarrow> u32" where
  "be32 a b c d = push_bit 24 (ucast a) XOR push_bit 16 (ucast b) XOR push_bit 8 (ucast c) XOR ucast d"

lemma be32_bytes:
  "ucast (drop_bit 24 (be32 a b c d)) = a" "ucast (drop_bit 16 (be32 a b c d)) = b"
  "ucast (drop_bit 8 (be32 a b c d)) = c" "ucast (be32 a b c d) = d"
  unfolding be32_def
  by (rule bit_word_eqI; auto simp: bit_simps dest: bit_imp_le_length)+

lemma be32_inject: "be32 a b c d = be32 a' b' c' d' \<longleftrightarrow> a = a' \<and> b = b' \<and> c = c' \<and> d = d'"
  by (metis be32_bytes)

lemma crc32_be_four:
  "crc32_be c [x, y, z, w] = (crc32_shift ^^ 32) (c XOR be32 x y z w)"
proof -
  have sh: "(crc32_shift ^^ 8) (push_bit (n + 0) (ucast v)) = push_bit (n + 8) (ucast v)"
    if "n + 16 \<le> 32" for n and v :: u8
  proof -
    have "(crc32_shift ^^ 8) (push_bit n (ucast v)) = push_bit 8 (push_bit n (ucast v))"
      using that by (intro funpow_crc32_shift_low) (auto simp: bit_simps dest: bit_imp_le_length)
    then show ?thesis by (simp add: push_bit_push_bit add.commute)
  qed
  have "(crc32_shift ^^ 32) v = (crc32_shift ^^ 8) ((crc32_shift ^^ 8) ((crc32_shift ^^ 8) ((crc32_shift ^^ 8) v)))" for v
    by (simp add: funpow_add [symmetric, THEN fun_cong, simplified o_apply])
  then show ?thesis
    by (simp add: crc32_step_bitwise be32_def funpow_crc32_shift_xor sh [of 0, simplified]
      sh [of 8, simplified] sh [of 16, simplified] ac_simps)
qed

lemma crc32_be_four_inject:
  assumes "length xs = 4" and "length ys = 4" and "crc32_be c xs = crc32_be c ys"
  shows "xs = ys"
proof -
  obtain x y z w x' y' z' w' where xs: "xs = [x, y, z, w]" and ys: "ys = [x', y', z', w']"
    using assms(1,2) by (auto simp: length_Suc_conv eval_nat_numeral)
  have "(crc32_shift ^^ 32) ((c XOR be32 x y z w) XOR (c XOR be32 x' y' z' w')) =
    crc32_be c xs XOR crc32_be c ys"
    unfolding xs ys by (simp only: crc32_be_four funpow_crc32_shift_xor)
  also have "\<dots> = 0" using assms(3) by simp
  finally have "be32 x y z w = be32 x' y' z' w'" by (simp only: funpow_crc32_shift_eq_0_iff xor_eq_0_iff xor_cancel_left)
  then show ?thesis by (simp add: xs ys be32_inject)
qed

lemma crc32_be_short_inject:
  assumes "length xs = length ys" and "length ys \<le> 4" and "crc32_be c xs = crc32_be c ys"
  shows "xs = ys"
proof -
  let ?pad = "replicate (4 - length ys) 0"
  have "crc32_be c (xs @ ?pad) = crc32_be c (ys @ ?pad)" using assms(3) by simp
  then have "xs @ ?pad = ys @ ?pad"
    using assms(1,2) by (intro crc32_be_four_inject [of _ _ c]) simp_all
  then show ?thesis by simp
qed

lemma crc32_step_top_byte: "crc32_step c (ucast (drop_bit 24 c)) = push_bit 8 c"
proof -
  have "crc32_table ! 0 = 0" by (simp add: crc32_table_def)
  then show ?thesis by (simp only: crc32_step_def crc32_index) simp
qed

lemma crc32_be_own_bytes:
  "crc32_be c [ucast (drop_bit 24 c AND 0xff), ucast (drop_bit 16 c AND 0xff),
     ucast (drop_bit 8 c AND 0xff), ucast (c AND 0xff)] = 0"
proof -
  have mask: "0xff = (mask 8 :: u32)" by (simp add: mask_eq_exp_minus_1)
  have bytes: "ucast (drop_bit 24 c AND 0xff) = (ucast (drop_bit 24 c) :: u8)"
    "ucast (drop_bit 16 c AND 0xff) = (ucast (drop_bit 24 (push_bit 8 c)) :: u8)"
    "ucast (drop_bit 8 c AND 0xff) = (ucast (drop_bit 24 (push_bit 8 (push_bit 8 c))) :: u8)"
    "ucast (c AND 0xff) = (ucast (drop_bit 24 (push_bit 8 (push_bit 8 (push_bit 8 c)))) :: u8)"
    unfolding mask by (rule bit_word_eqI; auto simp: bit_simps)+
  have "push_bit 8 (push_bit 8 (push_bit 8 (push_bit 8 c))) = 0"
    by (rule bit_word_eqI) (auto simp: bit_simps)
  then show ?thesis by (simp only: bytes crc32_be_Cons crc32_step_top_byte crc32_be_Nil)
qed

section \<open>Properties\<close>

text \<open>
  C11. The table-driven routine computes the same checksum as dividing the message by the
  generator polynomial 0x04c11db7 one bit at a time, for every seed and every message.
\<close>

theorem crc32_be_is_polynomial_division: "crc32_be crc data = crc32_bitwise crc data"
  unfolding crc32_be_def crc32_bitwise_def by (simp only: crc32_step_bitwise [abs_def])

text \<open>
  C13. When \<^verbatim>\<open>dvb_set_crc32\<close> returns, the block together with the four bytes it appended has
  checksum zero, which is what the receiving side tests for, and the block itself is unchanged.
\<close>

theorem dvb_set_crc32_checks:
  assumes "dvb_set_crc32 data len = Ret data'"
  shows "crc32_be (NOT 0) (take (len + 4) data') = 0 \<and> take len data' = take len data"
proof -
  let ?crc = "crc32_be (NOT 0) (take len data)"
  let ?tail = "[ucast (drop_bit 24 ?crc AND 0xff), ucast (drop_bit 16 ?crc AND 0xff),
     ucast (drop_bit 8 ?crc AND 0xff), ucast (?crc AND 0xff)] :: bytes"
  from assms have len: "len + 4 \<le> length data" and data': "data' = blit data len ?tail"
    by (simp_all add: dvb_set_crc32_def Let_def split: if_splits)
  have tail: "length ?tail = 4" by simp
  have "take (len + 4) data' = take len data @ ?tail"
    using len take_blit_end [of len ?tail data] by (simp only: data' tail)
  then have "crc32_be (NOT 0) (take (len + 4) data') = crc32_be ?crc ?tail"
    by (simp only: crc32_be_append)
  moreover have "take len data' = take len data"
    using len by (simp add: data' take_blit)
  ultimately show ?thesis using crc32_be_own_bytes [of ?crc] by simp
qed

theorem dvb_set_crc32_checks_witness:
  "\<exists>data'. dvb_set_crc32 [1, 2, 0, 0, 0, 0] 2 = Ret data' \<and> crc32_be (NOT 0) (take 6 data') = 0
     \<and> take 2 data' = [1, 2]"
proof -
  obtain data' where ret: "dvb_set_crc32 [1, 2, 0, 0, 0, 0] 2 = Ret data'"
    by (simp add: dvb_set_crc32_def Let_def)
  from dvb_set_crc32_checks [OF ret] ret show ?thesis by (auto simp: numeral_2_eq_2)
qed

text \<open>
  C14. The check detects every corruption that is confined to four consecutive bytes: two
  messages that differ there, and only there, have different checksums.
\<close>

theorem crc32_detects_bursts:
  assumes "length old = length new" and "length new \<le> 4" and "old \<noteq> new"
  shows "crc32_be crc (pre @ old @ post) \<noteq> crc32_be crc (pre @ new @ post)"
  using assms crc32_be_short_inject [of old new "crc32_be crc pre"]
  by (auto simp: crc32_be_inject_seed)

theorem crc32_detects_bursts_witness:
  "crc32_be (NOT 0) ([2] @ [7, 8] @ [9]) \<noteq> crc32_be (NOT 0) ([2] @ [7, 9] @ [9])"
  by (rule crc32_detects_bursts) simp_all

end
