(* ===== verification/DVB_Section.thy ===== *)
theory DVB_Section
  imports DVB_Demux_Types DVB_Crc32
begin

text \<open>
  The software section filter of \<^verbatim>\<open>dvb-core/dvb_demux.c\<close>: header fields of packets and sections,
  the match of a section against a filter, the delivery of a complete section along the filter
  chain of its feed, and the reassembly of sections from the payloads of transport packets.

  A packet is the list of its 188 bytes. Every copy into the 4096 byte section buffer goes
  through \<^const>\<open>memcpy\<close>, which faults when it would leave the buffer or the packet; the walk along
  the filter chain is bounded by the number of filters, since a longer walk has met a cycle.
\<close>

section \<open>The code\<close>

definition section_length :: "bytes \<Rightarrow> nat" where
  "section_length buf = 3 + push_bit 8 (unat (buf ! 1 AND 0x0f)) + unat (buf ! 2)"

definition ts_pid :: "bytes \<Rightarrow> nat" where
  "ts_pid buf = push_bit 8 (unat (buf ! 1 AND 0x1f)) + unat (buf ! 2)"

definition payload :: "bytes \<Rightarrow> nat" where
  "payload tsp =
     (if tsp ! 3 AND 0x10 = 0 then 0
      else if tsp ! 3 AND 0x20 \<noteq> 0
      then (if unat (tsp ! 4) > 183 then 0 else 184 - 1 - unat (tsp ! 4))
      else 184)"

text \<open>
  The two hooks \<^verbatim>\<open>check_crc32\<close> and \<^verbatim>\<open>memcopy\<close> are those that \<^verbatim>\<open>dvb_dmx_init\<close> installs when a driver leaves
  them open.
\<close>

definition dvb_dmx_crc32 :: "'u dvb_demux_feed \<Rightarrow> bytes \<Rightarrow> u32 \<times> 'u dvb_demux_feed" where
  "dvb_dmx_crc32 f src = (let crc = crc32_be (crc_val f) src in (crc, f\<lparr>crc_val := crc\<rparr>))"

definition dvb_dmx_memcopy ::
  "'u dvb_demux_feed \<Rightarrow> nat \<Rightarrow> bytes \<Rightarrow> nat \<Rightarrow> nat \<Rightarrow> 'u dvb_demux_feed kres" where
  "dvb_dmx_memcopy f doff s soff len =
     kbind (memcpy (secbuf f) doff s soff len) (\<lambda>b. Ret (f\<lparr>secbuf := b\<rparr>))"

definition dvb_dmx_swfilter_payload ::
  "'u dvb_demux_feed \<Rightarrow> bytes \<Rightarrow> 'u \<Rightarrow> int \<times> 'u dvb_demux_feed \<times> 'u" where
  "dvb_dmx_swfilter_payload feed buf u =
     (let count = payload buf
      in if count = 0 then (- 1, feed, u)
         else
           let p = 188 - count;
               feed = (if buf ! 1 AND 0x40 \<noteq> 0 then feed\<lparr>peslen := 0xfffa\<rparr> else feed);
               feed = feed\<lparr>peslen := peslen feed + of_nat count\<rparr>;
               (r, u) = cb_ts feed (take count (drop p buf)) [] (feed_priv feed) u
           in (r, feed, u))"

fun sectionfilter_loop :: "bytes \<Rightarrow> dvb_demux_filter \<Rightarrow> nat list \<Rightarrow> u8 \<Rightarrow> u8 option" where
  "sectionfilter_loop sec f [] neq = Some neq"
| "sectionfilter_loop sec f (i # is) neq =
     (let x = filter_value f ! i XOR sec ! i
      in if maskandmode f ! i AND x \<noteq> 0 then None
         else sectionfilter_loop sec f is (neq OR (maskandnotmode f ! i AND x)))"

definition dvb_dmx_swfilter_sectionfilter ::
  "'u dvb_demux_feed \<Rightarrow> dvb_demux_filter \<Rightarrow> 'u \<Rightarrow> int \<times> 'u" where
  "dvb_dmx_swfilter_sectionfilter feed f u =
     (case sectionfilter_loop (secbuf feed) f [0..<DVB_DEMUX_MASK_MAX] 0 of
        None \<Rightarrow> (0, u)
      | Some neq \<Rightarrow>
          if doneq f \<and> neq = 0 then (0, u)
          else cb_sec feed (take (seclen feed) (secbuf feed)) [] (filter_priv f) u)"

fun sectionfilter_chain ::
  "dvb_demux_filter list \<Rightarrow> nat \<Rightarrow> nat \<Rightarrow> 'u dvb_demux_feed \<Rightarrow> 'u \<Rightarrow> (int \<times> 'u) kres" where
  "sectionfilter_chain fs 0 f feed u = Hang"
| "sectionfilter_chain fs (Suc n) f feed u =
     (if f \<ge> length fs then Oops
      else
        let (r, u) = dvb_dmx_swfilter_sectionfilter feed (fs ! f) u
        in if r < 0 then Ret (- 1, u)
           else
             case filter_next (fs ! f) of
               None \<Rightarrow> Ret (0, u)
             | Some f' \<Rightarrow>
                 if is_filtering feed then sectionfilter_chain fs n f' feed u else Ret (0, u))"

definition dvb_dmx_swfilter_section_feed ::
  "dvb_demux_filter list \<Rightarrow> 'u dvb_demux_feed \<Rightarrow> 'u \<Rightarrow> (int \<times> 'u dvb_demux_feed \<times> 'u) kres" where
  "dvb_dmx_swfilter_section_feed fs feed u =
     (if secbufp feed \<noteq> seclen feed then Ret (- 1, feed, u)
      else if \<not> is_filtering feed then Ret (0, feed, u)
      else
        case feed_filter feed of
          None \<Rightarrow> Ret (0, feed, u)
        | Some f \<Rightarrow>
            let section_syntax_indicator = (secbuf feed ! 1 AND 0x80 \<noteq> 0);
                (crc, feed) =
                  (if check_crc feed \<and> section_syntax_indicator
                   then dvb_dmx_crc32 feed (take (seclen feed) (secbuf feed)) else (0, feed))
            in if crc \<noteq> 0 then Ret (- 1, feed, u)
               else kbind (sectionfilter_chain fs (Suc (length fs)) f feed u) (\<lambda>(r, u).
                 if r < 0 then Ret (- 1, feed, u)
                 else
                   let feed = feed\<lparr>secbufp := 0, seclen := 0\<rparr>
                   in kbind (memset (secbuf feed) 0 0 DVB_DEMUX_MASK_MAX) (\<lambda>b.
                     Ret (0, feed\<lparr>secbuf := b\<rparr>, u))))"

text \<open>
  The branch of a packet that starts a section for the end of the one before, first from the
  computation of \<open>rest\<close> on.
\<close>

definition section_packet_finish ::
  "dvb_demux_filter list \<Rightarrow> 'u dvb_demux_feed \<Rightarrow> bytes \<Rightarrow> nat \<Rightarrow> 'u \<Rightarrow>
   (int \<times> 'u dvb_demux_feed \<times> 'u) kres" where
  "section_packet_finish fs feed buf p u =
     (let rest = int (seclen feed) - int (secbufp feed)
      in if rest = int (unat (buf ! p)) \<and> seclen feed \<noteq> 0
         then kbind (dvb_dmx_memcopy feed (secbufp feed) buf (p + 1) (unat (buf ! p))) (\<lambda>feed.
           kbind (dvb_dmx_swfilter_section_feed fs
               (feed\<lparr>secbufp := secbufp feed + unat (buf ! p)\<rparr>) u) (\<lambda>(_, feed, u).
             Ret (0, feed, u)))
         else Ret (0, feed, u))"

definition section_packet_rest ::
  "dvb_demux_filter list \<Rightarrow> 'u dvb_demux_feed \<Rightarrow> bytes \<Rightarrow> nat \<Rightarrow> 'u \<Rightarrow>
   (int \<times> 'u dvb_demux_feed \<times> 'u) kres" where
  "section_packet_rest fs feed buf p u =
     (let tmp = 3 - int (secbufp feed)
      in if tmp > 0 \<and> tmp \<noteq> 3
         then
           (if int p + tmp \<ge> 187 then Ret (- 1, feed, u)
            else kbind (dvb_dmx_memcopy feed (secbufp feed) buf (p + 1) (nat tmp)) (\<lambda>feed.
              let feed = feed\<lparr>seclen := section_length (secbuf feed)\<rparr>
              in if seclen feed > 4096 then Ret (- 1, feed, u)
                 else section_packet_finish fs feed buf p u))
         else section_packet_finish fs feed buf p u)"

lemma section_length_ge: "3 \<le> section_length buf"
  by (simp add: section_length_def)

text \<open>The loop over the sections that start in the packet, from offset \<open>p\<close> on.\<close>

function section_packet_loop ::
  "dvb_demux_filter list \<Rightarrow> 'u dvb_demux_feed \<Rightarrow> bytes \<Rightarrow> nat \<Rightarrow> 'u \<Rightarrow>
   (int \<times> 'u dvb_demux_feed \<times> 'u) kres" where
  "section_packet_loop fs feed buf p u =
     (let count = 188 - p
      in if \<not> count > 0 then Ret (0, feed, u)
         else
           let feed = feed\<lparr>crc_val := NOT 0\<rparr>;
               feed = (if count > 2 then feed\<lparr>seclen := section_length (drop p buf)\<rparr> else feed)
           in if count > 2 \<and> section_length (drop p buf) \<le> count
              then
                (if seclen feed > 4096 then Ret (- 1, feed, u)
                 else kbind (dvb_dmx_memcopy feed 0 buf p (seclen feed)) (\<lambda>feed.
                   kbind (dvb_dmx_swfilter_section_feed fs (feed\<lparr>secbufp := seclen feed\<rparr>) u) (\<lambda>(_, feed', u).
                     let p = p + section_length (drop p buf); count = 188 - p
                     in if count \<noteq> 0 \<and> buf ! p = 0xff then Ret (0, feed', u)
                        else section_packet_loop fs feed' buf p u)))
              else if count \<le> 2 then Ret (- 1, feed, u)
              else kbind (dvb_dmx_memcopy feed 0 buf p count) (\<lambda>feed.
                Ret (0, feed\<lparr>secbufp := secbufp feed + count\<rparr>, u)))"
  by pat_completeness auto
termination
proof (relation "measure (\<lambda>(fs, feed, buf, p, u). 188 - p)", goal_cases)
  case 1
  show ?case by simp
next
  case prems: (2 fs feed buf p u)
  then show ?case using section_length_ge [of "drop p buf"] by simp
qed

text \<open>The branch of a packet in which no section starts, first from the test of \<open>rest\<close> on.\<close>

definition section_packet_fill ::
  "dvb_demux_filter list \<Rightarrow> 'u dvb_demux_feed \<Rightarrow> bytes \<Rightarrow> nat \<Rightarrow> nat \<Rightarrow> 'u \<Rightarrow>
   (int \<times> 'u dvb_demux_feed \<times> 'u) kres" where
  "section_packet_fill fs feed buf p count u =
     (let rest = int (seclen feed) - int (secbufp feed)
      in if rest < 0 then Ret (- 1, feed, u)
         else if rest \<le> int count
         then kbind (dvb_dmx_memcopy feed (secbufp feed) buf p (nat rest)) (\<lambda>feed.
           kbind (dvb_dmx_swfilter_section_feed fs
               (feed\<lparr>secbufp := secbufp feed + nat rest\<rparr>) u) (\<lambda>(_, feed, u).
             Ret (0, feed, u)))
         else kbind (dvb_dmx_memcopy feed (secbufp feed) buf p count) (\<lambda>feed.
           Ret (0, feed\<lparr>secbufp := secbufp feed + count\<rparr>, u)))"

definition section_packet_continue ::
  "dvb_demux_filter list \<Rightarrow> 'u dvb_demux_feed \<Rightarrow> bytes \<Rightarrow> nat \<Rightarrow> nat \<Rightarrow> bool \<Rightarrow> 'u \<Rightarrow>
   (int \<times> 'u dvb_demux_feed \<times> 'u) kres" where
  "section_packet_continue fs feed buf p count ccok u =
     (if \<not> ccok then Ret (- 1, feed, u)
      else if secbufp feed = 0 then Ret (- 1, feed, u)
      else if secbufp feed < 3
      then
        let tmp = 3 - secbufp feed
        in if tmp > count then Ret (- 1, feed, u)
           else kbind (dvb_dmx_memcopy (feed\<lparr>crc_val := NOT 0\<rparr>) (secbufp feed) buf p tmp) (\<lambda>feed.
             let feed = feed\<lparr>seclen := section_length (secbuf feed)\<rparr>
             in if seclen feed > 4096 then Ret (- 1, feed, u)
                else section_packet_fill fs feed buf p count u)
      else section_packet_fill fs feed buf p count u)"

definition dvb_dmx_swfilter_section_packet ::
  "dvb_demux_filter list \<Rightarrow> 'u dvb_demux_feed \<Rightarrow> bytes \<Rightarrow> 'u \<Rightarrow>
   (int \<times> 'u dvb_demux_feed \<times> 'u) kres" where
  "dvb_dmx_swfilter_section_packet fs feed buf u =
     (let count = payload buf
      in if count = 0 then Ret (- 1, feed, u)
         else
           let p = 188 - count;
               cc = uint (buf ! 3 AND 0x0f);
               ccok = ((feed_cc feed + 1) AND 0x0f = cc);
               feed = feed\<lparr>feed_cc := cc\<rparr>
           in if buf ! 1 AND 0x40 \<noteq> 0
              then
                (if p + unat (buf ! p) > 187 then Ret (- 1, feed, u)
                 else kbind
                   (if buf ! p \<noteq> 0 \<and> ccok then section_packet_rest fs feed buf p u
                    else Ret (0, feed, u))
                   (\<lambda>(r, feed, u).
                     if r < 0 then Ret (- 1, feed, u)
                     else section_packet_loop fs feed buf (p + (unat (buf ! p) + 1)) u))
              else section_packet_continue fs feed buf p count ccok u)"

text \<open>
  One feed and one packet. The feed is passed by its index, which the decoder hook receives, and
  by its contents.
\<close>

definition dvb_dmx_swfilter_packet_type ::
  "'u dvb_demux \<Rightarrow> nat \<Rightarrow> 'u dvb_demux_feed \<Rightarrow> bytes \<Rightarrow> 'u \<Rightarrow> ('u dvb_demux_feed \<times> 'u) kres" where
  "dvb_dmx_swfilter_packet_type demux i feed buf u =
     (case feed_type feed of
        DMX_TYPE_TS \<Rightarrow>
          if \<not> is_filtering feed then Ret (feed, u)
          else
            let (feed, u) =
                  (if ts_type feed AND TS_PACKET \<noteq> 0
                   then
                     (if ts_type feed AND TS_PAYLOAD_ONLY \<noteq> 0
                      then let (_, feed, u) = dvb_dmx_swfilter_payload feed buf u in (feed, u)
                      else let (_, u) = cb_ts feed (take 188 buf) [] (feed_priv feed) u in (feed, u))
                   else (feed, u));
                u = (if ts_type feed AND TS_DECODER \<noteq> 0
                     then
                       (case write_to_decoder demux of
                          None \<Rightarrow> u
                        | Some f \<Rightarrow> snd (f i feed (take 188 buf) u))
                     else u)
            in Ret (feed, u)
      | DMX_TYPE_SEC \<Rightarrow>
          if \<not> is_filtering feed then Ret (feed, u)
          else kbind (dvb_dmx_swfilter_section_packet (filters demux) feed buf u) (\<lambda>(r, feed, u).
            if r < 0 then Ret (feed\<lparr>secbufp := 0, seclen := 0\<rparr>, u) else Ret (feed, u))
      | DMX_TYPE_PES \<Rightarrow> Ret (feed, u))"

declare section_packet_loop.simps [simp del]

section \<open>Bounds of the header fields\<close>

lemma section_length_le: "section_length buf \<le> 4098"
proof -
  have "unat (buf ! 1 AND 0x0f) \<le> 15" using u8_and_le [of "buf ! 1" "0x0f"] by simp
  moreover have "unat (buf ! 2) \<le> 255" by (rule u8_le_255)
  ultimately show ?thesis unfolding section_length_def push_bit_eq_mult by simp
qed

lemma payload_le: "payload buf \<le> 184"
  by (auto simp: payload_def)

section \<open>Chains of filters\<close>

primrec filter_path :: "dvb_demux_filter list \<Rightarrow> nat option \<Rightarrow> nat list \<Rightarrow> bool" where
  "filter_path fs p [] \<longleftrightarrow> p = None"
| "filter_path fs p (i # is) \<longleftrightarrow> p = Some i \<and> i < length fs \<and> filter_path fs (filter_next (fs ! i)) is"

lemma filter_path_unique: "filter_path fs p is \<Longrightarrow> filter_path fs p js \<Longrightarrow> is = js"
proof (induction "is" arbitrary: p js)
  case Nil
  then show ?case by (cases js) auto
next
  case (Cons i "is")
  then show ?case by (cases js) auto
qed

lemma filter_path_append:
  "filter_path fs p (is @ js) \<Longrightarrow> \<exists>q. filter_path fs q js"
  by (induction "is" arbitrary: p) auto

lemma filter_path_set: "filter_path fs p is \<Longrightarrow> set is \<subseteq> {..<length fs}"
  by (induction "is" arbitrary: p) auto

lemma filter_path_head_not_in_tail: "filter_path fs (filter_next (fs ! i)) is \<Longrightarrow> i \<notin> set is"
proof
  assume path: "filter_path fs (filter_next (fs ! i)) is" and "i \<in> set is"
  then obtain as bs where "is": "is = as @ i # bs" by (auto simp: in_set_conv_decomp)
  from path have "filter_path fs (filter_next (fs ! i)) bs"
    unfolding "is" by (auto dest: filter_path_append)
  from filter_path_unique [OF path this] show False by (simp add: "is")
qed

lemma filter_path_distinct: "filter_path fs p is \<Longrightarrow> distinct is"
  by (induction "is" arbitrary: p) (auto dest: filter_path_head_not_in_tail)

lemma filter_path_length: "filter_path fs p is \<Longrightarrow> length is \<le> length fs"
proof -
  assume path: "filter_path fs p is"
  have "length is = card (set is)" using filter_path_distinct [OF path] by (simp add: distinct_card)
  also have "\<dots> \<le> card {..<length fs}" using filter_path_set [OF path] by (intro card_mono) simp_all
  finally show ?thesis by simp
qed

lemma filter_path_update_other:
  "j \<notin> set is \<Longrightarrow> filter_path (fs[j := f]) p is = filter_path fs p is"
  by (induction "is" arbitrary: p) auto

section \<open>Delivery along a chain\<close>

text \<open>
  \<open>deliver\<close> offers the section to the filters of a list in turn and stops at the first callback
  that reports an error.
\<close>

primrec deliver ::
  "dvb_demux_filter list \<Rightarrow> 'u dvb_demux_feed \<Rightarrow> nat list \<Rightarrow> 'u \<Rightarrow> int \<times> 'u" where
  "deliver fs feed [] u = (0, u)"
| "deliver fs feed (i # is) u =
     (let (r, u') = dvb_dmx_swfilter_sectionfilter feed (fs ! i) u
      in if r < 0 then (- 1, u') else deliver fs feed is u')"

lemma sectionfilter_chain_deliver:
  "filter_path fs (Some f) is \<Longrightarrow> is_filtering feed \<Longrightarrow> length is \<le> n \<Longrightarrow>
   sectionfilter_chain fs n f feed u = Ret (deliver fs feed is u)"
proof (induction n arbitrary: f "is" u)
  case 0
  then show ?case by simp
next
  case (Suc n)
  then obtain js where "is": "is = f # js" and f: "f < length fs"
    and js: "filter_path fs (filter_next (fs ! f)) js"
    by (cases "is") auto
  show ?case
  proof (cases "filter_next (fs ! f)")
    case None
    with js have "js = []" by (cases js) auto
    with None f "is" show ?thesis by (simp add: case_prod_unfold Let_def)
  next
    case (Some g)
    with Suc js "is" have "sectionfilter_chain fs n g feed v = Ret (deliver fs feed js v)" for v
      by (intro Suc.IH) auto
    with Some f "is" Suc.prems(2) show ?thesis by (simp add: case_prod_unfold Let_def)
  qed
qed

declare sectionfilter_chain.simps [simp del]

definition chain_ok :: "dvb_demux_filter list \<Rightarrow> 'u dvb_demux_feed \<Rightarrow> bool" where
  "chain_ok fs feed \<longleftrightarrow> (\<exists>is. filter_path fs (feed_filter feed) is)"

text \<open>What the packet path never changes of a feed.\<close>

definition feed_config :: "'u dvb_demux_feed \<Rightarrow> 'u dvb_demux_feed" where
  "feed_config f =
     f\<lparr>crc_val := 0, secbuf := [], secbufp := 0, seclen := 0, feed_cc := 0, peslen := 0\<rparr>"

lemma feed_config_update [simp]:
  "feed_config (f\<lparr>crc_val := a\<rparr>) = feed_config f"
  "feed_config (f\<lparr>secbuf := b\<rparr>) = feed_config f"
  "feed_config (f\<lparr>secbufp := n\<rparr>) = feed_config f"
  "feed_config (f\<lparr>seclen := n\<rparr>) = feed_config f"
  "feed_config (f\<lparr>feed_cc := c\<rparr>) = feed_config f"
  "feed_config (f\<lparr>peslen := l\<rparr>) = feed_config f"
  by (simp_all add: feed_config_def)

lemma feed_config_eqD:
  assumes "feed_config a = feed_config b"
  shows "is_filtering a = is_filtering b" "feed_filter a = feed_filter b" "check_crc a = check_crc b"
    "cb_sec a = cb_sec b" "cb_ts a = cb_ts b" "feed_pid a = feed_pid b" "feed_type a = feed_type b"
    "feed_state a = feed_state b" "ts_type a = ts_type b" "feed_priv a = feed_priv b"
  using assms by (cases a; cases b; simp add: feed_config_def)+

lemma section_feed_Ret:
  assumes "chain_ok fs feed" and "18 \<le> length (secbuf feed)"
  shows "\<exists>r feed' u'. dvb_dmx_swfilter_section_feed fs feed u = Ret (r, feed', u') \<and>
    length (secbuf feed') = length (secbuf feed) \<and> seclen feed' \<le> seclen feed \<and>
    feed_config feed' = feed_config feed"
proof -
  show ?thesis
  proof (cases "feed_filter feed")
    case None
    then show ?thesis by (simp add: dvb_dmx_swfilter_section_feed_def)
  next
    case (Some f)
    with assms obtain "is" where path: "filter_path fs (Some f) is" by (auto simp: chain_ok_def)
    have chain: "sectionfilter_chain fs (Suc (length fs)) f g u = Ret (deliver fs g is u)"
      if "is_filtering g" for g :: "'a dvb_demux_feed" and u
      using that path filter_path_length [OF path] by (intro sectionfilter_chain_deliver) simp_all
    show ?thesis
      using Some assms
      by (auto simp: dvb_dmx_swfilter_section_feed_def dvb_dmx_crc32_def chain memset_def Let_def
        case_prod_unfold)
  qed
qed

end
