(* ===== verification/DVB_Section_Safety.thy ===== *)
theory DVB_Section_Safety
  imports DVB_Section
begin

text \<open>
  The section reassembly of \<^verbatim>\<open>dvb_demux.c\<close> and its 4096 byte buffer: the routine for one packet
  returns and stays inside its buffers as long as the announced section length does, and a
  section header that announces more, which one branch does not reject, overruns the buffer.
\<close>

section \<open>Memory safety of the reassembly\<close>

lemma chain_ok_config: "feed_config a = feed_config b \<Longrightarrow> chain_ok fs a = chain_ok fs b"
  using feed_config_eqD(2) [of a b] by (simp add: chain_ok_def)

lemma memcopy_Ret:
  "doff + len \<le> length (secbuf f) \<Longrightarrow> soff + len \<le> length s \<Longrightarrow>
   dvb_dmx_memcopy f doff s soff len = Ret (f\<lparr>secbuf := blit (secbuf f) doff (take len (drop soff s))\<rparr>)"
  by (simp add: dvb_dmx_memcopy_def memcpy_def)

text \<open>
  \<open>section_step_ok fs feed buf res\<close>: the packet routine returned, kept the buffer and the
  configuration of the feed, and left an announced length above 4096 only if a section header
  in the packet announces it.
\<close>

definition oversize_header :: "bytes \<Rightarrow> nat \<Rightarrow> bool" where
  "oversize_header buf n \<longleftrightarrow> (\<exists>q. q + 2 < 188 \<and> n = section_length (drop q buf) \<and> 4096 < n)"

definition section_step_ok ::
  "'u dvb_demux_feed \<Rightarrow> bytes \<Rightarrow> (int \<times> 'u dvb_demux_feed \<times> 'u) kres \<Rightarrow> bool" where
  "section_step_ok feed buf res \<longleftrightarrow>
     (\<exists>r feed' u'. res = Ret (r, feed', u') \<and> length (secbuf feed') = length (secbuf feed) \<and>
        feed_config feed' = feed_config feed \<and>
        (seclen feed' \<le> 4096 \<or> r < 0 \<or> oversize_header buf (seclen feed')))"

definition secbuf_inv :: "dvb_demux_filter list \<Rightarrow> 'u dvb_demux_feed \<Rightarrow> bool" where
  "secbuf_inv fs feed \<longleftrightarrow> length (secbuf feed) = 4096 \<and> seclen feed \<le> 4096 \<and> chain_ok fs feed"

lemma secbuf_inv_config:
  "feed_config a = feed_config b \<Longrightarrow> secbuf_inv fs b \<Longrightarrow> length (secbuf a) = length (secbuf b) \<Longrightarrow>
   seclen a \<le> 4096 \<Longrightarrow> secbuf_inv fs a"
  using chain_ok_config [of a b fs] by (simp add: secbuf_inv_def)

lemma section_step_ok_trans:
  assumes "section_step_ok g buf res" and "feed_config g = feed_config f"
    and "length (secbuf g) = length (secbuf f)"
  shows "section_step_ok f buf res"
  using assms unfolding section_step_ok_def by metis

lemma section_loop_ok:
  "secbuf_inv fs feed \<Longrightarrow> length buf = 188 \<Longrightarrow> section_step_ok feed buf (section_packet_loop fs feed buf p u)"
proof (induction "188 - p" arbitrary: feed p u rule: less_induct)
  case less
  let ?L = "section_length (drop p buf)"
  let ?feed = "feed\<lparr>crc_val := NOT 0, seclen := ?L\<rparr>"
  note inv = less.prems(1) and len = less.prems(2)
  consider "188 \<le> p" | "p < 188" "188 - p \<le> 2" | "2 < 188 - p" "188 - p < ?L" | "2 < 188 - p" "?L \<le> 188 - p"
    by linarith
  then show ?case
  proof cases
    case 1
    then show ?thesis using inv
      by (simp add: section_packet_loop.simps section_step_ok_def secbuf_inv_def)
  next
    case 2
    then show ?thesis using inv
      by (auto simp: section_packet_loop.simps [of fs feed buf p u] section_step_ok_def secbuf_inv_def)
  next
    case 3
    have mc: "dvb_dmx_memcopy ?feed 0 buf p (188 - p) =
      Ret (?feed\<lparr>secbuf := blit (secbuf feed) 0 (take (188 - p) (drop p buf))\<rparr>)"
      using 3 inv len by (subst memcopy_Ret) (simp_all add: secbuf_inv_def)
    have "?L \<le> 4096 \<or> oversize_header buf ?L"
      using 3 unfolding oversize_header_def by (cases "?L \<le> 4096") (auto intro!: exI [of _ p])
    moreover have "section_packet_loop fs feed buf p u = Ret (0, ?feed\<lparr>
        secbuf := blit (secbuf feed) 0 (take (188 - p) (drop p buf)), secbufp := secbufp feed + (188 - p)\<rparr>, u)"
    proof -
      have "p < 188" using 3 by linarith
      then show ?thesis using 3 mc by (subst section_packet_loop.simps) (simp add: Let_def)
    qed
    ultimately show ?thesis
      using 3 inv len by (simp add: section_step_ok_def secbuf_inv_def)
  next
    case 4
    have L: "?L \<le> 4096" using 4 by linarith
    let ?f1 = "?feed\<lparr>secbuf := blit (secbuf feed) 0 (take ?L (drop p buf)), secbufp := ?L\<rparr>"
    have mc: "dvb_dmx_memcopy ?feed 0 buf p ?L =
      Ret (?feed\<lparr>secbuf := blit (secbuf feed) 0 (take ?L (drop p buf))\<rparr>)"
      using 4 inv len L by (subst memcopy_Ret) (simp_all add: secbuf_inv_def)
    have inv1: "secbuf_inv fs ?f1"
      using inv len L 4 by (auto simp: secbuf_inv_def chain_ok_def)
    then obtain r feed' u' where sf: "dvb_dmx_swfilter_section_feed fs ?f1 u = Ret (r, feed', u')"
      and f': "length (secbuf feed') = length (secbuf ?f1)" "seclen feed' \<le> seclen ?f1"
        "feed_config feed' = feed_config ?f1"
      using section_feed_Ret [of fs ?f1 u] by (auto simp: secbuf_inv_def)
    have inv': "secbuf_inv fs feed'"
      using f' inv1 L by (intro secbuf_inv_config [of feed' ?f1]) auto
    have same: "feed_config feed' = feed_config feed" "length (secbuf feed') = length (secbuf feed)"
      using f' inv len 4 by (auto simp: secbuf_inv_def)
    have step: "section_packet_loop fs feed buf p u =
      (if 188 - (p + ?L) \<noteq> 0 \<and> buf ! (p + ?L) = 0xff then Ret (0, feed', u')
       else section_packet_loop fs feed' buf (p + ?L) u')"
    proof -
      have "p < 188" using 4 by linarith
      then show ?thesis using 4 L mc sf by (subst section_packet_loop.simps) (simp add: Let_def)
    qed
    show ?thesis
    proof (cases "188 - (p + ?L) \<noteq> 0 \<and> buf ! (p + ?L) = 0xff")
      case True
      then show ?thesis using step inv' same by (simp add: section_step_ok_def secbuf_inv_def)
    next
      case False
      have "section_step_ok feed' buf (section_packet_loop fs feed' buf (p + ?L) u')"
        using 4 section_length_ge [of "drop p buf"] inv' len by (intro less.hyps) auto
      with False step same show ?thesis
        by (simp only: if_False) (rule section_step_ok_trans)
    qed
  qed
qed


lemma section_feed_ok:
  assumes "secbuf_inv fs feed" and "feed_config feed = feed_config f0" and "length (secbuf f0) = 4096"
  shows "section_step_ok f0 buf (kbind (dvb_dmx_swfilter_section_feed fs feed u) (\<lambda>(_, feed, u). Ret (0, feed, u)))"
proof -
  from assms(1) have inv: "chain_ok fs feed" "18 \<le> length (secbuf feed)"
    by (simp_all add: secbuf_inv_def)
  then obtain r feed' u' where "dvb_dmx_swfilter_section_feed fs feed u = Ret (r, feed', u')"
    and "length (secbuf feed') = length (secbuf feed)" "seclen feed' \<le> seclen feed"
      "feed_config feed' = feed_config feed"
    using section_feed_Ret [OF inv, of u] by blast
  with assms show ?thesis by (simp add: section_step_ok_def secbuf_inv_def)
qed

lemma section_fill_ok:
  assumes inv: "secbuf_inv fs g" and buf: "p + count = 188" "length buf = 188"
  shows "section_step_ok g buf (section_packet_fill fs g buf p count u)"
proof -
  have len: "length (secbuf g) = 4096" "seclen g \<le> 4096" using inv by (simp_all add: secbuf_inv_def)
  consider "seclen g < secbufp g" | "secbufp g \<le> seclen g" "seclen g - secbufp g \<le> count"
    | "secbufp g \<le> seclen g" "count < seclen g - secbufp g" by linarith
  then show ?thesis
  proof cases
    case 1
    then show ?thesis by (simp add: section_step_ok_def section_packet_fill_def Let_def)
  next
    case 2
    let ?n = "seclen g - secbufp g"
    let ?g = "g\<lparr>secbuf := blit (secbuf g) (secbufp g) (take ?n (drop p buf)), secbufp := secbufp g + ?n\<rparr>"
    have mc: "dvb_dmx_memcopy g (secbufp g) buf p ?n =
      Ret (g\<lparr>secbuf := blit (secbuf g) (secbufp g) (take ?n (drop p buf))\<rparr>)"
      using 2 len buf by (intro memcopy_Ret) auto
    have "secbuf_inv fs ?g"
      using inv 2 len buf by (auto simp: secbuf_inv_def chain_ok_def)
    then have "section_step_ok g buf
      (kbind (dvb_dmx_swfilter_section_feed fs ?g u) (\<lambda>(_, feed, u). Ret (0, feed, u)))"
      using len by (intro section_feed_ok) auto
    moreover have "nat (int (seclen g) - int (secbufp g)) = ?n"
      "\<not> int (seclen g) - int (secbufp g) < 0" "int (seclen g) - int (secbufp g) \<le> int count"
      using 2 by auto
    ultimately show ?thesis using 2 mc by (simp add: section_packet_fill_def Let_def)
  next
    case 3
    have mc: "dvb_dmx_memcopy g (secbufp g) buf p count =
      Ret (g\<lparr>secbuf := blit (secbuf g) (secbufp g) (take count (drop p buf))\<rparr>)"
      using 3 len buf by (intro memcopy_Ret) auto
    have "\<not> int (seclen g) - int (secbufp g) < 0" "\<not> int (seclen g) - int (secbufp g) \<le> int count"
      using 3 by auto
    with mc show ?thesis
      using 3 len buf by (simp add: section_step_ok_def section_packet_fill_def Let_def)
  qed
qed

lemma section_continue_ok:
  assumes inv: "secbuf_inv fs feed" and buf: "p + count = 188" "length buf = 188"
  shows "section_step_ok feed buf (section_packet_continue fs feed buf p count ccok u)"
proof (cases "ccok \<and> secbufp feed \<noteq> 0 \<and> secbufp feed < 3 \<and> 3 - secbufp feed \<le> count")
  case True
  have len: "length (secbuf feed) = 4096" "seclen feed \<le> 4096" using inv by (simp_all add: secbuf_inv_def)
  let ?n = "3 - secbufp feed"
  let ?b = "blit (secbuf feed) (secbufp feed) (take ?n (drop p buf))"
  let ?h = "feed\<lparr>crc_val := NOT 0, secbuf := ?b, seclen := section_length ?b\<rparr>"
  have "p + ?n \<le> length buf" using True buf by linarith
  then have mc: "dvb_dmx_memcopy (feed\<lparr>crc_val := NOT 0\<rparr>) (secbufp feed) buf p ?n =
      Ret (feed\<lparr>crc_val := NOT 0, secbuf := ?b\<rparr>)"
    using True len by (subst memcopy_Ret) simp_all
  have h: "length (secbuf ?h) = 4096" "feed_config ?h = feed_config feed" "chain_ok fs ?h"
    using inv True buf by (auto simp: secbuf_inv_def chain_ok_def)
  have eq: "section_packet_continue fs feed buf p count ccok u =
      (if section_length ?b > 4096 then Ret (- 1, ?h, u) else section_packet_fill fs ?h buf p count u)"
    using True mc by (simp add: section_packet_continue_def Let_def)
  show ?thesis
  proof (cases "section_length ?b > 4096")
    case over: True
    with h len show ?thesis by (simp add: eq section_step_ok_def)
  next
    case False
    then have "secbuf_inv fs ?h" using h by (simp add: secbuf_inv_def)
    then have "section_step_ok ?h buf (section_packet_fill fs ?h buf p count u)"
      using buf by (rule section_fill_ok)
    then have "section_step_ok feed buf (section_packet_fill fs ?h buf p count u)"
      using h(2) by (rule section_step_ok_trans) (simp only: h(1) len)
    with False show ?thesis by (simp add: eq)
  qed
next
  case False
  then have "section_packet_continue fs feed buf p count ccok u \<in>
      {Ret (- 1, feed, u), section_packet_fill fs feed buf p count u}"
    unfolding section_packet_continue_def Let_def
    by (cases ccok; cases "secbufp feed = 0"; cases "secbufp feed < 3") simp_all
  then show ?thesis using section_fill_ok [OF inv buf] by (auto simp: section_step_ok_def)
qed

text \<open>The branch for the end of the section before keeps the invariant unless it fails.\<close>

definition section_rest_kept ::
  "dvb_demux_filter list \<Rightarrow> 'u dvb_demux_feed \<Rightarrow> (int \<times> 'u dvb_demux_feed \<times> 'u) kres \<Rightarrow> bool" where
  "section_rest_kept fs feed res \<longleftrightarrow> (\<exists>r feed' u'. res = Ret (r, feed', u') \<and>
    length (secbuf feed') = length (secbuf feed) \<and> feed_config feed' = feed_config feed \<and>
    (0 \<le> r \<longrightarrow> secbuf_inv fs feed'))"

lemma section_finish_ok:
  assumes inv: "secbuf_inv fs g" and buf: "p + unat (buf ! p) < 188" "length buf = 188"
  shows "section_rest_kept fs g (section_packet_finish fs g buf p u)"
proof -
  have len: "length (secbuf g) = 4096" "seclen g \<le> 4096" using inv by (simp_all add: secbuf_inv_def)
  show ?thesis
  proof (cases "int (seclen g) - int (secbufp g) = int (unat (buf ! p)) \<and> seclen g \<noteq> 0")
    case True
    let ?n = "unat (buf ! p)"
    let ?g = "g\<lparr>secbuf := blit (secbuf g) (secbufp g) (take ?n (drop (p + 1) buf)), secbufp := secbufp g + ?n\<rparr>"
    have fit: "secbufp g + ?n = seclen g" using True by linarith
    have mc: "dvb_dmx_memcopy g (secbufp g) buf (p + 1) ?n =
      Ret (g\<lparr>secbuf := blit (secbuf g) (secbufp g) (take ?n (drop (p + 1) buf))\<rparr>)"
      using fit len buf by (intro memcopy_Ret) auto
    have inv': "secbuf_inv fs ?g"
      using inv fit len buf by (auto simp: secbuf_inv_def chain_ok_def)
    then obtain r feed' u' where sf: "dvb_dmx_swfilter_section_feed fs ?g u = Ret (r, feed', u')"
      and f': "length (secbuf feed') = length (secbuf ?g)" "seclen feed' \<le> seclen ?g"
        "feed_config feed' = feed_config ?g"
      using section_feed_Ret [of fs ?g u] by (auto simp: secbuf_inv_def)
    have "secbuf_inv fs feed'" using inv' f' len by (intro secbuf_inv_config [OF f'(3)]) auto
    moreover have "section_packet_finish fs g buf p u = Ret (0, feed', u')"
      using True mc sf by (simp add: section_packet_finish_def Let_def)
    ultimately show ?thesis using f' len inv' by (simp add: secbuf_inv_def section_rest_kept_def)
  next
    case False
    then have "section_packet_finish fs g buf p u = Ret (0, g, u)"
      by (simp only: section_packet_finish_def Let_def if_False)
    then show ?thesis using inv by (simp add: section_rest_kept_def)
  qed
qed

lemma section_rest_ok:
  assumes inv: "secbuf_inv fs feed" and buf: "p + unat (buf ! p) < 188" "length buf = 188"
  shows "section_rest_kept fs feed (section_packet_rest fs feed buf p u)"
proof (cases "0 < secbufp feed \<and> secbufp feed < 3 \<and> p + (3 - secbufp feed) < 187")
  case True
  have len: "length (secbuf feed) = 4096" "seclen feed \<le> 4096" using inv by (simp_all add: secbuf_inv_def)
  let ?n = "3 - secbufp feed"
  let ?b = "blit (secbuf feed) (secbufp feed) (take ?n (drop (p + 1) buf))"
  let ?h = "feed\<lparr>secbuf := ?b, seclen := section_length ?b\<rparr>"
  have mc: "dvb_dmx_memcopy feed (secbufp feed) buf (p + 1) ?n = Ret (feed\<lparr>secbuf := ?b\<rparr>)"
    using True len buf by (intro memcopy_Ret) auto
  have h: "length (secbuf ?h) = 4096" "feed_config ?h = feed_config feed" "chain_ok fs ?h"
    using inv True buf by (auto simp: secbuf_inv_def chain_ok_def)
  have cond: "0 < 3 - int (secbufp feed) \<and> 3 - int (secbufp feed) \<noteq> 3"
    "\<not> 187 \<le> int p + (3 - int (secbufp feed))" "nat (3 - int (secbufp feed)) = ?n"
    using True by auto
  have eq: "section_packet_rest fs feed buf p u =
      (if section_length ?b > 4096 then Ret (- 1, ?h, u) else section_packet_finish fs ?h buf p u)"
    using cond mc unfolding section_packet_rest_def Let_def by (simp only: if_True if_False kbind.simps) simp
  show ?thesis
  proof (cases "section_length ?b > 4096")
    case over: True
    with h len show ?thesis by (simp add: eq section_rest_kept_def)
  next
    case False
    then have "secbuf_inv fs ?h" using h by (simp add: secbuf_inv_def)
    from section_finish_ok [OF this buf] have "section_rest_kept fs ?h (section_packet_finish fs ?h buf p u)" .
    with h len False show ?thesis by (simp add: eq section_rest_kept_def)
  qed
next
  case False
  then have "section_packet_rest fs feed buf p u \<in>
      {Ret (- 1, feed, u), section_packet_finish fs feed buf p u}"
    unfolding section_packet_rest_def Let_def
    by (cases "secbufp feed = 0"; cases "secbufp feed < 3") auto
  then show ?thesis using section_finish_ok [OF inv buf] by (auto simp: section_rest_kept_def)
qed

text \<open>
  The routine for one packet neither faults nor loops, and keeps the buffer and the configuration
  of the feed; on success the announced length stays within the buffer, unless the packet itself
  holds the header of a longer section.
\<close>

lemma section_packet_ok:
  assumes inv: "secbuf_inv fs feed" and len: "length buf = 188"
  shows "section_step_ok feed buf (dvb_dmx_swfilter_section_packet fs feed buf u)"
proof -
  let ?count = "payload buf"
  let ?p = "188 - ?count"
  let ?cc = "uint (buf ! 3 AND 0x0f)"
  let ?ccok = "(feed_cc feed + 1) AND 0x0f = ?cc"
  let ?feed = "feed\<lparr>feed_cc := ?cc\<rparr>"
  have inv': "secbuf_inv fs ?feed" using inv by (simp add: secbuf_inv_def chain_ok_def)
  have error: "section_step_ok feed buf (Ret (- 1, ?feed, u))" "section_step_ok feed buf (Ret (- 1, feed, u))"
    by (simp_all add: section_step_ok_def)
  have trans: "section_step_ok feed buf res" if "section_step_ok ?feed buf res" for res :: "(int \<times> 'a dvb_demux_feed \<times> 'a) kres"
    using section_step_ok_trans [OF that] by simp
  consider "?count = 0" | "?count \<noteq> 0" "buf ! 1 AND 0x40 = 0"
    | "?count \<noteq> 0" "buf ! 1 AND 0x40 \<noteq> 0" "187 < ?p + unat (buf ! ?p)"
    | "?count \<noteq> 0" "buf ! 1 AND 0x40 \<noteq> 0" "?p + unat (buf ! ?p) \<le> 187"
    by linarith
  then show ?thesis
  proof cases
    case 1
    then show ?thesis using error by (simp add: dvb_dmx_swfilter_section_packet_def)
  next
    case 2
    have "section_step_ok ?feed buf (section_packet_continue fs ?feed buf ?p ?count ?ccok u)"
      using inv' len payload_le [of buf] by (intro section_continue_ok) auto
    then show ?thesis using 2 trans by (simp add: dvb_dmx_swfilter_section_packet_def Let_def)
  next
    case 3
    then show ?thesis using error by (simp add: dvb_dmx_swfilter_section_packet_def Let_def)
  next
    case 4
    let ?next = "\<lambda>(r, f, v). if r < (0 :: int) then Ret (- 1, f, v)
      else section_packet_loop fs f buf (?p + (unat (buf ! ?p) + 1)) v"
    have eq: "dvb_dmx_swfilter_section_packet fs feed buf u =
      kbind (if buf ! ?p \<noteq> 0 \<and> ?ccok then section_packet_rest fs ?feed buf ?p u else Ret (0, ?feed, u)) ?next"
      using 4 by (simp add: dvb_dmx_swfilter_section_packet_def Let_def)
    have "?p + unat (buf ! ?p) < 188" using 4 by linarith
    note rest = section_rest_ok [OF inv' this len, of u, unfolded section_rest_kept_def]
    obtain r f v where first: "(if buf ! ?p \<noteq> 0 \<and> ?ccok then section_packet_rest fs ?feed buf ?p u
        else Ret (0, ?feed, u)) = Ret (r, f, v)"
      and f: "length (secbuf f) = length (secbuf feed)" "feed_config f = feed_config feed"
        "0 \<le> r \<longrightarrow> secbuf_inv fs f"
    proof (cases "buf ! ?p \<noteq> 0 \<and> ?ccok")
      case True
      then show ?thesis using rest that by auto
    next
      case False
      then have "(if buf ! ?p \<noteq> 0 \<and> ?ccok then section_packet_rest fs ?feed buf ?p u
        else Ret (0, ?feed, u)) = Ret (0, ?feed, u)" by (rule if_not_P)
      then show ?thesis using inv' that by auto
    qed
    show ?thesis
    proof (cases "r < 0")
      case True
      then show ?thesis using f by (simp add: eq first section_step_ok_def)
    next
      case False
      with f have "section_step_ok f buf (section_packet_loop fs f buf (?p + (unat (buf ! ?p) + 1)) v)"
        using len by (intro section_loop_ok) auto
      then show ?thesis using False section_step_ok_trans [OF _ f(2,1)] by (simp add: eq first)
    qed
  qed
qed

end
