(* ===== verification/DVB_Reassembly.thy ===== *)
theory DVB_Reassembly
  imports DVB_Section_Safety
begin

text \<open>
  What the section path of \<^verbatim>\<open>dvb_demux.c\<close> delivers. The specification \<open>offer\<close> hands a section to
  the filters it matches; the theorems show that the sections of a packet, and a section spread
  over consecutive packets, are reassembled and offered exactly once, also in a stream of such
  sections (\<open>carried\<close>), and where the code loses one: the fill counter is not reset when a new section begins.
\<close>

section \<open>The match of a section\<close>

definition section_matches :: "dvb_demux_filter \<Rightarrow> bytes \<Rightarrow> bool" where
  "section_matches f S \<longleftrightarrow>
     (\<forall>i<DVB_DEMUX_MASK_MAX. maskandmode f ! i AND (filter_value f ! i XOR S ! i) = 0) \<and>
     (doneq f \<longrightarrow>
       (\<exists>i<DVB_DEMUX_MASK_MAX. maskandnotmode f ! i AND (filter_value f ! i XOR S ! i) \<noteq> 0))"

lemma u8_or_eq_0_iff: "a OR b = 0 \<longleftrightarrow> a = 0 \<and> b = 0" for a b :: u8
  by (auto simp: bit_eq_iff bit_or_iff)

lemma sectionfilter_loop_spec:
  "sectionfilter_loop S f is neq =
     (if \<forall>i\<in>set is. maskandmode f ! i AND (filter_value f ! i XOR S ! i) = 0
      then Some (fold (\<lambda>i n. n OR (maskandnotmode f ! i AND (filter_value f ! i XOR S ! i))) is neq)
      else None)"
  by (induction "is" arbitrary: neq) (auto simp: Let_def)

lemma fold_or_eq_0_iff:
  "fold (\<lambda>i n. n OR g i) is neq = 0 \<longleftrightarrow> neq = 0 \<and> (\<forall>i\<in>set is. g i = 0)" for neq :: u8
  by (induction "is" arbitrary: neq) (auto simp: u8_or_eq_0_iff)

lemma sectionfilter_matches:
  "dvb_dmx_swfilter_sectionfilter feed f u =
     (if section_matches f (secbuf feed)
      then cb_sec feed (take (seclen feed) (secbuf feed)) [] (filter_priv f) u else (0, u))"
  unfolding dvb_dmx_swfilter_sectionfilter_def sectionfilter_loop_spec section_matches_def
  by (auto simp: fold_or_eq_0_iff)

text \<open>A filter that covers a section tests none of the bytes behind its end.\<close>

definition covers :: "dvb_demux_filter \<Rightarrow> bytes \<Rightarrow> bool" where
  "covers f S \<longleftrightarrow>
     (\<forall>i<DVB_DEMUX_MASK_MAX. i < length S \<or> maskandmode f ! i = 0 \<and> maskandnotmode f ! i = 0)"

lemma covers_long: "DVB_DEMUX_MASK_MAX \<le> length S \<Longrightarrow> covers f S"
  by (auto simp: covers_def)

lemma section_matches_take:
  assumes "covers f S" and "take (length S) b = S"
  shows "section_matches f b = section_matches f S"
proof -
  have nth: "b ! i = S ! i" if "i < length S" for i
    using nth_take [OF that, of b] assms(2) by simp
  have pos: "maskandmode f ! i AND (filter_value f ! i XOR b ! i) =
      maskandmode f ! i AND (filter_value f ! i XOR S ! i)"
    and neg: "maskandnotmode f ! i AND (filter_value f ! i XOR b ! i) =
      maskandnotmode f ! i AND (filter_value f ! i XOR S ! i)"
    if "i < DVB_DEMUX_MASK_MAX" for i
    using assms(1) that nth [of i] unfolding covers_def by fastforce+
  show ?thesis unfolding section_matches_def using pos neg by auto
qed

section \<open>The specification of a delivery\<close>

primrec offer :: "'u feed_cb \<Rightarrow> dvb_demux_filter list \<Rightarrow> bytes \<Rightarrow> 'u \<Rightarrow> int \<times> 'u" where
  "offer cb [] S u = (0, u)"
| "offer cb (f # fl) S u =
     (let (r, u') = (if section_matches f S then cb S [] (filter_priv f) u else (0, u))
      in if r < 0 then (- 1, u') else offer cb fl S u')"

definition section_valid :: "bool \<Rightarrow> bytes \<Rightarrow> bool" where
  "section_valid check S \<longleftrightarrow> \<not> (check \<and> S ! 1 AND 0x80 \<noteq> 0) \<or> crc32_be (NOT 0) S = 0"

lemma deliver_offer:
  assumes "\<forall>i\<in>set is. covers (fs ! i) S" and "take (length S) (secbuf feed) = S"
    and "seclen feed = length S"
  shows "deliver fs feed is u = offer (cb_sec feed) (map ((!) fs) is) S u"
  using assms(1)
proof (induction "is" arbitrary: u)
  case Nil
  show ?case by simp
next
  case (Cons i "is")
  then have "section_matches (fs ! i) (secbuf feed) = section_matches (fs ! i) S"
    using assms(2) by (intro section_matches_take) simp_all
  with Cons show ?case
    using assms(2,3) by (simp add: sectionfilter_matches case_prod_unfold Let_def)
qed

text \<open>A feed that runs and whose filter chain is \<open>is\<close>.\<close>

definition running :: "dvb_demux_filter list \<Rightarrow> nat list \<Rightarrow> 'u dvb_demux_feed \<Rightarrow> bool" where
  "running fs is feed \<longleftrightarrow> is_filtering feed \<and> is \<noteq> [] \<and> filter_path fs (feed_filter feed) is"

lemma running_config: "feed_config a = feed_config b \<Longrightarrow> running fs is a = running fs is b"
  using feed_config_eqD(1,2) [of a b] by (simp add: running_def)

lemma section_feed_offer:
  assumes run: "running fs is feed" and cov: "\<forall>i\<in>set is. covers (fs ! i) S"
    and S: "take (length S) (secbuf feed) = S" "seclen feed = length S" "secbufp feed = length S" "1 < length S"
    and crc: "crc_val feed = NOT 0" and buf: "18 \<le> length (secbuf feed)"
  shows "\<exists>c. dvb_dmx_swfilter_section_feed fs feed u =
    (if \<not> section_valid (check_crc feed) S then Ret (- 1, feed\<lparr>crc_val := c\<rparr>, u)
     else
       let (r, u') = offer (cb_sec feed) (map ((!) fs) is) S u
       in if r < 0 then Ret (- 1, feed\<lparr>crc_val := c\<rparr>, u')
          else Ret (0, feed\<lparr>crc_val := c, secbufp := 0, seclen := 0,
            secbuf := blit (secbuf feed) 0 (replicate 18 0)\<rparr>, u'))"
proof -
  obtain f where f: "feed_filter feed = Some f" and path: "filter_path fs (Some f) is"
    using run by (cases "is") (auto simp: running_def)
  have chain: "sectionfilter_chain fs (Suc (length fs)) f g u = Ret (offer (cb_sec feed) (map ((!) fs) is) S u)"
    if "feed_config g = feed_config feed" "secbuf g = secbuf feed" "seclen g = seclen feed" for g
  proof -
    have "is_filtering g" using run that feed_config_eqD(1) [of g feed] by (simp add: running_def)
    then have "sectionfilter_chain fs (Suc (length fs)) f g u = Ret (deliver fs g is u)"
      using path filter_path_length [OF path] by (intro sectionfilter_chain_deliver) simp_all
    also have "deliver fs g is u = offer (cb_sec g) (map ((!) fs) is) S u"
      using that cov S by (intro deliver_offer) simp_all
    finally show ?thesis using feed_config_eqD(4) [OF that(1)] by simp
  qed
  have S1: "secbuf feed ! 1 = S ! 1" using S(1,4) nth_take [of 1 "length S" "secbuf feed"] by simp
  have chain': "sectionfilter_chain fs (Suc (length fs)) f (feed\<lparr>crc_val := c\<rparr>) u =
      Ret (offer (cb_sec feed) (map ((!) fs) is) S u)" for c
    by (rule chain) simp_all
  have "memset (secbuf feed) 0 0 18 = Ret (blit (secbuf feed) 0 (replicate 18 0))"
    using buf by (simp add: memset_def)
  moreover obtain r u' where "offer (cb_sec feed) (map ((!) fs) is) S u = (r, u')"
    by (cases "offer (cb_sec feed) (map ((!) fs) is) S u")
  moreover have "feed = feed\<lparr>crc_val := NOT 0\<rparr>" using crc by simp
  ultimately show ?thesis
    using f run S crc S1 chain [of feed] chain'
    unfolding dvb_dmx_swfilter_section_feed_def dvb_dmx_crc32_def section_valid_def running_def Let_def
    by (cases "check_crc feed \<and> S ! 1 AND 0x80 \<noteq> 0";
      intro exI [of _ "if check_crc feed \<and> S ! 1 AND 0x80 \<noteq> 0 then crc32_be (NOT 0) S else NOT 0"]) auto
qed

section \<open>One section over several packets\<close>

definition pkt_payload :: "bytes \<Rightarrow> bytes" where
  "pkt_payload buf = drop (188 - payload buf) buf"

definition pkt_cc :: "bytes \<Rightarrow> int" where
  "pkt_cc buf = uint (buf ! 3 AND 0x0f)"

definition pkt_start :: "bytes \<Rightarrow> bool" where
  "pkt_start buf \<longleftrightarrow> buf ! 1 AND 0x40 \<noteq> 0"

lemma length_pkt_payload: "length buf = 188 \<Longrightarrow> length (pkt_payload buf) = payload buf"
  using payload_le [of buf] by (simp add: pkt_payload_def)

text \<open>
  A packet whose first section does not fit: the header is taken from the packet, the bytes go to
  the start of the buffer, and the fill counter grows by their number from whatever it was.
\<close>

lemma section_packet_spanning:
  assumes buf: "length buf = 188" "payload buf = Suc n" "pkt_start buf" "pkt_payload buf = 0 # s"
    and s: "2 < n" "n < section_length s" and len: "length (secbuf feed) = 4096"
  shows "dvb_dmx_swfilter_section_packet fs feed buf u =
    Ret (0, feed\<lparr>feed_cc := pkt_cc buf, crc_val := NOT 0, seclen := section_length s,
      secbuf := blit (secbuf feed) 0 s, secbufp := secbufp feed + n\<rparr>, u)"
proof -
  have n: "n \<le> 183" using payload_le [of buf] buf by simp
  have s': "length s = n" using length_pkt_payload [OF buf(1)] buf by simp
  let ?p = "188 - payload buf"
  let ?f = "feed\<lparr>feed_cc := pkt_cc buf, crc_val := NOT 0, seclen := section_length s\<rparr>"
  have dr: "drop ?p buf = 0 # s" using buf by (simp add: pkt_payload_def)
  then have p0: "buf ! ?p = 0" and ds: "drop (?p + 1) buf = s"
    using drop_Cons_step [OF dr] by simp_all
  have p1: "?p + 1 = 188 - n" using buf n by simp
  have mc: "dvb_dmx_memcopy ?f 0 buf (188 - n) n = Ret (?f\<lparr>secbuf := blit (secbuf feed) 0 s\<rparr>)"
    using n len s' buf ds p1 by (subst memcopy_Ret) simp_all
  have sl: "section_length (drop (188 - n) buf) = section_length s" using ds p1 by simp
  have "section_packet_loop fs (feed\<lparr>feed_cc := pkt_cc buf\<rparr>) buf (188 - n) u =
    Ret (0, ?f\<lparr>secbuf := blit (secbuf feed) 0 s, secbufp := secbufp feed + n\<rparr>, u)"
    using n s mc by (subst section_packet_loop.simps) (simp add: Let_def sl)
  then show ?thesis
    using buf n p0 p1
    by (simp add: dvb_dmx_swfilter_section_packet_def pkt_start_def pkt_cc_def Let_def)
qed

text \<open>The state while a section is collected: its first bytes are \<open>acc\<close>, its length is \<open>L\<close>.\<close>

definition collecting :: "bytes \<Rightarrow> nat \<Rightarrow> int \<Rightarrow> 'u dvb_demux_feed \<Rightarrow> bool" where
  "collecting acc L cc feed \<longleftrightarrow> length (secbuf feed) = 4096 \<and> secbufp feed = length acc \<and>
     take (length acc) (secbuf feed) = acc \<and> seclen feed = L \<and> crc_val feed = NOT 0 \<and>
     feed_cc feed = cc \<and> 3 \<le> length acc"

lemma section_packet_more:
  assumes col: "collecting acc L cc feed"
    and buf: "length buf = 188" "payload buf \<noteq> 0" "\<not> pkt_start buf" "pkt_cc buf = (cc + 1) AND 0x0f"
    and L: "length acc + payload buf < L" "length acc + payload buf \<le> 4096"
  shows "\<exists>feed'. dvb_dmx_swfilter_section_packet fs feed buf u = Ret (0, feed', u) \<and>
    collecting (acc @ pkt_payload buf) L (pkt_cc buf) feed' \<and> feed_config feed' = feed_config feed"
proof -
  let ?f = "feed\<lparr>feed_cc := pkt_cc buf\<rparr>"
  let ?n = "payload buf"
  have n: "?n \<le> 184" by (rule payload_le)
  have c: "length (secbuf feed) = 4096" "secbufp feed = length acc" "take (length acc) (secbuf feed) = acc"
    "seclen feed = L" "crc_val feed = NOT 0" "feed_cc feed = cc" "3 \<le> length acc"
    using col by (auto simp: collecting_def)
  let ?f' = "?f\<lparr>secbuf := blit (secbuf feed) (length acc) (pkt_payload buf), secbufp := length acc + ?n\<rparr>"
  have mc: "dvb_dmx_memcopy ?f (length acc) buf (188 - ?n) ?n =
    Ret (?f\<lparr>secbuf := blit (secbuf feed) (length acc) (pkt_payload buf)\<rparr>)"
    using c n L buf by (subst memcopy_Ret) (simp_all add: pkt_payload_def)
  have "\<not> int L - int (length acc) < 0" "\<not> int L - int (length acc) \<le> int ?n" "acc \<noteq> []"
    using L c by auto
  then have "dvb_dmx_swfilter_section_packet fs feed buf u = Ret (0, ?f', u)"
    using buf c mc
    by (simp add: dvb_dmx_swfilter_section_packet_def pkt_start_def pkt_cc_def Let_def
      section_packet_continue_def section_packet_fill_def)
  moreover have "collecting (acc @ pkt_payload buf) L (pkt_cc buf) ?f'"
    using c L buf length_pkt_payload [OF buf(1)] take_blit_end [of "length acc" "pkt_payload buf" "secbuf feed"]
    by (simp add: collecting_def)
  ultimately show ?thesis by auto
qed

lemma section_packet_last:
  assumes col: "collecting acc L cc feed"
    and buf: "length buf = 188" "payload buf \<noteq> 0" "\<not> pkt_start buf" "pkt_cc buf = (cc + 1) AND 0x0f"
    and L: "length acc \<le> L" "L \<le> length acc + payload buf" "L \<le> 4096"
  shows "\<exists>feed'. dvb_dmx_swfilter_section_packet fs feed buf u =
      kbind (dvb_dmx_swfilter_section_feed fs feed' u) (\<lambda>(_, feed, u). Ret (0, feed, u)) \<and>
    feed_config feed' = feed_config feed \<and> length (secbuf feed') = 4096 \<and> crc_val feed' = NOT 0 \<and>
    secbufp feed' = L \<and> seclen feed' = L \<and>
    take L (secbuf feed') = acc @ take (L - length acc) (pkt_payload buf)"
proof -
  let ?f = "feed\<lparr>feed_cc := pkt_cc buf\<rparr>"
  let ?n = "payload buf"
  let ?m = "L - length acc"
  let ?xs = "take ?m (pkt_payload buf)"
  have n: "?n \<le> 184" by (rule payload_le)
  have c: "length (secbuf feed) = 4096" "secbufp feed = length acc" "take (length acc) (secbuf feed) = acc"
    "seclen feed = L" "crc_val feed = NOT 0" "feed_cc feed = cc" "3 \<le> length acc"
    using col by (auto simp: collecting_def)
  have xs: "length ?xs = ?m" using length_pkt_payload [OF buf(1)] L by simp
  let ?f' = "?f\<lparr>secbuf := blit (secbuf feed) (length acc) ?xs, secbufp := L\<rparr>"
  have mc: "dvb_dmx_memcopy ?f (length acc) buf (188 - ?n) ?m =
    Ret (?f\<lparr>secbuf := blit (secbuf feed) (length acc) ?xs\<rparr>)"
    using c n L buf by (subst memcopy_Ret) (simp_all add: pkt_payload_def)
  have "\<not> int L - int (length acc) < 0" "int L - int (length acc) \<le> int ?n"
    "nat (int L - int (length acc)) = ?m" "acc \<noteq> []"
    using L c by auto
  then have "dvb_dmx_swfilter_section_packet fs feed buf u =
      kbind (dvb_dmx_swfilter_section_feed fs ?f' u) (\<lambda>(_, feed, u). Ret (0, feed, u))"
    using buf c L mc
    by (simp add: dvb_dmx_swfilter_section_packet_def pkt_start_def pkt_cc_def Let_def
      section_packet_continue_def section_packet_fill_def)
  moreover have "take L (secbuf ?f') = acc @ ?xs"
    using take_blit_end [of "length acc" ?xs "secbuf feed"] c L xs by simp
  moreover have "length (secbuf ?f') = 4096" using xs c L by simp
  ultimately show ?thesis using c by (intro exI [of _ ?f']) simp
qed

text \<open>
  \<open>continues cc pkts rest\<close>: the packets, whose continuity counters follow \<open>cc\<close>, carry exactly the
  remaining bytes of a section. \<open>packetised pkts S\<close>: the packets carry \<open>S\<close>, which begins right
  behind the pointer field of the first one and does not end there.
\<close>

fun continues :: "int \<Rightarrow> bytes list \<Rightarrow> bytes \<Rightarrow> bool" where
  "continues cc [] rest \<longleftrightarrow> False"
| "continues cc (b # bs) rest \<longleftrightarrow>
     length b = 188 \<and> payload b \<noteq> 0 \<and> \<not> pkt_start b \<and> pkt_cc b = (cc + 1) AND 0x0f \<and>
     (if length rest \<le> payload b then bs = [] \<and> take (length rest) (pkt_payload b) = rest
      else take (payload b) rest = pkt_payload b \<and> continues (pkt_cc b) bs (drop (payload b) rest))"

fun packetised :: "bytes list \<Rightarrow> bytes \<Rightarrow> bool" where
  "packetised [] S \<longleftrightarrow> False"
| "packetised (b # bs) S \<longleftrightarrow>
     length b = 188 \<and> pkt_start b \<and> 3 < payload b \<and> payload b \<le> length S \<and>
     section_length S = length S \<and> pkt_payload b = 0 # take (payload b - 1) S \<and>
     continues (pkt_cc b) bs (drop (payload b - 1) S)"

text \<open>The packets of one feed in turn.\<close>

fun feed_packets ::
  "'u dvb_demux \<Rightarrow> nat \<Rightarrow> 'u dvb_demux_feed \<Rightarrow> bytes list \<Rightarrow> 'u \<Rightarrow> ('u dvb_demux_feed \<times> 'u) kres" where
  "feed_packets demux i feed [] u = Ret (feed, u)"
| "feed_packets demux i feed (b # bs) u =
     kbind (dvb_dmx_swfilter_packet_type demux i feed b u) (\<lambda>(feed, u). feed_packets demux i feed bs u)"

lemma packet_type_section:
  "feed_type feed = DMX_TYPE_SEC \<Longrightarrow> is_filtering feed \<Longrightarrow>
   dvb_dmx_swfilter_section_packet (filters demux) feed buf u = Ret (r, feed', u') \<Longrightarrow>
   dvb_dmx_swfilter_packet_type demux i feed buf u =
     Ret (if r < 0 then feed'\<lparr>secbufp := 0, seclen := 0\<rparr> else feed', u')"
  by (simp add: dvb_dmx_swfilter_packet_type_def)

text \<open>What a complete section leaves behind: the callbacks have run, the feed is ready again.\<close>

definition section_done ::
  "dvb_demux_filter list \<Rightarrow> nat list \<Rightarrow> bytes \<Rightarrow> 'u dvb_demux_feed \<Rightarrow> 'u \<Rightarrow> 'u dvb_demux_feed \<Rightarrow> 'u \<Rightarrow> bool" where
  "section_done fs is S feed u feed' u' \<longleftrightarrow>
     feed_config feed' = feed_config feed \<and> length (secbuf feed') = 4096 \<and>
     (if section_valid (check_crc feed) S
      then u' = snd (offer (cb_sec feed) (map ((!) fs) is) S u) \<and>
        (0 \<le> fst (offer (cb_sec feed) (map ((!) fs) is) S u) \<longrightarrow> secbufp feed' = 0 \<and> seclen feed' = 0)
      else u' = u)"

lemma section_feed_done:
  assumes "running fs is feed" "\<forall>i\<in>set is. covers (fs ! i) S"
    "take (length S) (secbuf feed) = S" "seclen feed = length S" "secbufp feed = length S" "1 < length S"
    "crc_val feed = NOT 0" "length (secbuf feed) = 4096"
  shows "\<exists>r feed' u'. dvb_dmx_swfilter_section_feed fs feed u = Ret (r, feed', u') \<and>
    section_done fs is S feed u feed' u'"
proof -
  obtain q v where "offer (cb_sec feed) (map ((!) fs) is) S u = (q, v)"
    by (cases "offer (cb_sec feed) (map ((!) fs) is) S u")
  then show ?thesis
    using section_feed_offer [OF assms(1-7), of u] assms(8)
    by (auto simp: section_done_def split: if_splits)
qed

lemma section_done_config:
  assumes "section_done fs is S g u feed' u'" and "feed_config g = feed_config feed"
  shows "section_done fs is S feed u feed' u'"
  using assms feed_config_eqD(3,4) [OF assms(2)] by (simp add: section_done_def)

lemma continues_done:
  assumes "continues cc bs rest" "collecting acc (length acc + length rest) cc feed"
    "running (filters demux) is feed" "feed_type feed = DMX_TYPE_SEC"
    "\<forall>i\<in>set is. covers (filters demux ! i) (acc @ rest)" "length acc + length rest \<le> 4096"
  shows "\<exists>feed' u'. feed_packets demux i feed bs u = Ret (feed', u') \<and>
    section_done (filters demux) is (acc @ rest) feed u feed' u'"
  using assms
proof (induction cc bs rest arbitrary: acc feed u rule: continues.induct)
  case (1 cc rest)
  then show ?case by simp
next
  case (2 cc b bs rest)
  note col = 2(3) and run = 2(4) and sec = 2(5) and cov = 2(6) and fit = 2(7)
  have b: "length b = 188" "payload b \<noteq> 0" "\<not> pkt_start b" "pkt_cc b = (cc + 1) AND 0x0f"
    using 2(2) by auto
  have filt: "is_filtering feed" using run by (simp add: running_def)
  let ?L = "length acc + length rest"
  show ?case
  proof (cases "length rest \<le> payload b")
    case True
    then have bs: "bs = []" and rest: "take (length rest) (pkt_payload b) = rest" using 2(2) by auto
    from True fit have L: "length acc \<le> ?L" "?L \<le> length acc + payload b" "?L \<le> 4096" by auto
    obtain g where g: "dvb_dmx_swfilter_section_packet (filters demux) feed b u =
        kbind (dvb_dmx_swfilter_section_feed (filters demux) g u) (\<lambda>(_, feed, u). Ret (0, feed, u))"
      "feed_config g = feed_config feed" "length (secbuf g) = 4096" "crc_val g = NOT 0"
      "secbufp g = ?L" "seclen g = ?L" "take ?L (secbuf g) = acc @ rest"
      using section_packet_last [OF col b L, of "filters demux" u] rest by auto
    have "running (filters demux) is g" using run running_config [OF g(2)] by simp
    moreover have "1 < length (acc @ rest)" using col by (simp add: collecting_def)
    ultimately obtain r f' u' where d: "dvb_dmx_swfilter_section_feed (filters demux) g u = Ret (r, f', u')"
      "section_done (filters demux) is (acc @ rest) g u f' u'"
      using section_feed_done [of "filters demux" "is" g "acc @ rest" u] cov g by auto
    then have "dvb_dmx_swfilter_section_packet (filters demux) feed b u = Ret (0, f', u')" using g by simp
    from packet_type_section [OF sec filt this] show ?thesis
      using section_done_config [OF d(2) g(2)] bs by simp
  next
    case False
    then have pre: "take (payload b) rest = pkt_payload b" and rec: "continues (pkt_cc b) bs (drop (payload b) rest)"
      using 2(2) by auto
    from False fit have "length acc + payload b < ?L" "length acc + payload b \<le> 4096" by auto
    then obtain g where g: "dvb_dmx_swfilter_section_packet (filters demux) feed b u = Ret (0, g, u)"
      "collecting (acc @ pkt_payload b) ?L (pkt_cc b) g" "feed_config g = feed_config feed"
      using section_packet_more [OF col b] by blast
    have split: "(acc @ pkt_payload b) @ drop (payload b) rest = acc @ rest"
      using append_take_drop_id [of "payload b" rest] by (simp only: pre [symmetric] append_assoc)
    have lens: "length (acc @ pkt_payload b) + length (drop (payload b) rest) = ?L"
      using arg_cong [OF split, of length] by simp
    have run': "running (filters demux) is g" using run running_config [OF g(3)] by simp
    have sec': "feed_type g = DMX_TYPE_SEC" using sec feed_config_eqD(7) [OF g(3)] by simp
    obtain f' u' where f': "feed_packets demux i g bs u = Ret (f', u')"
      "section_done (filters demux) is (acc @ rest) g u f' u'"
      using 2(1) [OF False rec _ run' sec', of "acc @ pkt_payload b" u] g(2) cov fit
      unfolding split lens by blast
    from packet_type_section [OF sec filt g(1)] f'(1) section_done_config [OF f'(2) g(3)]
    show ?thesis by simp
  qed
qed

lemma packetised_first:
  assumes pk: "packetised (b # bs) S" and len: "length (secbuf feed) = 4096"
  obtains g where "dvb_dmx_swfilter_section_packet fs feed b u = Ret (0, g, u)"
    "feed_config g = feed_config feed" "length (secbuf g) = 4096" "seclen g = length S"
    "feed_cc g = pkt_cc b" "secbufp g = secbufp feed + (payload b - 1)"
    "secbufp feed = 0 \<longrightarrow> collecting (take (payload b - 1) S) (length S) (pkt_cc b) g"
proof -
  obtain n where n: "payload b = Suc n" using pk by (cases "payload b") auto
  let ?s = "take n S"
  have p: "length b = 188" "pkt_start b" "2 < n" "Suc n \<le> length S" "section_length S = length S"
    "pkt_payload b = 0 # ?s" using pk n by auto
  have sl: "section_length ?s = length S" using p by (simp add: section_length_def)
  let ?f = "feed\<lparr>feed_cc := pkt_cc b, crc_val := NOT 0, seclen := section_length ?s,
      secbuf := blit (secbuf feed) 0 ?s, secbufp := secbufp feed + n\<rparr>"
  have pk1: "dvb_dmx_swfilter_section_packet fs feed b u = Ret (0, ?f, u)"
    using p n sl len by (intro section_packet_spanning) auto
  have n': "n \<le> 183" using payload_le [of b] n by simp
  have ls: "length ?s = n" using p by simp
  have len': "length (blit (secbuf feed) 0 ?s) = 4096" using len ls n' by (subst length_blit) auto
  have "secbufp feed = 0 \<longrightarrow> collecting ?s (length S) (pkt_cc b) ?f"
    using p len len' sl ls n' by (simp add: collecting_def take_blit_all del: length_take)
  with pk1 len' sl n show thesis by (intro that [of ?f]) simp_all
qed

lemma packetised_done:
  assumes pk: "packetised pkts S" and fit: "length S \<le> 4096"
    and feed: "length (secbuf feed) = 4096" "secbufp feed = 0" "feed_type feed = DMX_TYPE_SEC"
      "running (filters demux) is feed"
    and cov: "\<forall>i\<in>set is. covers (filters demux ! i) S"
  shows "\<exists>feed' u'. feed_packets demux i feed pkts u = Ret (feed', u') \<and>
    section_done (filters demux) is S feed u feed' u'"
proof -
  obtain b bs where pkts: "pkts = b # bs" using pk by (cases pkts) auto
  let ?n = "payload b - 1"
  obtain g where g: "dvb_dmx_swfilter_section_packet (filters demux) feed b u = Ret (0, g, u)"
    "feed_config g = feed_config feed" "collecting (take ?n S) (length S) (pkt_cc b) g"
    using packetised_first [OF pk [unfolded pkts] feed(1)] feed(2) by metis
  have rest: "continues (pkt_cc b) bs (drop ?n S)" and n: "?n < length S" using pk pkts by auto
  have filt: "is_filtering feed" using feed by (simp add: running_def)
  have ls: "length (take ?n S) + length (drop ?n S) = length S" using n by simp
  have cfg: "running (filters demux) is g" "feed_type g = DMX_TYPE_SEC"
    using feed running_config [OF g(2)] feed_config_eqD(7) [OF g(2)] by simp_all
  obtain f' u' where f': "feed_packets demux i g bs u = Ret (f', u')"
    "section_done (filters demux) is S g u f' u'"
    using continues_done [OF rest, of "take ?n S" g demux "is" i u, unfolded ls append_take_drop_id]
      g(3) cfg cov fit by blast
  from packet_type_section [OF feed(3) filt g(1)] f'(1) section_done_config [OF f'(2) g(2)]
  show ?thesis by (simp add: pkts)
qed

text \<open>
  A section that announces more than 4096 bytes runs over the buffer: the length test is missing
  where a section begins that continues in the next packet.
\<close>

lemma section_packet_overrun:
  assumes col: "collecting acc L cc feed"
    and buf: "length buf = 188" "payload buf \<noteq> 0" "\<not> pkt_start buf" "pkt_cc buf = (cc + 1) AND 0x0f"
    and L: "length acc \<le> L" "4096 < L" "4096 < length acc + payload buf"
  shows "dvb_dmx_swfilter_section_packet fs feed buf u = Oops"
proof -
  have c: "length (secbuf feed) = 4096" "secbufp feed = length acc" "seclen feed = L" "feed_cc feed = cc"
    "3 \<le> length acc"
    using col by (auto simp: collecting_def)
  have fault: "dvb_dmx_memcopy (feed\<lparr>feed_cc := pkt_cc buf\<rparr>) (length acc) buf q m = Oops"
    if "4096 < length acc + m" for q m
    using that c by (simp add: dvb_dmx_memcopy_def memcpy_def)
  have "acc \<noteq> []" "\<not> int L - int (length acc) < 0" "nat (int L - int (length acc)) = L - length acc"
    using c L by auto
  then show ?thesis
    using buf c L fault [of "L - length acc" "188 - payload buf"] fault [of "payload buf" "188 - payload buf"]
    by (simp add: dvb_dmx_swfilter_section_packet_def pkt_start_def pkt_cc_def Let_def
      section_packet_continue_def section_packet_fill_def)
qed

lemma packet_type_section_Oops:
  "feed_type feed = DMX_TYPE_SEC \<Longrightarrow> is_filtering feed \<Longrightarrow>
   dvb_dmx_swfilter_section_packet (filters demux) feed buf u = Oops \<Longrightarrow>
   dvb_dmx_swfilter_packet_type demux i feed buf u = Oops"
  by (simp add: dvb_dmx_swfilter_packet_type_def)

lemma continues_overrun:
  assumes "continues cc bs rest" "collecting acc (length acc + length rest) cc feed"
    "is_filtering feed" "feed_type feed = DMX_TYPE_SEC" "4096 < length acc + length rest"
  shows "feed_packets demux i feed bs u = Oops"
  using assms
proof (induction cc bs rest arbitrary: acc feed rule: continues.induct)
  case (1 cc rest)
  then show ?case by simp
next
  case (2 cc b bs rest)
  note col = 2(3) and filt = 2(4) and sec = 2(5) and over = 2(6)
  have b: "length b = 188" "payload b \<noteq> 0" "\<not> pkt_start b" "pkt_cc b = (cc + 1) AND 0x0f"
    using 2(2) by auto
  let ?L = "length acc + length rest"
  show ?case
  proof (cases "4096 < length acc + payload b")
    case True
    then have "dvb_dmx_swfilter_section_packet (filters demux) feed b u = Oops"
      using over by (intro section_packet_overrun [OF col b]) auto
    from packet_type_section_Oops [OF sec filt this] show ?thesis by simp
  next
    case False
    then have nle: "\<not> length rest \<le> payload b" using over by auto
    then have pre: "take (payload b) rest = pkt_payload b" and rec: "continues (pkt_cc b) bs (drop (payload b) rest)"
      using 2(2) by auto
    from False nle have "length acc + payload b < ?L" "length acc + payload b \<le> 4096" by auto
    then obtain g where g: "dvb_dmx_swfilter_section_packet (filters demux) feed b u = Ret (0, g, u)"
      "collecting (acc @ pkt_payload b) ?L (pkt_cc b) g" "feed_config g = feed_config feed"
      using section_packet_more [OF col b] by blast
    have "length (acc @ pkt_payload b) + length (drop (payload b) rest) = ?L"
      using nle length_pkt_payload [OF b(1)] by simp
    then have "feed_packets demux i g bs u = Oops"
      using 2(1) [OF nle rec, of "acc @ pkt_payload b" g] g(2) over filt sec feed_config_eqD(1,7) [OF g(3)]
      by (simp del: length_append length_drop)
    with packet_type_section [OF sec filt g(1)] show ?thesis by simp
  qed
qed

lemma packetised_overrun:
  assumes pk: "packetised pkts S" and over: "4096 < length S"
    and feed: "length (secbuf feed) = 4096" "secbufp feed = 0" "feed_type feed = DMX_TYPE_SEC" "is_filtering feed"
  shows "feed_packets demux i feed pkts u = Oops"
proof -
  obtain b bs where pkts: "pkts = b # bs" using pk by (cases pkts) auto
  let ?n = "payload b - 1"
  obtain g where g: "dvb_dmx_swfilter_section_packet (filters demux) feed b u = Ret (0, g, u)"
    "feed_config g = feed_config feed" "collecting (take ?n S) (length S) (pkt_cc b) g"
    using packetised_first [OF pk [unfolded pkts] feed(1)] feed(2) by metis
  have rest: "continues (pkt_cc b) bs (drop ?n S)" and n: "?n < length S" using pk pkts by auto
  have ls: "length (take ?n S) + length (drop ?n S) = length S" using n by simp
  have "feed_packets demux i g bs u = Oops"
    using continues_overrun [OF rest, of "take ?n S" g demux i u] g over feed feed_config_eqD(1,7) [OF g(2)]
    by (simp only: ls)
  with packet_type_section [OF feed(3,4) g(1)] show ?thesis by (simp add: pkts)
qed

section \<open>A stale fill counter\<close>

lemma section_packet_stale:
  assumes "seclen feed < secbufp feed" "3 \<le> secbufp feed" "feed_cc feed = cc"
    and buf: "length buf = 188" "payload buf \<noteq> 0" "\<not> pkt_start buf" "pkt_cc buf = (cc + 1) AND 0x0f"
  shows "dvb_dmx_swfilter_section_packet fs feed buf u = Ret (- 1, feed\<lparr>feed_cc := pkt_cc buf\<rparr>, u)"
  using assms
  by (simp add: dvb_dmx_swfilter_section_packet_def pkt_start_def pkt_cc_def Let_def
    section_packet_continue_def section_packet_fill_def)

lemma stale_section_lost:
  assumes first: "packetised (b0 # bs0) S0" and second: "packetised [b1, b2] S1"
    and short: "length S1 < (payload b0 - 1) + (payload b1 - 1)"
    and feed: "length (secbuf feed) = 4096" "feed_type feed = DMX_TYPE_SEC" "is_filtering feed"
  shows "\<exists>feed'. feed_packets demux i feed [b0, b1, b2] u = Ret (feed', u)"
proof -
  obtain g where g: "dvb_dmx_swfilter_section_packet (filters demux) feed b0 u = Ret (0, g, u)"
    "feed_config g = feed_config feed" "length (secbuf g) = 4096" "secbufp g = secbufp feed + (payload b0 - 1)"
    using packetised_first [OF first feed(1)] by metis
  obtain h where h: "dvb_dmx_swfilter_section_packet (filters demux) g b1 u = Ret (0, h, u)"
    "feed_config h = feed_config g" "seclen h = length S1" "feed_cc h = pkt_cc b1"
    "secbufp h = secbufp g + (payload b1 - 1)"
    using packetised_first [OF second g(3)] by metis
  have b2: "length b2 = 188" "payload b2 \<noteq> 0" "\<not> pkt_start b2" "pkt_cc b2 = (pkt_cc b1 + 1) AND 0x0f"
    and b1: "3 < payload b1" using second by auto
  have "dvb_dmx_swfilter_section_packet (filters demux) h b2 u = Ret (- 1, h\<lparr>feed_cc := pkt_cc b2\<rparr>, u)"
    using short h g b1 b2 by (intro section_packet_stale) auto
  moreover note types = feed_config_eqD(1,7) [OF g(2)] feed_config_eqD(1,7) [OF h(2)]
  ultimately show ?thesis
    using packet_type_section [OF feed(2,3) g(1)] packet_type_section [OF _ _ h(1)] feed
    by (simp add: packet_type_section)
qed

section \<open>Several sections in one packet\<close>

definition offer_all :: "bool \<Rightarrow> 'u feed_cb \<Rightarrow> dvb_demux_filter list \<Rightarrow> bytes list \<Rightarrow> 'u \<Rightarrow> 'u" where
  "offer_all check cb fl Ss u =
     fold (\<lambda>S u. if section_valid check S then snd (offer cb fl S u) else u) Ss u"

text \<open>
  \<open>filled Ss fill\<close>: whole sections, none with the table identifier 0xff that marks stuffing, then
  stuffing bytes, if any.
\<close>

definition filled :: "bytes list \<Rightarrow> bytes \<Rightarrow> bool" where
  "filled Ss fill \<longleftrightarrow> (\<forall>S\<in>set Ss. section_length S = length S \<and> hd S \<noteq> 0xff) \<and>
     (fill = [] \<or> Ss \<noteq> [] \<and> hd fill = 0xff)"

lemma section_length_append: "section_length S = length S \<Longrightarrow> section_length (S @ xs) = length S"
  using section_length_ge [of S] by (simp add: section_length_def nth_append)

lemma section_done_offer:
  "section_done fs is S feed u feed' u' \<Longrightarrow> u' = offer_all (check_crc feed) (cb_sec feed) (map ((!) fs) is) [S] u"
  by (simp add: section_done_def offer_all_def split: if_splits)

lemma offer_all_Cons: "offer_all c cb fl (S # Ss) u = offer_all c cb fl Ss (offer_all c cb fl [S] u)"
  by (simp add: offer_all_def)

text \<open>Sections that none of the steps rejects: their checksums are right, and no callback reports an error.\<close>

definition reliable :: "bool \<Rightarrow> 'u feed_cb \<Rightarrow> dvb_demux_filter list \<Rightarrow> bytes list \<Rightarrow> bool" where
  "reliable check cb fl Ss \<longleftrightarrow> (\<forall>S\<in>set Ss. section_valid check S \<and> (\<forall>u. 0 \<le> fst (offer cb fl S u)))"

lemma reliable_Cons: "reliable c cb fl (S # Ss) \<longleftrightarrow> reliable c cb fl [S] \<and> reliable c cb fl Ss"
  by (simp add: reliable_def)

lemma section_loop_offers:
  assumes "drop p buf = concat Ss @ fill" "filled Ss fill" "length buf = 188"
    "running fs is feed" "\<forall>i\<in>set is. \<forall>S\<in>set Ss. covers (fs ! i) S" "length (secbuf feed) = 4096"
  shows "\<exists>feed'. section_packet_loop fs feed buf p u =
      Ret (0, feed', offer_all (check_crc feed) (cb_sec feed) (map ((!) fs) is) Ss u) \<and>
    feed_config feed' = feed_config feed \<and> length (secbuf feed') = 4096 \<and>
    (reliable (check_crc feed) (cb_sec feed) (map ((!) fs) is) Ss \<and> (Ss = [] \<longrightarrow> secbufp feed = 0) \<longrightarrow> secbufp feed' = 0)"
  using assms
proof (induction Ss arbitrary: p feed u)
  case Nil
  then have "188 \<le> p" by (auto simp: filled_def)
  then show ?case using Nil by (subst section_packet_loop.simps) (simp add: offer_all_def)
next
  case (Cons S Ss)
  have L: "section_length S = length S" using Cons.prems(2) by (simp add: filled_def)
  let ?n = "length S"
  have dr: "drop p buf = S @ concat Ss @ fill" using Cons.prems(1) by simp
  then have sl: "section_length (drop p buf) = ?n" using L by (simp add: section_length_append)
  have n: "3 \<le> ?n" using section_length_ge [of S] L by simp
  have "188 - p = ?n + length (concat Ss @ fill)" using arg_cong [OF dr, of length] Cons.prems(3) by simp
  then have cnt: "?n \<le> 188 - p" "p < 188" "2 < 188 - p" "\<not> 4096 < ?n" using n by auto
  let ?f = "feed\<lparr>crc_val := NOT 0, seclen := ?n\<rparr>"
  let ?g = "?f\<lparr>secbuf := blit (secbuf feed) 0 S, secbufp := ?n\<rparr>"
  have S: "take ?n (drop p buf) = S" using dr by simp
  have mc: "dvb_dmx_memcopy ?f 0 buf p ?n = Ret (?f\<lparr>secbuf := blit (secbuf feed) 0 S\<rparr>)"
    using cnt Cons.prems(3,6) S by (subst memcopy_Ret) simp_all
  have cfg: "feed_config ?g = feed_config feed" by simp
  have buf: "length (secbuf ?g) = 4096" using cnt Cons.prems(6) by simp
  have "running fs is ?g" using Cons.prems(4) running_config [OF cfg] by simp
  then obtain r f' u' where f': "dvb_dmx_swfilter_section_feed fs ?g u = Ret (r, f', u')"
    "section_done fs is S ?g u f' u'"
    using section_feed_done [of fs "is" ?g S u] Cons.prems(5,6) buf cnt n by (auto simp: take_blit_all)
  have cfg': "feed_config f' = feed_config feed" "length (secbuf f') = 4096"
    using f'(2) cfg by (simp_all add: section_done_def)
  have u': "u' = offer_all (check_crc feed) (cb_sec feed) (map ((!) fs) is) [S] u"
    using section_done_offer [OF f'(2)] by simp
  have ready: "reliable (check_crc feed) (cb_sec feed) (map ((!) fs) is) [S] \<longrightarrow> secbufp f' = 0"
    using f'(2) by (simp add: section_done_def reliable_def)
  have drS: "drop (p + ?n) buf = concat Ss @ fill"
    using dr by (rule drop_append_step)
  have step: "section_packet_loop fs feed buf p u =
    (if 188 - (p + ?n) \<noteq> 0 \<and> buf ! (p + ?n) = 0xff then Ret (0, f', u')
     else section_packet_loop fs f' buf (p + ?n) u')"
    using cnt mc f'(1) by (subst section_packet_loop.simps) (simp add: sl Let_def)
  show ?case
  proof (cases "Ss = [] \<and> fill \<noteq> []")
    case True
    then have "hd fill = 0xff" using Cons.prems(2) by (simp add: filled_def)
    then have "188 - (p + ?n) \<noteq> 0" "buf ! (p + ?n) = 0xff"
      using True drS Cons.prems(3) by (auto simp: hd_drop_conv_nth not_less)
    then have "section_packet_loop fs feed buf p u = Ret (0, f', u')" using step by (simp only: simp_thms if_True)
    then have "section_packet_loop fs feed buf p u =
        Ret (0, f', offer_all (check_crc feed) (cb_sec feed) (map ((!) fs) is) (S # Ss) u)"
      unfolding u' conjunct1 [OF True] .
    moreover have "reliable (check_crc feed) (cb_sec feed) (map ((!) fs) is) (S # Ss) \<and>
        (S # Ss = [] \<longrightarrow> secbufp feed = 0) \<longrightarrow> secbufp f' = 0"
      unfolding conjunct1 [OF True] using ready by blast
    ultimately show ?thesis using cfg' by blast
  next
    case False
    have ne: "\<not> (188 - (p + ?n) \<noteq> 0 \<and> buf ! (p + ?n) = 0xff)"
    proof (cases Ss)
      case Nil
      then show ?thesis using False drS Cons.prems(3) by auto
    next
      case (Cons S' Ss')
      then have S': "hd S' \<noteq> 0xff" "section_length S' = length S'"
        using \<open>filled (S # Ss) fill\<close> by (auto simp: filled_def)
      then have "S' \<noteq> []" using section_length_ge [of S'] by auto
      then have "hd (drop (p + ?n) buf) = hd S'" "drop (p + ?n) buf \<noteq> []" using drS Cons by auto
      then show ?thesis using S' \<open>length buf = 188\<close> by (auto simp: hd_drop_conv_nth)
    qed
    have "filled Ss fill" using Cons.prems(2) False by (auto simp: filled_def)
    then obtain f'' where f'': "section_packet_loop fs f' buf (p + ?n) u' =
        Ret (0, f'', offer_all (check_crc f') (cb_sec f') (map ((!) fs) is) Ss u')"
      "feed_config f'' = feed_config f'" "length (secbuf f'') = 4096"
      "reliable (check_crc f') (cb_sec f') (map ((!) fs) is) Ss \<and> (Ss = [] \<longrightarrow> secbufp f' = 0) \<longrightarrow> secbufp f'' = 0"
      using Cons.IH [OF drS _ Cons.prems(3), of f' u'] Cons.prems(4,5) cfg' running_config [OF cfg'(1)] by auto
    have "section_packet_loop fs feed buf p u = section_packet_loop fs f' buf (p + ?n) u'"
      using step ne by (simp only: if_False)
    then have "section_packet_loop fs feed buf p u =
        Ret (0, f'', offer_all (check_crc feed) (cb_sec feed) (map ((!) fs) is) (S # Ss) u)"
      unfolding f''(1) feed_config_eqD(3,4) [OF cfg'(1)] offer_all_Cons [of _ _ _ S Ss] unfolding u' .
    moreover have "reliable (check_crc feed) (cb_sec feed) (map ((!) fs) is) (S # Ss) \<longrightarrow> secbufp f'' = 0"
      using f''(4) ready unfolding feed_config_eqD(3,4) [OF cfg'(1)] by (auto simp: reliable_def)
    ultimately show ?thesis using f''(2,3) cfg'(1) by simp
  qed
qed

lemma section_packet_offers:
  assumes buf: "length buf = 188" "pkt_start buf" "pkt_payload buf = 0 # concat Ss @ fill" "filled Ss fill"
    and feed: "running fs is feed" "length (secbuf feed) = 4096" "\<forall>i\<in>set is. \<forall>S\<in>set Ss. covers (fs ! i) S"
  shows "\<exists>feed'. dvb_dmx_swfilter_section_packet fs feed buf u =
      Ret (0, feed', offer_all (check_crc feed) (cb_sec feed) (map ((!) fs) is) Ss u) \<and>
    feed_config feed' = feed_config feed \<and> length (secbuf feed') = 4096 \<and>
    (reliable (check_crc feed) (cb_sec feed) (map ((!) fs) is) Ss \<and> (Ss = [] \<longrightarrow> secbufp feed = 0) \<longrightarrow> secbufp feed' = 0)"
proof -
  let ?p = "188 - payload buf"
  let ?f = "feed\<lparr>feed_cc := pkt_cc buf\<rparr>"
  have dr: "drop ?p buf = 0 # concat Ss @ fill" using buf by (simp add: pkt_payload_def)
  have n: "payload buf \<noteq> 0" using length_pkt_payload [OF buf(1)] buf(3) by auto
  have p0: "buf ! ?p = 0" and ds: "drop (?p + 1) buf = concat Ss @ fill"
    using drop_Cons_step [OF dr] by simp_all
  have cfg: "feed_config ?f = feed_config feed" by simp
  have payload_pos: "\<not> 187 < ?p" using n by simp
  have "dvb_dmx_swfilter_section_packet fs feed buf u = section_packet_loop fs ?f buf (?p + 1) u"
    using buf(2) n p0 payload_pos by (simp add: dvb_dmx_swfilter_section_packet_def pkt_start_def pkt_cc_def Let_def)
  moreover have "running fs is ?f" using feed(1) running_config [OF cfg] by simp
  ultimately show ?thesis
    using section_loop_offers [OF ds buf(4,1), of fs "is" ?f u] feed(2,3) by simp
qed

text \<open>The end of the section before, announced by the pointer field, and then whole sections.\<close>

lemma section_packet_tail_offers:
  assumes col: "collecting acc (length acc + length rest) cc feed"
    and buf: "length buf = 188" "pkt_start buf" "pkt_cc buf = (cc + 1) AND 0x0f"
      "pkt_payload buf = of_nat (length rest) # rest @ concat Ss @ fill" "filled Ss fill" "rest \<noteq> []"
    and fit: "length acc + length rest \<le> 4096"
    and feed: "running fs is feed" "\<forall>i\<in>set is. \<forall>S\<in>insert (acc @ rest) (set Ss). covers (fs ! i) S"
  shows "\<exists>feed'. dvb_dmx_swfilter_section_packet fs feed buf u =
      Ret (0, feed', offer_all (check_crc feed) (cb_sec feed) (map ((!) fs) is) ((acc @ rest) # Ss) u) \<and>
    feed_config feed' = feed_config feed \<and> length (secbuf feed') = 4096"
proof -
  let ?p = "188 - payload buf"
  let ?f = "feed\<lparr>feed_cc := pkt_cc buf\<rparr>"
  let ?n = "length rest"
  let ?L = "length acc + ?n"
  have dr: "drop ?p buf = of_nat ?n # rest @ concat Ss @ fill" using buf by (simp add: pkt_payload_def)
  have pl: "payload buf = Suc (?n + length (concat Ss @ fill))"
    using length_pkt_payload [OF buf(1)] buf(4) by simp
  then have n: "?n \<le> 183" "?p + ?n \<le> 187" using payload_le [of buf] by auto
  have p0: "buf ! ?p = of_nat ?n" using drop_Cons_step [OF dr] by simp
  have un: "unat (of_nat ?n :: u8) = ?n" using n by (simp add: unat_of_nat)
  have n0: "of_nat ?n \<noteq> (0 :: u8)" using un buf(6) by auto
  have d1: "drop (?p + 1) buf = rest @ concat Ss @ fill" using drop_Cons_step [OF dr] by simp
  have d2: "drop (?p + (?n + 1)) buf = concat Ss @ fill"
    using drop_append_step [OF d1] by (simp add: ac_simps)
  have c: "length (secbuf feed) = 4096" "secbufp feed = length acc" "take (length acc) (secbuf feed) = acc"
    "seclen feed = ?L" "crc_val feed = NOT 0" "feed_cc feed = cc" "3 \<le> length acc"
    using col by (auto simp: collecting_def)
  let ?g = "?f\<lparr>secbuf := blit (secbuf feed) (length acc) rest, secbufp := ?L\<rparr>"
  have mc: "dvb_dmx_memcopy ?f (length acc) buf (?p + 1) ?n =
    Ret (?f\<lparr>secbuf := blit (secbuf feed) (length acc) rest\<rparr>)"
    using c n fit buf(1) d1 by (subst memcopy_Ret) simp_all
  have cfg: "feed_config ?g = feed_config feed" by simp
  have run: "running fs is ?g" using feed(1) running_config [OF cfg] by simp
  have lenS: "length (acc @ rest) = ?L" by simp
  have secS: "take ?L (secbuf ?g) = acc @ rest"
    using take_blit_end [of "length acc" rest "secbuf feed"] c fit by simp
  have gl: "length (secbuf ?g) = 4096" using c fit by simp
  obtain r f' u' where f': "dvb_dmx_swfilter_section_feed fs ?g u = Ret (r, f', u')"
    "section_done fs is (acc @ rest) ?g u f' u'"
    using section_feed_done [OF run, of "acc @ rest" u, unfolded lenS] feed(2) secS gl c by auto
  have cfg': "feed_config f' = feed_config feed" "length (secbuf f') = 4096"
    using f'(2) cfg by (simp_all add: section_done_def)
  have u': "u' = offer_all (check_crc feed) (cb_sec feed) (map ((!) fs) is) [acc @ rest] u"
    using section_done_offer [OF f'(2)] by simp
  have rest: "section_packet_rest fs ?f buf ?p u = Ret (0, f', u')"
    using c mc f'(1) p0 un buf(6)
    by (simp add: section_packet_rest_def section_packet_finish_def Let_def)
  have "dvb_dmx_swfilter_section_packet fs feed buf u = section_packet_loop fs f' buf (?p + (?n + 1)) u'"
    using buf(1,2,3) c p0 un n0 n rest pl
    by (simp add: dvb_dmx_swfilter_section_packet_def pkt_start_def pkt_cc_def Let_def)
  moreover have "running fs is f'" using feed(1) running_config [OF cfg'(1)] by simp
  ultimately show ?thesis
    using section_loop_offers [OF d2 buf(5,1), of fs "is" f' u'] feed(2) cfg' u'
      feed_config_eqD(3,4) [OF cfg'(1)] by (auto simp: offer_all_Cons [of _ _ _ "acc @ rest" Ss])
qed

section \<open>A stream of sections\<close>

text \<open>
  \<open>carried pkts Ss\<close>: the packets carry the sections, in order. A section has packets of its own, or
  several whole sections share a packet.
\<close>

inductive carried :: "bytes list \<Rightarrow> bytes list \<Rightarrow> bool" where
  carried_none: "carried [] []"
| carried_spanning: "packetised pkts S \<Longrightarrow> length S \<le> 4096 \<Longrightarrow> carried rest Ss \<Longrightarrow> carried (pkts @ rest) (S # Ss)"
| carried_whole: "length b = 188 \<Longrightarrow> pkt_start b \<Longrightarrow> pkt_payload b = 0 # concat Ss @ fill \<Longrightarrow> filled Ss fill \<Longrightarrow>
    carried rest Ts \<Longrightarrow> carried (b # rest) (Ss @ Ts)"

lemma feed_packets_append:
  "feed_packets demux i feed (as @ bs) u = kbind (feed_packets demux i feed as u) (\<lambda>(feed, u). feed_packets demux i feed bs u)"
  by (induction as arbitrary: feed u) (simp_all add: kbind_assoc case_prod_unfold)

lemma offer_all_append: "offer_all c cb fl (Ss @ Ts) u = offer_all c cb fl Ts (offer_all c cb fl Ss u)"
  by (simp add: offer_all_def)

lemma carried_offers:
  assumes "carried pkts Ss" "running (filters demux) is feed" "feed_type feed = DMX_TYPE_SEC" "length (secbuf feed) = 4096"
    "secbufp feed = 0" "\<forall>i\<in>set is. \<forall>S\<in>set Ss. covers (filters demux ! i) S"
    "reliable (check_crc feed) (cb_sec feed) (map ((!) (filters demux)) is) Ss"
  shows "\<exists>feed'. feed_packets demux i feed pkts u =
      Ret (feed', offer_all (check_crc feed) (cb_sec feed) (map ((!) (filters demux)) is) Ss u) \<and>
    feed_config feed' = feed_config feed \<and> length (secbuf feed') = 4096 \<and> secbufp feed' = 0"
  using assms
proof (induction arbitrary: feed u rule: carried.induct)
  case carried_none
  then show ?case by (simp add: offer_all_def)
next
  case (carried_spanning pkts S rest Ss)
  have rel: "reliable (check_crc feed) (cb_sec feed) (map ((!) (filters demux)) is) [S]"
    "reliable (check_crc feed) (cb_sec feed) (map ((!) (filters demux)) is) Ss"
    using carried_spanning.prems(6) reliable_Cons by blast+
  obtain g v where g: "feed_packets demux i feed pkts u = Ret (g, v)" "section_done (filters demux) is S feed u g v"
    using packetised_done [OF carried_spanning.hyps(1,2) carried_spanning.prems(3,4,2,1)] carried_spanning.prems(5) by fastforce
  have v: "v = offer_all (check_crc feed) (cb_sec feed) (map ((!) (filters demux)) is) [S] u" using section_done_offer [OF g(2)] .
  have cfg: "feed_config g = feed_config feed" "length (secbuf g) = 4096" "secbufp g = 0"
    using g(2) rel(1) by (auto simp: section_done_def reliable_def)
  note same = feed_config_eqD [OF cfg(1)] running_config [OF cfg(1)]
  show ?case
    using carried_spanning.IH [of g v] carried_spanning.prems(1,2,5) rel(2) cfg same g(1) v
    by (auto simp: feed_packets_append offer_all_Cons [of _ _ _ S Ss])
next
  case (carried_whole b Ss fill rest Ts)
  have rel: "reliable (check_crc feed) (cb_sec feed) (map ((!) (filters demux)) is) Ss"
    "reliable (check_crc feed) (cb_sec feed) (map ((!) (filters demux)) is) Ts"
    using carried_whole.prems(6) by (auto simp: reliable_def)
  obtain g where g: "dvb_dmx_swfilter_section_packet (filters demux) feed b u =
      Ret (0, g, offer_all (check_crc feed) (cb_sec feed) (map ((!) (filters demux)) is) Ss u)"
    "feed_config g = feed_config feed" "length (secbuf g) = 4096" "secbufp g = 0"
    using section_packet_offers [OF carried_whole.hyps(1-4) carried_whole.prems(1,3), of u] carried_whole.prems(4,5) rel(1) by auto
  note same = feed_config_eqD [OF g(2)] running_config [OF g(2)]
  have "is_filtering feed" using carried_whole.prems(1) by (simp add: running_def)
  note first = packet_type_section [OF carried_whole.prems(2) this g(1), of i]
  show ?case
    using carried_whole.IH [of g "offer_all (check_crc feed) (cb_sec feed) (map ((!) (filters demux)) is) Ss u"]
      carried_whole.prems(1,2,5) rel(2) g(2-4) same first
    by (auto simp: offer_all_append)
qed

section \<open>A concrete demultiplexer for the examples\<close>

text \<open>
  One section feed with two filters: the first wants the table identifier 2, the second every
  section. The callback appends what it receives to a log.
\<close>

definition ts_packet :: "bool \<Rightarrow> u8 \<Rightarrow> bytes \<Rightarrow> bytes" where
  "ts_packet start cc pl = [0x47, if start then 0x40 else 0, 0, 0x10 + cc] @ pl"

definition log_cb :: "(nat option \<times> bytes) list feed_cb" where
  "log_cb b1 b2 priv u = (0, u @ [(priv, b1 @ b2)])"

definition demo_filter :: "u8 \<Rightarrow> nat \<Rightarrow> nat option \<Rightarrow> dvb_demux_filter" where
  "demo_filter m i n =
     \<lparr>filter_value = 2 # replicate 17 0, filter_mask = m # replicate 17 0, filter_mode = replicate 18 0xff,
      filter_priv = Some i, maskandmode = m # replicate 17 0, maskandnotmode = replicate 18 0,
      doneq = False, filter_next = n, filter_feed = Some 0, filter_index = i,
      filter_state = DMX_STATE_READY, filter_type = DMX_TYPE_SEC\<rparr>"

definition demo_feed :: "(nat option \<times> bytes) list dvb_demux_feed" where
  "demo_feed =
     \<lparr>is_filtering = True, feed_priv = None, check_crc = True, crc_val = 0, secbuf = replicate 4096 0,
      secbufp = 0, seclen = 0, cb_ts = log_cb, cb_sec = log_cb, feed_type = DMX_TYPE_SEC,
      feed_state = DMX_STATE_GO, feed_pid = 0, feed_buffer_size = 0, feed_descramble = False,
      feed_timeout = 0, feed_filter = Some 0, cb_length = 0, ts_type = 0, feed_pes_type = 0,
      feed_cc = 0, peslen = 0\<rparr>"

definition demo_demux :: "(nat option \<times> bytes) list dvb_demux" where
  "demo_demux =
     \<lparr>filters = [demo_filter 0xff 0 (Some 1), demo_filter 0 1 None], feeds = [demo_feed], dmx_users = 0, demux_users = 0,
      frontend_list = [], demux_frontend = None, pesfilter = replicate 20 None,
      demux_pids = replicate 20 0xffff, playing = False, recording = False, feed_list = [0],
      tsbuf = replicate 204 0, tsbufp = 0, demux_mutex = False, start_feed = None, stop_feed = None,
      write_to_decoder = None\<rparr>"

lemmas demo_defs = demo_filter_def demo_feed_def demo_demux_def

lemma demo_running: "running (filters demo_demux) [0, 1] demo_feed"
  by (simp add: running_def demo_defs)

lemma demo_feed_simps [simp]:
  "length (secbuf demo_feed) = 4096" "secbufp demo_feed = 0" "feed_type demo_feed = DMX_TYPE_SEC"
  "is_filtering demo_feed" "check_crc demo_feed" "cb_sec demo_feed = log_cb"
  by (simp_all add: demo_feed_def)

lemma demo_filters [simp]:
  "map ((!) (filters demo_demux)) [0, 1] = [demo_filter 0xff 0 (Some 1), demo_filter 0 1 None]"
  by (simp add: demo_demux_def)

lemma demo_section_matches:
  "S \<noteq> [] \<Longrightarrow> section_matches (demo_filter m i n) S \<longleftrightarrow> m AND (2 XOR hd S) = 0"
proof -
  assume "S \<noteq> []"
  have "(\<forall>j<18. (m # replicate 17 0) ! j AND ((2 # replicate 17 0) ! j XOR S ! j) = 0) \<longleftrightarrow> m AND (2 XOR S ! 0) = 0"
    by (auto simp: nth_Cons split: nat.split)
  then show ?thesis using \<open>S \<noteq> []\<close> by (simp add: section_matches_def demo_filter_def hd_conv_nth)
qed

lemma demo_covers: "S \<noteq> [] \<Longrightarrow> i \<in> {0, 1} \<Longrightarrow> covers (filters demo_demux ! i) S"
  by (auto simp: covers_def demo_defs nth_Cons split: nat.split)

section \<open>Properties\<close>

text \<open>
  C2. A section that is spread over several transport packets is reassembled and handed to the
  filters it matches exactly once: for every packetisation (the first packet announces the
  section at its start, the others follow with consecutive continuity counters, adaptation fields
  allowed) of a section that fits the buffer, the callbacks see precisely the section bytes if
  its checksum is right and nothing otherwise, and after a successful delivery the feed is ready
  for the next section.
\<close>

theorem section_reassembly:
  assumes "packetised pkts S" "length S \<le> 4096" "length (secbuf feed) = 4096" "secbufp feed = 0"
    "feed_type feed = DMX_TYPE_SEC" "running (filters demux) is feed"
    "\<forall>i\<in>set is. covers (filters demux ! i) S"
  shows "\<exists>feed' u'. feed_packets demux i feed pkts u = Ret (feed', u') \<and>
    section_done (filters demux) is S feed u feed' u'"
  using assms by (rule packetised_done)

theorem section_reassembly_witness:
  "\<exists>feed' u'. feed_packets demo_demux 0 demo_feed
      [ts_packet True 0 (0 # [2, 0, 197] @ replicate 180 7),
       ts_packet False 1 (replicate 17 7 @ replicate 167 0xff)] [] = Ret (feed', u') \<and>
    u' = [(Some 0, [2, 0, 197] @ replicate 197 7), (Some 1, [2, 0, 197] @ replicate 197 7)] \<and>
    secbufp feed' = 0"
proof -
  let ?pkts = "[ts_packet True 0 (0 # [2, 0, 197] @ replicate 180 7),
       ts_packet False 1 (replicate 17 7 @ replicate 167 0xff)]"
  let ?S = "[2, 0, 197] @ replicate 197 7 :: bytes"
  have S: "?S \<noteq> []" by simp
  have pk: "packetised ?pkts ?S"
    by (simp add: ts_packet_def pkt_payload_def payload_def pkt_start_def pkt_cc_def section_length_def)
  have cov: "\<forall>i\<in>set [0, 1]. covers (filters demo_demux ! i) ?S" using demo_covers [OF S] by simp
  have "length ?S \<le> 4096" by simp
  then obtain feed' u' where *: "feed_packets demo_demux 0 demo_feed ?pkts [] = Ret (feed', u')"
    "section_done (filters demo_demux) [0, 1] ?S demo_feed [] feed' u'"
    using section_reassembly [OF pk _ _ _ _ demo_running cov, of 0 "[]"] demo_feed_simps by blast
  have "section_valid True ?S" by (simp add: section_valid_def)
  moreover have "offer log_cb [demo_filter 0xff 0 (Some 1), demo_filter 0 1 None] ?S [] =
      (0, [(Some 0, ?S), (Some 1, ?S)])"
    using demo_section_matches [OF S] by (simp add: log_cb_def) (simp add: demo_filter_def)
  ultimately show ?thesis
    using * by (simp only: section_done_def demo_feed_simps demo_filters) simp
qed

text \<open>
  C10. Every whole section of a packet is offered to the filters, in order: first the section
  whose end the pointer field announces and whose beginning came in earlier packets, then the
  sections that lie completely in the packet, up to the stuffing bytes. A section with a wrong
  checksum is skipped and does not disturb the others.
\<close>

theorem section_packet_delivers_all:
  assumes "collecting acc (length acc + length rest) cc feed" "length buf = 188" "pkt_start buf"
    "pkt_cc buf = (cc + 1) AND 0x0f" "pkt_payload buf = of_nat (length rest) # rest @ concat Ss @ fill"
    "filled Ss fill" "rest \<noteq> []" "length acc + length rest \<le> 4096" "running fs is feed"
    "\<forall>i\<in>set is. \<forall>S\<in>insert (acc @ rest) (set Ss). covers (fs ! i) S"
  shows "\<exists>feed'. dvb_dmx_swfilter_section_packet fs feed buf u =
      Ret (0, feed', offer_all (check_crc feed) (cb_sec feed) (map ((!) fs) is) ((acc @ rest) # Ss) u)"
  using section_packet_tail_offers [OF assms, of u] by blast

theorem section_packet_delivers_all_witness:
  "\<exists>feed'. dvb_dmx_swfilter_section_packet (filters demo_demux)
      (demo_feed\<lparr>secbuf := [2, 0, 2] @ replicate 4093 0, secbufp := 3, seclen := 5, crc_val := NOT 0\<rparr>)
      (ts_packet True 1 ([2, 8, 9] @ [3, 0, 1, 4] @ [2, 0, 0] @ replicate 174 0xff)) [] =
    Ret (0, feed', [(Some 0, [2, 0, 2, 8, 9]), (Some 1, [2, 0, 2, 8, 9]), (Some 1, [3, 0, 1, 4]),
      (Some 0, [2, 0, 0]), (Some 1, [2, 0, 0])])"
proof -
  let ?feed = "demo_feed\<lparr>secbuf := [2, 0, 2] @ replicate 4093 0, secbufp := 3, seclen := 5, crc_val := NOT 0\<rparr>"
  let ?buf = "ts_packet True 1 ([2, 8, 9] @ [3, 0, 1, 4] @ [2, 0, 0] @ replicate 174 0xff)"
  let ?Ss = "[[3, 0, 1, 4], [2, 0, 0]] :: bytes list"
  have col: "collecting [2, 0, 2] (length [2, 0, 2 :: u8] + length [8, 9 :: u8]) 0 ?feed"
    by (simp add: collecting_def demo_feed_def)
  have pay: "pkt_payload ?buf = of_nat (length [8, 9 :: u8]) # [8, 9] @ concat ?Ss @ replicate 174 0xff"
    and buf: "length ?buf = 188" "pkt_start ?buf" "pkt_cc ?buf = (0 + 1) AND 0x0f"
    by (simp_all add: ts_packet_def pkt_payload_def payload_def pkt_start_def pkt_cc_def)
  have fill: "filled ?Ss (replicate 174 0xff)" by (simp add: filled_def section_length_def)
  have run: "running (filters demo_demux) [0, 1] ?feed"
    using demo_running running_config [of ?feed demo_feed] by simp
  have cov: "\<forall>i\<in>set [0, 1]. \<forall>S\<in>insert ([2, 0, 2] @ [8, 9]) (set ?Ss). covers (filters demo_demux ! i) S"
    using demo_covers by auto
  have "[8, 9 :: u8] \<noteq> []" "length [2, 0, 2 :: u8] + length [8, 9 :: u8] \<le> 4096" by simp_all
  then have "\<exists>feed'. dvb_dmx_swfilter_section_packet (filters demo_demux) ?feed ?buf [] =
      Ret (0, feed', offer_all (check_crc ?feed) (cb_sec ?feed) (map ((!) (filters demo_demux)) [0, 1])
        (([2, 0, 2] @ [8, 9]) # ?Ss) [])"
    using section_packet_delivers_all [OF col buf pay fill _ _ run cov] by blast
  then show ?thesis
    unfolding demo_filters
    by (simp add: offer_all_def section_valid_def demo_section_matches log_cb_def)
      (simp add: demo_filter_def)
qed

text \<open>
  C30. A section that announces 4097 or 4098 bytes and continues in the next packet overruns the
  4096 byte buffer: the test against 4096 is missing where the header of such a section is read,
  so its last packet is copied over the end of the buffer. Every packetisation of such a section
  makes the routine fault.
\<close>

theorem oversize_section_overruns_buffer:
  assumes "packetised pkts S" "4096 < length S" "length (secbuf feed) = 4096" "secbufp feed = 0"
    "feed_type feed = DMX_TYPE_SEC" "is_filtering feed"
  shows "feed_packets demux i feed pkts u = Oops"
  using assms by (rule packetised_overrun)

theorem oversize_section_overruns_buffer_witness:
  "feed_packets demo_demux 0 demo_feed
     (ts_packet True 0 (0 # [2, 0x0f, 0xff] @ replicate 180 7) #
      map (\<lambda>c. ts_packet False c (replicate 184 7))
        [1, 2, 3, 4, 5, 6, 7, 8, 9, 10, 11, 12, 13, 14, 15, 0, 1, 2, 3, 4, 5, 6]) [] = Oops"
proof -
  have "packetised
     (ts_packet True 0 (0 # [2, 0x0f, 0xff] @ replicate 180 7) #
      map (\<lambda>c. ts_packet False c (replicate 184 7))
        [1, 2, 3, 4, 5, 6, 7, 8, 9, 10, 11, 12, 13, 14, 15, 0, 1, 2, 3, 4, 5, 6])
     ([2, 0x0f, 0xff] @ replicate 4095 7)"
    by (simp add: ts_packet_def pkt_payload_def payload_def pkt_start_def pkt_cc_def section_length_def)
  then show ?thesis
    by (rule oversize_section_overruns_buffer) simp_all
qed

text \<open>
  C31. The fill counter is not reset when a section begins that continues in the next packet, but
  increased. So when the rest of a section was lost, the next section is lost too, although both
  of its packets arrive: no callback sees it. The theorem covers every pair of sections in which
  the second is shorter than the two first parts together.
\<close>

theorem interrupted_section_loses_next:
  assumes "packetised (b0 # bs0) S0" "packetised [b1, b2] S1"
    "length S1 < (payload b0 - 1) + (payload b1 - 1)"
    "length (secbuf feed) = 4096" "feed_type feed = DMX_TYPE_SEC" "is_filtering feed"
  shows "\<exists>feed'. feed_packets demux i feed [b0, b1, b2] u = Ret (feed', u)"
  using assms by (rule stale_section_lost)

theorem interrupted_section_loses_next_witness:
  "\<exists>feed'. feed_packets demo_demux 0 demo_feed
     [ts_packet True 0 (0 # [2, 0, 197] @ replicate 180 7),
      ts_packet True 1 (0 # [2, 0, 197] @ replicate 180 8),
      ts_packet False 2 (replicate 17 8 @ replicate 167 0xff)] [] = Ret (feed', [])"
proof -
  have pk: "packetised [ts_packet True 0 (0 # [2, 0, 197] @ replicate 180 7),
       ts_packet False 1 (replicate 17 7 @ replicate 167 0xff)] ([2, 0, 197] @ replicate 197 7)"
    "packetised [ts_packet True 1 (0 # [2, 0, 197] @ replicate 180 8),
      ts_packet False 2 (replicate 17 8 @ replicate 167 0xff)] ([2, 0, 197] @ replicate 197 8)"
    by (simp_all add: ts_packet_def pkt_payload_def payload_def pkt_start_def pkt_cc_def section_length_def)
  show ?thesis
    by (rule interrupted_section_loses_next [OF pk]) (simp_all add: ts_packet_def payload_def)
qed

text \<open>
  C8. Memory safety of the section path: for any 188 bytes and any feed whose announced length is
  within the buffer and whose filter chain ends, the routine for one packet returns (it neither
  faults nor loops), keeps the buffer and the configuration of the feed, and leaves an announced
  length above 4096 on success only if the packet holds the header of such a section.
\<close>

theorem section_packet_memory_safe:
  assumes "length (secbuf feed) = 4096" "seclen feed \<le> 4096"
    "filter_path fs (feed_filter feed) is" "length buf = 188"
  shows "\<exists>r feed' u'. dvb_dmx_swfilter_section_packet fs feed buf u = Ret (r, feed', u') \<and>
    length (secbuf feed') = 4096 \<and> feed_config feed' = feed_config feed \<and>
    (seclen feed' \<le> 4096 \<or> r < 0 \<or> oversize_header buf (seclen feed'))"
proof -
  have "secbuf_inv fs feed" using assms by (auto simp: secbuf_inv_def chain_ok_def)
  from section_packet_ok [OF this assms(4), of u] assms(1) show ?thesis by (simp add: section_step_ok_def)
qed

theorem section_packet_memory_safe_witness:
  "\<exists>r feed' u'. dvb_dmx_swfilter_section_packet (filters demo_demux) demo_feed (replicate 188 0x77) [] =
    Ret (r, feed', u')"
proof -
  have "filter_path (filters demo_demux) (feed_filter demo_feed) [0, 1]" by (simp add: demo_defs)
  then show ?thesis
    using section_packet_memory_safe [of demo_feed "filters demo_demux" "[0, 1]" "replicate 188 0x77" "[]"]
    by (auto simp: demo_feed_def)
qed

end
