(* ===== verification/DVB_Filter.thy ===== *)
theory DVB_Filter
  imports DVB_Reassembly
begin

text \<open>
  The parts of \<^verbatim>\<open>dvb-core/dvb_filter.c\<close> that are compiled: the conversion of PES packets into
  transport packets and the parser of AC3 headers. The conversion is shown to be inverse to the
  payload extraction of the demultiplexer; two faults of the AC3 parser are shown.
\<close>

section \<open>The code\<close>

subsection \<open>AC3 headers\<close>

definition freq :: "nat list" where
  "freq = [441, 480, 320, 0]"

definition ac3_bitrates :: "nat list" where
  "ac3_bitrates = [32, 40, 48, 56, 64, 80, 96, 112, 128, 160, 192, 224, 256, 320, 384, 448, 512, 576, 640,
     0, 0, 0, 0, 0, 0, 0, 0, 0, 0, 0, 0, 0]"

definition ac3_freq :: "nat list" where
  "ac3_freq = [480, 441, 320, 0]"

definition ac3_frames :: "nat list list" where
  "ac3_frames =
     [[64, 80, 96, 112, 128, 160, 192, 224, 256, 320, 384, 448, 512, 640, 768, 896, 1024,
       1152, 1280, 0, 0, 0, 0, 0, 0, 0, 0, 0, 0, 0, 0, 0],
      [69, 87, 104, 121, 139, 174, 208, 243, 278, 348, 417, 487, 557, 696, 835, 975, 1114,
       1253, 1393, 0, 0, 0, 0, 0, 0, 0, 0, 0, 0, 0, 0, 0],
      [96, 120, 144, 168, 192, 240, 288, 336, 384, 480, 576, 672, 768, 960, 1152, 1344,
       1536, 1728, 1920, 0, 0, 0, 0, 0, 0, 0, 0, 0, 0, 0, 0, 0]]"

record dvb_audio_info =
  ai_layer :: int
  ai_bit_rate :: nat
  ai_frequency :: nat
  ai_off :: nat
  ai_framesize :: nat

text \<open>
  The search for the sync word, from offset \<open>c\<close> on in \<open>n\<close> remaining positions; the second byte is
  read only behind a matching first one.
\<close>

fun ac3_sync :: "bytes \<Rightarrow> nat \<Rightarrow> nat \<Rightarrow> nat option kres" where
  "ac3_sync mbuf c 0 = Ret None"
| "ac3_sync mbuf c (Suc n) =
     (if c \<ge> length mbuf then Oops
      else if mbuf ! c = 0x0b
      then
        (if c + 1 \<ge> length mbuf then Oops
         else if mbuf ! (c + 1) = 0x77 then Ret (Some c) else ac3_sync mbuf (c + 1) n)
      else ac3_sync mbuf (c + 1) n)"

definition dvb_filter_get_ac3info ::
  "bytes \<Rightarrow> nat \<Rightarrow> dvb_audio_info \<Rightarrow> (int \<times> dvb_audio_info) kres" where
  "dvb_filter_get_ac3info mbuf count ai =
     kbind (ac3_sync mbuf 0 count) (\<lambda>found.
       case found of
         None \<Rightarrow> Ret (- 1, ai)
       | Some c \<Rightarrow>
           let ai = ai\<lparr>ai_off := c\<rparr>
           in if c + 5 \<ge> count then Ret (- 1, ai)
              else
                let ai = ai\<lparr>ai_layer := 0\<rparr>;
                    h = mbuf ! (c + 4);
                    frame = unat (h AND 0x3f);
                    ai = ai\<lparr>ai_bit_rate := ac3_bitrates ! (frame div 2) * 1000\<rparr>;
                    fr = unat (drop_bit 6 (h AND 0xc0));
                    ai = ai\<lparr>ai_frequency := freq ! fr * 100\<rparr>
                in if fr \<ge> length ac3_frames then Oops
                   else
                     let size = ac3_frames ! fr ! (frame div 2);
                         size = (if odd frame \<and> fr = 1 then size + 1 else size)
                     in Ret (0, ai\<lparr>ai_framesize := size * 2\<rparr>))"

subsection \<open>PES to TS\<close>

record 'u dvb_filter_pes2ts =
  p2ts_buf :: bytes
  p2ts_cc :: u8
  p2ts_cb :: "nat option \<Rightarrow> bytes \<Rightarrow> 'u \<Rightarrow> int \<times> 'u"
  p2ts_priv :: "nat option"

definition dvb_filter_pes2ts_init ::
  "'u dvb_filter_pes2ts \<Rightarrow> u16 \<Rightarrow> (nat option \<Rightarrow> bytes \<Rightarrow> 'u \<Rightarrow> int \<times> 'u) \<Rightarrow> nat option \<Rightarrow> 'u dvb_filter_pes2ts" where
  "dvb_filter_pes2ts_init p2ts pid cb priv =
     p2ts\<lparr>p2ts_buf := (p2ts_buf p2ts)[0 := 0x47, 1 := ucast (drop_bit 8 pid), 2 := ucast (pid AND 0xff)],
       p2ts_cc := 0, p2ts_cb := cb, p2ts_priv := priv\<rparr>"

text \<open>The loop over whole payloads; a result other than 0 ends the conversion.\<close>

function pes2ts_loop ::
  "'u dvb_filter_pes2ts \<Rightarrow> bytes \<Rightarrow> 'u \<Rightarrow> int \<times> 'u dvb_filter_pes2ts \<times> bytes \<times> 'u" where
  "pes2ts_loop p2ts pes u =
     (if length pes \<ge> 184
      then
        let buf = (p2ts_buf p2ts)[3 := 0x10 OR (p2ts_cc p2ts AND 0x0f)];
            p2ts = p2ts\<lparr>p2ts_buf := blit buf 4 (take 184 pes), p2ts_cc := p2ts_cc p2ts + 1\<rparr>;
            (ret, u) = p2ts_cb p2ts (p2ts_priv p2ts) (p2ts_buf p2ts) u
        in if ret \<noteq> 0 then (ret, p2ts, pes, u)
           else
             pes2ts_loop (p2ts\<lparr>p2ts_buf := (p2ts_buf p2ts)[1 := p2ts_buf p2ts ! 1 AND NOT 0x40]\<rparr>) (drop 184 pes) u
      else (0, p2ts, pes, u))"
  by pat_completeness auto
termination
  by (relation "measure (\<lambda>(p2ts, pes, u). length pes)") auto

declare pes2ts_loop.simps [simp del]

text \<open>The adaptation field that fills the last packet: a flag byte of 0, then bytes of \<^verbatim>\<open>0xff\<close>.\<close>

definition pes2ts_pad :: "bytes \<Rightarrow> nat \<Rightarrow> bytes" where
  "pes2ts_pad buf rest =
     (if rest \<noteq> 0
      then
        let buf = buf[5 := 0x00]
        in if rest - 1 \<noteq> 0 then blit buf 6 (replicate (rest - 1) 0xff) else buf
      else buf)"

definition dvb_filter_pes2ts ::
  "'u dvb_filter_pes2ts \<Rightarrow> bytes \<Rightarrow> 'u \<Rightarrow> int \<times> 'u dvb_filter_pes2ts \<times> 'u" where
  "dvb_filter_pes2ts p2ts pes u =
     (let p2ts = p2ts\<lparr>p2ts_buf := (p2ts_buf p2ts)[1 := p2ts_buf p2ts ! 1 OR 0x40]\<rparr>;
          (ret, p2ts, pes, u) = pes2ts_loop p2ts pes u
      in if ret \<noteq> 0 then (ret, p2ts, u)
         else if pes = [] then (0, p2ts, u)
         else
           let buf = (p2ts_buf p2ts)[3 := 0x30 OR (p2ts_cc p2ts AND 0x0f)];
               rest = 183 - length pes;
               buf = pes2ts_pad buf rest;
               buf = buf[4 := of_nat rest];
               p2ts = p2ts\<lparr>p2ts_buf := blit buf (5 + rest) pes, p2ts_cc := p2ts_cc p2ts + 1\<rparr>;
               (ret, u) = p2ts_cb p2ts (p2ts_priv p2ts) (p2ts_buf p2ts) u
           in (ret, p2ts, u))"

section \<open>The packets of a conversion\<close>

text \<open>
  The packets as a function of the header bytes, of the flag for the start of the PES packet and of
  the counter.
\<close>

function pes_packets :: "u8 \<Rightarrow> u8 \<Rightarrow> bool \<Rightarrow> u8 \<Rightarrow> bytes \<Rightarrow> bytes list" where
  "pes_packets b1 b2 start cc pes =
     (let h1 = (if start then b1 OR 0x40 else b1 AND NOT 0x40)
      in if length pes \<ge> 184
         then ([0x47, h1, b2, 0x10 OR (cc AND 0x0f)] @ take 184 pes) #
           pes_packets b1 b2 False (cc + 1) (drop 184 pes)
         else if pes = [] then []
         else
           let rest = 183 - length pes
           in [[0x47, h1, b2, 0x30 OR (cc AND 0x0f), of_nat rest] @
             (if rest = 0 then [] else 0 # replicate (rest - 1) 0xff) @ pes])"
  by pat_completeness auto
termination
  by (relation "measure (\<lambda>(b1, b2, start, cc, pes). length pes)") auto

declare pes_packets.simps [simp del]

lemma header_bits:
  "(0x10 OR (cc AND 0x0f)) AND 0x10 \<noteq> 0" "(0x10 OR (cc AND 0x0f)) AND 0x20 = 0"
  "(0x30 OR (cc AND 0x0f)) AND 0x10 \<noteq> 0" "(0x30 OR (cc AND 0x0f)) AND 0x20 \<noteq> 0"
  "(0x10 OR (cc AND 0x0f)) AND 0x0f = cc AND 0x0f" "(0x30 OR (cc AND 0x0f)) AND 0x0f = cc AND 0x0f"
  "(b OR 0x40) AND 0x40 \<noteq> 0" "(b AND NOT 0x40) AND 0x40 = 0"
  "(b OR 0x40) AND 0x1f = b AND 0x1f" "(b AND NOT 0x40) AND 0x1f = b AND 0x1f"
  "(b OR 0x40) AND NOT 0x40 = b AND NOT 0x40" "(b AND NOT 0x40) AND NOT 0x40 = b AND NOT 0x40"
  for b cc :: u8
  by (simp_all add: bit.conj_disj_distrib2 and.assoc)

lemma uint_nibble: "uint (cc AND 0x0f) = uint cc mod 16" for cc :: u8
proof -
  have "uint (cc AND 0x0f) = uint cc AND 15" by (simp add: unsigned_and_eq)
  also have "\<dots> = take_bit 4 (uint cc)" by (simp add: take_bit_eq_mask mask_eq_exp_minus_1)
  finally show ?thesis by (simp add: take_bit_eq_mod)
qed

definition head_byte :: "u8 \<Rightarrow> bool \<Rightarrow> u8" where
  "head_byte b1 start = (if start then b1 OR 0x40 else b1 AND NOT 0x40)"

lemma header_byte_simps:
  "pkt_start (0x47 # head_byte b1 start # xs) \<longleftrightarrow> start"
  "ts_pid (0x47 # head_byte b1 start # b2 # xs) = push_bit 8 (unat (b1 AND 0x1f)) + unat b2"
  "head_byte b1 start AND NOT 0x40 = head_byte b1 False"
  "head_byte b1 start OR 0x40 = b1 OR 0x40"
  by (auto simp: pkt_start_def ts_pid_def head_byte_def bit.conj_disj_distrib2 bit.disj_conj_distrib2 and.assoc)

lemma full_packet:
  assumes "length pl = 184" and "p = [0x47, h1, b2, 0x10 OR (cc AND 0x0f)] @ pl"
  shows "length p = 188" "pkt_payload p = pl" "pkt_cc p = uint cc mod 16"
proof -
  have "payload p = 184" using assms(2) by (simp add: payload_def header_bits)
  then show "length p = 188" "pkt_payload p = pl" using assms by (simp_all add: pkt_payload_def)
  show "pkt_cc p = uint cc mod 16" using assms(2) by (simp add: pkt_cc_def header_bits uint_nibble)
qed

lemma short_packet:
  assumes "pl \<noteq> []" "length pl < 184" and "rest = 183 - length pl"
    and "p = [0x47, h1, b2, 0x30 OR (cc AND 0x0f), of_nat rest] @
      (if rest = 0 then [] else 0 # replicate (rest - 1) 0xff) @ pl"
  shows "length p = 188" "pkt_payload p = pl" "pkt_cc p = uint cc mod 16"
proof -
  have "unat (of_nat rest :: u8) = rest" using assms(3) by (simp add: unat_of_nat)
  moreover have p4: "p ! 4 = of_nat rest" "p ! 3 = 0x30 OR (cc AND 0x0f)" using assms(4) by simp_all
  moreover have "\<not> 183 < rest" "184 - 1 - rest = length pl" using assms(2,3) by auto
  ultimately have n: "payload p = length pl" unfolding payload_def by (simp add: header_bits)
  show len: "length p = 188" using assms by (cases "rest = 0") simp_all
  show "pkt_payload p = pl"
  proof -
    let ?pre = "[0x47, h1, b2, 0x30 OR (cc AND 0x0f), of_nat rest] @
      (if rest = 0 then [] else 0 # replicate (rest - 1) 0xff)"
    have pre: "p = ?pre @ pl" using assms(4) by simp
    then have "length ?pre = 188 - payload p" using len n by (simp only: length_append)
    then have "188 - payload p = length ?pre" by (rule sym)
    then show ?thesis unfolding pkt_payload_def using pre by (metis append_eq_conv_conj)
  qed
  show "pkt_cc p = uint cc mod 16" using p4 by (simp add: pkt_cc_def header_bits uint_nibble)
qed

lemma pes_packets_correct:
  "concat (map pkt_payload (pes_packets b1 b2 start cc pes)) = pes \<and>
   (\<forall>p\<in>set (pes_packets b1 b2 start cc pes). length p = 188 \<and> hd p = 0x47 \<and>
     ts_pid p = push_bit 8 (unat (b1 AND 0x1f)) + unat b2) \<and>
   map pkt_cc (pes_packets b1 b2 start cc pes) =
     map (\<lambda>k. (uint cc + int k) mod 16) [0..<length (pes_packets b1 b2 start cc pes)] \<and>
   map pkt_start (pes_packets b1 b2 start cc pes) =
     (if pes = [] then [] else start # replicate (length (pes_packets b1 b2 start cc pes) - 1) False)"
proof (induction "length pes" arbitrary: start cc pes rule: less_induct)
  case less
  let ?h = "head_byte b1 start"
  consider "184 \<le> length pes" | "pes = []" | "pes \<noteq> []" "length pes < 184" by linarith
  then show ?case
  proof cases
    case 1
    let ?p = "[0x47, ?h, b2, 0x10 OR (cc AND 0x0f)] @ take 184 pes"
    let ?ps = "pes_packets b1 b2 False (cc + 1) (drop 184 pes)"
    have eq: "pes_packets b1 b2 start cc pes = ?p # ?ps"
      using 1 by (subst pes_packets.simps) (simp add: head_byte_def)
    have "length (drop 184 pes) < length pes" using 1 by simp
    note IH = less.hyps [OF this, of False "cc + 1"]
    have p: "length ?p = 188" "pkt_payload ?p = take 184 pes" "pkt_cc ?p = uint cc mod 16"
      using full_packet [of "take 184 pes" ?p ?h b2 cc] 1 by simp_all
    have cc: "(uint (cc + 1) + int k) mod 16 = (uint cc + int (Suc k)) mod 16" for k
    proof -
      have "uint (cc + 1) mod 16 = (uint cc + 1) mod 16"
        by (simp add: uint_word_ariths mod_mod_cancel)
      then show ?thesis by (metis (no_types, lifting) add.assoc add.commute mod_add_left_eq of_nat_Suc)
    qed
    have ne: "pes \<noteq> []" using 1 by auto
    have ccs: "map (\<lambda>k. (uint cc + int k) mod 16) [0..<length (?p # ?ps)] =
        uint cc mod 16 # map (\<lambda>k. (uint (cc + 1) + int k) mod 16) [0..<length ?ps]"
      unfolding cc by (simp add: upt_rec [of 0] map_Suc_upt [symmetric] del: upt_Suc)
    have empty: "?ps = []" if "drop 184 pes = []" using that by (subst pes_packets.simps) simp
    show ?thesis unfolding eq
    proof (intro conjI)
      show "concat (map pkt_payload (?p # ?ps)) = pes" using IH p(2) by simp
      show "\<forall>q\<in>set (?p # ?ps). length q = 188 \<and> hd q = 0x47 \<and> ts_pid q = push_bit 8 (unat (b1 AND 0x1f)) + unat b2"
        using IH p(1) header_byte_simps(2) by simp
      show "map pkt_cc (?p # ?ps) = map (\<lambda>k. (uint cc + int k) mod 16) [0..<length (?p # ?ps)]"
        unfolding ccs using IH p(3) by simp
      show "map pkt_start (?p # ?ps) = (if pes = [] then [] else start # replicate (length (?p # ?ps) - 1) False)"
        using IH ne empty header_byte_simps(1) by (cases "drop 184 pes = []"; cases ?ps) simp_all
    qed
  next
    case 2
    then show ?thesis by (simp add: pes_packets.simps)
  next
    case 3
    let ?rest = "183 - length pes"
    let ?p = "[0x47, ?h, b2, 0x30 OR (cc AND 0x0f), of_nat ?rest] @
      (if ?rest = 0 then [] else 0 # replicate (?rest - 1) 0xff) @ pes"
    have eq: "pes_packets b1 b2 start cc pes = [?p]"
      using 3 by (subst pes_packets.simps) (simp add: head_byte_def Let_def)
    show ?thesis
      using 3 short_packet [OF 3 refl refl, of ?h b2 cc] unfolding eq by (simp add: header_byte_simps)
  qed
qed

section \<open>The conversion produces these packets\<close>

definition collect_cb :: "nat option \<Rightarrow> bytes \<Rightarrow> bytes list \<Rightarrow> int \<times> bytes list" where
  "collect_cb priv b u = (0, u @ [b])"

definition pes2ts_ready :: "u8 \<Rightarrow> u8 \<Rightarrow> bool \<Rightarrow> bytes list dvb_filter_pes2ts \<Rightarrow> bool" where
  "pes2ts_ready b1 b2 start p \<longleftrightarrow> p2ts_cb p = collect_cb \<and> length (p2ts_buf p) = 188 \<and>
     take 3 (p2ts_buf p) = [0x47, head_byte b1 start, b2]"

lemma header_update:
  assumes "take 3 b = [x, y, z]" and "length b = 188"
  shows "b ! 1 = y" "b[1 := w] = [x, w, z] @ drop 3 b" "b[3 := v] = [x, y, z, v] @ drop 4 b"
proof -
  obtain a0 a1 a2 a3 r where "b = a0 # a1 # a2 # a3 # r"
    using assms(2) by (auto simp: length_Suc_conv numeral_eq_Suc)
  with assms(1) show "b ! 1 = y" "b[1 := w] = [x, w, z] @ drop 3 b" "b[3 := v] = [x, y, z, v] @ drop 4 b"
    by (simp_all add: numeral_eq_Suc)
qed

lemma pes2ts_loop_packets:
  assumes "pes2ts_ready b1 b2 start p"
  shows "\<exists>p' pes' u' start'. pes2ts_loop p pes u = (0, p', pes', u') \<and> pes2ts_ready b1 b2 start' p' \<and>
    length pes' < 184 \<and>
    u' @ pes_packets b1 b2 start' (p2ts_cc p') pes' = u @ pes_packets b1 b2 start (p2ts_cc p) pes"
  using assms
proof (induction "length pes" arbitrary: p pes u start rule: less_induct)
  case less
  show ?case
  proof (cases "184 \<le> length pes")
    case False
    then have "pes2ts_loop p pes u = (0, p, pes, u)" by (subst pes2ts_loop.simps) simp
    then show ?thesis using less.prems False by auto
  next
    case True
    let ?h = "head_byte b1 start"
    let ?pkt = "[0x47, ?h, b2, 0x10 OR (p2ts_cc p AND 0x0f)] @ take 184 pes"
    let ?q = "p\<lparr>p2ts_cc := p2ts_cc p + 1,
      p2ts_buf := [0x47, head_byte b1 False, b2, 0x10 OR (p2ts_cc p AND 0x0f)] @ take 184 pes\<rparr>"
    have b: "length (p2ts_buf p) = 188" "take 3 (p2ts_buf p) = [0x47, ?h, b2]" "p2ts_cb p = collect_cb"
      using less.prems by (simp_all add: pes2ts_ready_def)
    have pkt: "blit ((p2ts_buf p)[3 := 0x10 OR (p2ts_cc p AND 0x0f)]) 4 (take 184 pes) = ?pkt"
      using True b header_update(3) [OF b(2,1)] by (simp add: blit_def)
    have h1: "?h AND NOT 0x40 = head_byte b1 False" by (rule header_byte_simps)
    have step: "pes2ts_loop p pes u = pes2ts_loop ?q (drop 184 pes) (u @ [?pkt])"
      using True pkt b(3) h1 by (subst pes2ts_loop.simps) (simp add: Let_def collect_cb_def)
    have "pes2ts_ready b1 b2 False ?q" using True b(3) by (simp add: pes2ts_ready_def)
    moreover have "length (drop 184 pes) < length pes" using True by simp
    ultimately obtain p' pes' u' start' where r: "pes2ts_loop ?q (drop 184 pes) (u @ [?pkt]) = (0, p', pes', u')"
      "pes2ts_ready b1 b2 start' p'" "length pes' < 184"
      "u' @ pes_packets b1 b2 start' (p2ts_cc p') pes' =
        (u @ [?pkt]) @ pes_packets b1 b2 False (p2ts_cc ?q) (drop 184 pes)"
      using less.hyps [of "drop 184 pes" False ?q "u @ [?pkt]"] by blast
    moreover have "pes_packets b1 b2 start (p2ts_cc p) pes = ?pkt # pes_packets b1 b2 False (p2ts_cc p + 1) (drop 184 pes)"
      using True by (subst pes_packets.simps) (simp add: head_byte_def)
    ultimately show ?thesis using step by auto
  qed
qed

lemma pad_packet:
  assumes "length h = 4" "length ys = 182" "pes \<noteq> []" "length pes < 184" "rest = 183 - length pes"
    and "buf = h @ x # y # ys"
  shows "blit ((pes2ts_pad buf rest)[4 := r]) (5 + rest) pes =
    h @ r # (if rest = 0 then [] else 0 # replicate (rest - 1) 0xff) @ pes"
proof -
  have upd: "buf[5 := 0] = h @ x # 0 # ys" "buf[4 := r] = h @ r # y # ys" "(h @ x # 0 # zs)[4 := r] = h @ r # 0 # zs" for zs
    using assms(1,6) by (simp_all add: list_update_append)
  consider "rest = 0" | "rest = 1" | k where "rest = Suc (Suc k)" by (metis One_nat_def not0_implies_Suc)
  then show ?thesis
  proof cases
    case 3
    have "blit (h @ x # 0 # ys) 6 (replicate (Suc k) 0xff) = h @ x # 0 # replicate (Suc k) 0xff @ drop (Suc k) ys"
      using assms(1) by (simp add: blit_def eval_nat_numeral)
    then show ?thesis using 3 assms(1,2,5) upd by (simp add: pes2ts_pad_def blit_def numeral_3_eq_3)
  qed (use assms upd in \<open>simp_all add: pes2ts_pad_def blit_def\<close>)
qed

lemma pes2ts_packets:
  assumes p: "p2ts_cb p = collect_cb" "length (p2ts_buf p) = 188" "take 3 (p2ts_buf p) = [0x47, b1, b2]"
  shows "\<exists>p'. dvb_filter_pes2ts p pes u = (0, p', u @ pes_packets b1 b2 True (p2ts_cc p) pes)"
proof -
  let ?p = "p\<lparr>p2ts_buf := (p2ts_buf p)[1 := p2ts_buf p ! 1 OR 0x40]\<rparr>"
  have "pes2ts_ready b1 b2 True ?p"
    using p header_update(1,2) [OF p(3,2)] by (simp add: pes2ts_ready_def head_byte_def)
  then obtain p' pes' u' start' where r: "pes2ts_loop ?p pes u = (0, p', pes', u')" "pes2ts_ready b1 b2 start' p'"
    "length pes' < 184" "u' @ pes_packets b1 b2 start' (p2ts_cc p') pes' = u @ pes_packets b1 b2 True (p2ts_cc p) pes"
    using pes2ts_loop_packets [of b1 b2 True ?p pes u] by auto
  show ?thesis
  proof (cases "pes' = []")
    case True
    then have "pes_packets b1 b2 start' (p2ts_cc p') pes' = []" by (subst pes_packets.simps) simp
    then show ?thesis using r True by (simp add: dvb_filter_pes2ts_def)
  next
    case False
    let ?h = "head_byte b1 start'"
    let ?rest = "183 - length pes'"
    let ?c = "0x30 OR (p2ts_cc p' AND 0x0f)"
    let ?pkt = "[0x47, ?h, b2, ?c, of_nat ?rest] @ (if ?rest = 0 then [] else 0 # replicate (?rest - 1) 0xff) @ pes'"
    have b: "length (p2ts_buf p') = 188" "take 3 (p2ts_buf p') = [0x47, ?h, b2]" "p2ts_cb p' = collect_cb"
      using r(2) by (simp_all add: pes2ts_ready_def)
    have b3: "(p2ts_buf p')[3 := ?c] = [0x47, ?h, b2, ?c] @ drop 4 (p2ts_buf p')"
      using header_update(3) [OF b(2,1)] .
    obtain x l where xl: "drop 4 (p2ts_buf p') = x # l" using b(1) by (cases "drop 4 (p2ts_buf p')") auto
    have "length (drop 4 (p2ts_buf p')) = 184" using b(1) by simp
    then have "length l = 183" unfolding xl by simp
    then obtain y ys where l: "l = y # ys" and ys: "length ys = 182" by (cases l) auto
    have pkt: "blit ((pes2ts_pad ((p2ts_buf p')[3 := ?c]) ?rest)[4 := of_nat ?rest]) (5 + ?rest) pes' = ?pkt"
      using pad_packet [where h = "[0x47, ?h, b2, ?c]" and ys = ys and pes = pes' and rest = ?rest and
          buf = "(p2ts_buf p')[3 := ?c]" and x = x and y = y and r = "of_nat ?rest"]
        False r(3) b3 xl l ys by simp
    have "pes_packets b1 b2 start' (p2ts_cc p') pes' = [?pkt]"
      using False r(3) by (subst pes_packets.simps) (simp add: head_byte_def Let_def)
    then have "u' @ [blit ((pes2ts_pad ((p2ts_buf p')[3 := ?c]) ?rest)[4 := of_nat ?rest]) (5 + ?rest) pes'] =
        u @ pes_packets b1 b2 True (p2ts_cc p) pes"
      unfolding pkt using r(4) by simp
    then show ?thesis using r(1) False b(3) by (simp add: dvb_filter_pes2ts_def Let_def collect_cb_def)
  qed
qed

lemma unat_and_31: "unat (b AND 0x1f) = unat b mod 32" for b :: u8
proof -
  have "unat (b AND 0x1f) = unat b AND 31" by (simp add: unsigned_and_eq)
  also have "\<dots> = take_bit 5 (unat b)" by (simp add: take_bit_eq_mask mask_eq_exp_minus_1)
  finally show ?thesis by (simp add: take_bit_eq_mod)
qed

lemma pid_bytes:
  fixes pid :: u16
  assumes "unat pid < 0x2000"
  shows "push_bit 8 (unat (ucast (drop_bit 8 pid) AND 0x1f :: u8)) + unat (ucast (pid AND 0xff) :: u8) = unat pid"
proof -
  have hi: "unat (ucast (drop_bit 8 pid) :: u8) = unat pid div 256"
    using assms by (simp add: unsigned_ucast_eq unsigned_drop_bit_eq take_bit_eq_mod drop_bit_eq_div unat_div)
  have "pid AND 0xff = take_bit 8 pid" by (simp add: take_bit_eq_mask mask_eq_exp_minus_1)
  then have lo: "unat (ucast (pid AND 0xff) :: u8) = unat pid mod 256"
    by (simp only: unsigned_ucast_eq unsigned_take_bit_eq) (simp add: take_bit_eq_mod)
  show ?thesis unfolding unat_and_31 hi lo using assms by (simp add: push_bit_eq_mult)
qed

lemma ac3_code_low:
  fixes h :: u8
  assumes "h AND 0x80 = 0"
  shows "drop_bit 6 (h AND 0xc0) = 0 \<or> drop_bit 6 (h AND 0xc0) = 1"
proof -
  have c: "(0xc0 :: u8) = 0x80 OR push_bit 6 1" by simp
  have "h AND 0xc0 = h AND push_bit 6 1" unfolding c bit.conj_disj_distrib using assms by simp
  then have "drop_bit 6 (h AND 0xc0) = drop_bit 6 h AND drop_bit 6 (push_bit 6 1)" by (simp only: drop_bit_and)
  also have "drop_bit 6 (push_bit 6 1 :: u8) = 1" by simp
  finally have "drop_bit 6 (h AND 0xc0) = of_bool (odd (drop_bit 6 h))" by (simp only: and_one_eq mod_2_eq_odd)
  then show ?thesis by simp
qed

lemma ac3_sync_at_end:
  assumes "\<forall>b\<in>set (drop c pre). b \<noteq> 0x0b" and "c \<le> length pre"
  shows "ac3_sync (pre @ [0x0b]) c (length pre + 1 - c) = Oops"
  using assms
proof (induction "length pre - c" arbitrary: c)
  case 0
  then have "c = length pre" by simp
  then show ?case by (simp add: nth_append)
next
  case (Suc k)
  then have c: "c < length pre" by simp
  then have "pre ! c \<in> set (drop c pre)" by (simp add: Cons_nth_drop_Suc [symmetric])
  with Suc.prems(1) have ne: "pre ! c \<noteq> 0x0b" by blast
  have "\<forall>b\<in>set (drop (Suc c) pre). b \<noteq> 0x0b"
    using Suc.prems(1) set_drop_subset_set_drop [of c "Suc c" pre] by auto
  then have "ac3_sync (pre @ [0x0b]) (Suc c) (length pre + 1 - Suc c) = Oops"
    using Suc.hyps(1) [of "Suc c"] Suc.hyps(2) c by simp
  then have "ac3_sync (pre @ [0x0b]) (Suc c) (length pre - c) = Oops" by simp
  with ne c show ?case by (simp add: Suc_diff_le nth_append)
qed

section \<open>Properties\<close>

text \<open>
  C18. Converting a PES packet into transport packets is inverse to the payload extraction of the
  demultiplexer: for every PES packet and every 13 bit PID the converter emits 188 byte packets of
  that PID whose payloads, as the demultiplexer computes them, concatenate to the PES packet; the
  continuity counters are consecutive, and exactly the first packet announces a start.
\<close>

theorem pes2ts_roundtrip:
  assumes "length (p2ts_buf p) = 188" and "unat pid < 0x2000"
  shows "\<exists>p' ps. dvb_filter_pes2ts (dvb_filter_pes2ts_init p pid collect_cb None) pes u = (0, p', u @ ps) \<and>
    concat (map pkt_payload ps) = pes \<and>
    (\<forall>q\<in>set ps. length q = 188 \<and> hd q = 0x47 \<and> ts_pid q = unat pid) \<and>
    map pkt_cc ps = map (\<lambda>k. int k mod 16) [0..<length ps] \<and>
    map pkt_start ps = (if pes = [] then [] else True # replicate (length ps - 1) False)"
proof -
  let ?b1 = "ucast (drop_bit 8 pid) :: u8" and ?b2 = "ucast (pid AND 0xff) :: u8"
  let ?p = "dvb_filter_pes2ts_init p pid collect_cb None"
  obtain a0 r0 where r0: "p2ts_buf p = a0 # r0" using assms(1) by (cases "p2ts_buf p") auto
  then obtain a1 r1 where r1: "r0 = a1 # r1" using assms(1) by (cases r0) auto
  then obtain a2 r where "r1 = a2 # r" using assms(1) r0 by (cases r1) auto
  with r0 r1 have buf: "p2ts_buf p = a0 # a1 # a2 # r" by simp
  have "p2ts_cb ?p = collect_cb" "length (p2ts_buf ?p) = 188" "take 3 (p2ts_buf ?p) = [0x47, ?b1, ?b2]" "p2ts_cc ?p = 0"
    using assms(1) buf by (simp_all add: dvb_filter_pes2ts_init_def numeral_eq_Suc)
  then obtain p' where "dvb_filter_pes2ts ?p pes u = (0, p', u @ pes_packets ?b1 ?b2 True 0 pes)"
    using pes2ts_packets [of ?p ?b1 ?b2 pes u] by auto
  moreover have "push_bit 8 (unat (?b1 AND 0x1f)) + unat ?b2 = unat pid"
    using assms(2) by (rule pid_bytes)
  ultimately show ?thesis
    using pes_packets_correct [of ?b1 ?b2 True 0 pes] by auto
qed

theorem pes2ts_roundtrip_witness:
  "\<exists>p' ps. dvb_filter_pes2ts (dvb_filter_pes2ts_init
      \<lparr>p2ts_buf = replicate 188 0, p2ts_cc = 9, p2ts_cb = collect_cb, p2ts_priv = None\<rparr> 0x123 collect_cb None)
      (replicate 300 7) [] = (0, p', ps) \<and> concat (map pkt_payload ps) = replicate 300 7"
proof -
  have "length (p2ts_buf \<lparr>p2ts_buf = replicate 188 (0 :: u8), p2ts_cc = (9 :: u8), p2ts_cb = collect_cb,
      p2ts_priv = (None :: nat option)\<rparr>) = 188" "unat (0x123 :: u16) < 0x2000" by simp_all
  from pes2ts_roundtrip [OF this, of "replicate 300 7" "[]"] show ?thesis by auto
qed

text \<open>
  The AC3 parser reports the sampling frequency from the table of MPEG audio: for the two most
  common codes the frequency it reports is not the one the frame size belongs to (44.1 kHz
  instead of 48 kHz and the reverse), although the table for AC3 is defined next to it.
\<close>

theorem ac3_frequency_from_wrong_table:
  assumes "ac3_sync mbuf 0 count = Ret (Some c)" and "c + 5 < count" and "mbuf ! (c + 4) AND 0x80 = 0"
  shows "\<exists>ai'. dvb_filter_get_ac3info mbuf count ai = Ret (0, ai') \<and>
    ai_frequency ai' \<noteq> ac3_freq ! unat (drop_bit 6 (mbuf ! (c + 4) AND 0xc0)) * 100"
proof -
  let ?h = "mbuf ! (c + 4)"
  have "drop_bit 6 (?h AND 0xc0) = 0 \<or> drop_bit 6 (?h AND 0xc0) = 1" using assms(3) by (rule ac3_code_low)
  then show ?thesis
    using assms by (auto simp: dvb_filter_get_ac3info_def Let_def freq_def ac3_freq_def ac3_frames_def)
qed

theorem ac3_frequency_from_wrong_table_witness:
  "\<exists>ai'. dvb_filter_get_ac3info [0x0b, 0x77, 0, 0, 0x10, 0, 0] 7
      \<lparr>ai_layer = 0, ai_bit_rate = 0, ai_frequency = 0, ai_off = 0, ai_framesize = 0\<rparr> = Ret (0, ai') \<and>
    ai_frequency ai' \<noteq> 48000"
proof -
  have "ac3_sync [0x0b, 0x77, 0, 0, 0x10, 0, 0] 0 7 = Ret (Some 0)" by (simp add: eval_nat_numeral)
  from ac3_frequency_from_wrong_table [OF this] show ?thesis by (simp add: ac3_freq_def)
qed

text \<open>
  C19. The AC3 parser reads out of bounds: behind the block, when its last byte is the first byte of
  the sync word and no such byte precedes; and behind the table of frame sizes, when a complete header
  has the reserved frequency code 3.
\<close>

theorem ac3_reads_out_of_bounds:
  shows "(0x0b \<notin> set pre \<longrightarrow> dvb_filter_get_ac3info (pre @ [0x0b]) (length pre + 1) ai = Oops) \<and>
   (ac3_sync mbuf 0 count = Ret (Some c) \<and> c + 5 < count \<and> mbuf ! (c + 4) AND 0xc0 = 0xc0 \<longrightarrow>
    dvb_filter_get_ac3info mbuf count ai = Oops)"
proof (intro conjI impI)
  assume "0x0b \<notin> set pre"
  then have "\<forall>b\<in>set (drop 0 pre). b \<noteq> 0x0b" by auto
  from ac3_sync_at_end [OF this] have "ac3_sync (pre @ [0x0b]) 0 (length pre + 1) = Oops" by simp
  then show "dvb_filter_get_ac3info (pre @ [0x0b]) (length pre + 1) ai = Oops"
    by (simp add: dvb_filter_get_ac3info_def)
next
  assume a: "ac3_sync mbuf 0 count = Ret (Some c) \<and> c + 5 < count \<and> mbuf ! (c + 4) AND 0xc0 = 0xc0"
  then have "unat (drop_bit 6 (mbuf ! (c + 4) AND 0xc0)) = unat (drop_bit 6 (0xc0 :: u8))" by (simp only:)
  then have "unat (drop_bit 6 (mbuf ! (c + 4) AND 0xc0)) = 3" by simp
  with a show "dvb_filter_get_ac3info mbuf count ai = Oops"
    by (simp add: dvb_filter_get_ac3info_def Let_def ac3_frames_def del: drop_bit_and)
qed

theorem ac3_reads_out_of_bounds_witness:
  "dvb_filter_get_ac3info [1, 2, 0x0b] 3
      \<lparr>ai_layer = 0, ai_bit_rate = 0, ai_frequency = 0, ai_off = 0, ai_framesize = 0\<rparr> = Oops \<and>
   dvb_filter_get_ac3info [0x0b, 0x77, 0, 0, 0xc0, 0, 0] 7
      \<lparr>ai_layer = 0, ai_bit_rate = 0, ai_frequency = 0, ai_off = 0, ai_framesize = 0\<rparr> = Oops"
proof -
  have "ac3_sync [0x0b, 0x77, 0, 0, 0xc0, 0, 0] 0 7 = Ret (Some 0)" by (simp add: eval_nat_numeral)
  with ac3_reads_out_of_bounds [of "[1, 2]" _ "[0x0b, 0x77, 0, 0, 0xc0, 0, 0]" 7 0] show ?thesis
    by (simp add: numeral_3_eq_3)
qed

end
