(* ===== verification/DVB_Swfilter.thy ===== *)
theory DVB_Swfilter
  imports DVB_Reassembly
begin

text \<open>
  The entry points of the software filter in \<^verbatim>\<open>dvb_demux.c\<close>: one packet for all feeds, blocks of
  packets, and byte streams with packets of 188 or 204 bytes in which packet boundaries are found
  by the sync byte. The locale \<open>ts_filter\<close> states what a stream routine promises: it emits the
  packets of the specification \<open>ts_split\<close> and keeps the rest. Its consequence, proved once for
  both routines, is that the way a stream is cut into calls does not matter.
\<close>

section \<open>The code\<close>

text \<open>The loop over the list of feeds.\<close>

fun swfilter_feeds ::
  "'u dvb_demux \<Rightarrow> nat list \<Rightarrow> nat \<Rightarrow> bytes \<Rightarrow> 'u \<Rightarrow> ('u dvb_demux \<times> 'u) kres" where
  "swfilter_feeds demux [] pid buf u = Ret (demux, u)"
| "swfilter_feeds demux (i # is) pid buf u =
     (if i \<ge> length (feeds demux) then Oops
      else
        let feed = feeds demux ! i
        in kbind
          (if feed_pid feed = pid then dvb_dmx_swfilter_packet_type demux i feed buf u else Ret (feed, u))
          (\<lambda>(feed, u).
            let u = (if feed_pid feed = 0x2000
                     then snd (cb_ts feed (take 188 buf) [] (feed_priv feed) u) else u)
            in swfilter_feeds (set_feed i feed demux) is pid buf u))"

definition dvb_dmx_swfilter_packet ::
  "'u dvb_demux \<Rightarrow> bytes \<Rightarrow> 'u \<Rightarrow> ('u dvb_demux \<times> 'u) kres" where
  "dvb_dmx_swfilter_packet demux buf u = swfilter_feeds demux (feed_list demux) (ts_pid buf) buf u"

fun dvb_dmx_swfilter_packets ::
  "'u dvb_demux \<Rightarrow> bytes \<Rightarrow> nat \<Rightarrow> 'u \<Rightarrow> ('u dvb_demux \<times> 'u) kres" where
  "dvb_dmx_swfilter_packets demux buf 0 u = Ret (demux, u)"
| "dvb_dmx_swfilter_packets demux buf (Suc count) u =
     (if length buf < 188 then Oops
      else kbind
        (if buf ! 0 = 0x47 then dvb_dmx_swfilter_packet demux (take 188 buf) u else Ret (demux, u))
        (\<lambda>(demux, u). dvb_dmx_swfilter_packets demux (drop 188 buf) count u))"

text \<open>
  The loop of \<^verbatim>\<open>dvb_dmx_swfilter\<close> on the bytes from \<^verbatim>\<open>buf+p\<close> on, and the whole routine. In the
  test against the missing bytes of the held packet \<^verbatim>\<open>j\<close> is converted to an unsigned number,
  so a negative one counts as larger than any count.
\<close>

function swfilter_loop :: "'u dvb_demux \<Rightarrow> bytes \<Rightarrow> 'u \<Rightarrow> ('u dvb_demux \<times> 'u) kres" where
  "swfilter_loop demux buf u =
     (if buf = [] then Ret (demux, u)
      else if buf ! 0 = 0x47
      then
        (if length buf \<ge> 188
         then kbind (dvb_dmx_swfilter_packet demux (take 188 buf) u) (\<lambda>(demux, u).
           swfilter_loop demux (drop 188 buf) u)
         else kbind (memcpy (tsbuf demux) 0 buf 0 (length buf)) (\<lambda>b.
           Ret (demux\<lparr>tsbuf := b, tsbufp := length buf\<rparr>, u)))
      else swfilter_loop demux (drop 1 buf) u)"
  by pat_completeness auto
termination
  by (relation "measure (\<lambda>(demux, buf, u). length buf)") auto

definition dvb_dmx_swfilter ::
  "'u dvb_demux \<Rightarrow> bytes \<Rightarrow> 'u \<Rightarrow> ('u dvb_demux \<times> 'u) kres" where
  "dvb_dmx_swfilter demux buf u =
     (let i = tsbufp demux; j = 188 - i; count = length buf
      in if i \<noteq> 0
         then
           (if i > 188 \<or> count < j
            then kbind (memcpy (tsbuf demux) i buf 0 count) (\<lambda>b.
              Ret (demux\<lparr>tsbuf := b, tsbufp := i + count\<rparr>, u))
            else kbind (memcpy (tsbuf demux) i buf 0 j) (\<lambda>b.
              let demux = demux\<lparr>tsbuf := b\<rparr>
              in kbind
                (if tsbuf demux ! 0 = 0x47
                 then dvb_dmx_swfilter_packet demux (take 188 (tsbuf demux)) u else Ret (demux, u))
                (\<lambda>(demux, u). swfilter_loop (demux\<lparr>tsbufp := 0\<rparr>) (drop j buf) u)))
         else swfilter_loop demux buf u)"

definition packet_204 :: "bytes \<Rightarrow> bytes" where
  "packet_204 buf = (let tmppack = take 188 buf in if tmppack ! 0 = 0xB8 then tmppack[0 := 0x47] else tmppack)"

function swfilter_204_loop :: "'u dvb_demux \<Rightarrow> bytes \<Rightarrow> 'u \<Rightarrow> ('u dvb_demux \<times> 'u) kres" where
  "swfilter_204_loop demux buf u =
     (if buf = [] then Ret (demux, u)
      else if buf ! 0 = 0x47 \<or> buf ! 0 = 0xB8
      then
        (if length buf \<ge> 204
         then kbind (dvb_dmx_swfilter_packet demux (packet_204 buf) u) (\<lambda>(demux, u).
           swfilter_204_loop demux (drop 204 buf) u)
         else kbind (memcpy (tsbuf demux) 0 buf 0 (length buf)) (\<lambda>b.
           Ret (demux\<lparr>tsbuf := b, tsbufp := length buf\<rparr>, u)))
      else swfilter_204_loop demux (drop 1 buf) u)"
  by pat_completeness auto
termination
  by (relation "measure (\<lambda>(demux, buf, u). length buf)") auto

definition dvb_dmx_swfilter_204 ::
  "'u dvb_demux \<Rightarrow> bytes \<Rightarrow> 'u \<Rightarrow> ('u dvb_demux \<times> 'u) kres" where
  "dvb_dmx_swfilter_204 demux buf u =
     (let i = tsbufp demux; j = 204 - i; count = length buf
      in if i \<noteq> 0
         then
           (if i > 204 \<or> count < j
            then kbind (memcpy (tsbuf demux) i buf 0 count) (\<lambda>b.
              Ret (demux\<lparr>tsbuf := b, tsbufp := i + count\<rparr>, u))
            else kbind (memcpy (tsbuf demux) i buf 0 j) (\<lambda>b.
              let demux = demux\<lparr>tsbuf := b\<rparr>
              in kbind
                (if tsbuf demux ! 0 = 0x47 \<or> tsbuf demux ! 0 = 0xB8
                 then dvb_dmx_swfilter_packet demux (packet_204 (tsbuf demux)) u else Ret (demux, u))
                (\<lambda>(demux, u). swfilter_204_loop (demux\<lparr>tsbufp := 0\<rparr>) (drop j buf) u)))
         else swfilter_204_loop demux buf u)"

declare swfilter_loop.simps [simp del] swfilter_204_loop.simps [simp del]

section \<open>The specification: cutting a stream into packets\<close>

function ts_split :: "nat \<Rightarrow> (u8 \<Rightarrow> bool) \<Rightarrow> bytes \<Rightarrow> bytes list \<times> bytes" where
  "ts_split sz sync [] = ([], [])"
| "ts_split sz sync (b # bs) =
     (if sync b
      then
        (if sz \<le> Suc (length bs)
         then let (ps, r) = ts_split sz sync (drop (sz - 1) bs) in ((b # take (sz - 1) bs) # ps, r)
         else ([], b # bs))
      else ts_split sz sync bs)"
  by pat_completeness auto
termination
  by (relation "measure (\<lambda>(sz, sync, xs). length xs)") auto

lemma ts_split_rest:
  "0 < sz \<Longrightarrow> snd (ts_split sz sync xs) = [] \<or>
    sync (hd (snd (ts_split sz sync xs))) \<and> length (snd (ts_split sz sync xs)) < sz"
  by (induction sz sync xs rule: ts_split.induct) (auto simp: case_prod_unfold Let_def)

lemma ts_split_packets:
  "0 < sz \<Longrightarrow> p \<in> set (fst (ts_split sz sync xs)) \<Longrightarrow> length p = sz \<and> sync (hd p)"
  by (induction sz sync xs rule: ts_split.induct) (auto simp: case_prod_unfold Let_def split: if_splits)

lemma ts_split_append:
  "0 < sz \<Longrightarrow> ts_split sz sync (xs @ ys) =
    (let (ps, r) = ts_split sz sync xs; (qs, r') = ts_split sz sync (r @ ys) in (ps @ qs, r'))"
proof (induction sz sync xs rule: ts_split.induct)
  case (1 sz sync)
  then show ?case by (simp add: case_prod_unfold Let_def)
next
  case (2 sz sync b bs)
  then show ?case by (auto simp: case_prod_unfold Let_def)
qed

fun run_packets :: "('d \<Rightarrow> bytes \<Rightarrow> 'u \<Rightarrow> ('d \<times> 'u) kres) \<Rightarrow> 'd \<Rightarrow> bytes list \<Rightarrow> 'u \<Rightarrow> ('d \<times> 'u) kres" where
  "run_packets packet d [] u = Ret (d, u)"
| "run_packets packet d (b # bs) u = kbind (packet d b u) (\<lambda>(d, u). run_packets packet d bs u)"

lemma run_packets_append:
  "run_packets packet d (as @ bs) u = kbind (run_packets packet d as u) (\<lambda>(d, u). run_packets packet d bs u)"
  by (induction as arbitrary: d u) (simp_all add: kbind_assoc case_prod_unfold)

lemma run_packets_cong:
  "(\<And>d p u. p \<in> set ps \<Longrightarrow> f d p u = g d p u) \<Longrightarrow> run_packets f d ps u = run_packets g d ps u"
  by (induction ps arbitrary: d u) (simp_all add: case_prod_unfold)

lemma run_packets_map: "run_packets f d (map h ps) u = run_packets (\<lambda>d p u. f d (h p) u) d ps u"
  by (induction ps arbitrary: d u) (simp_all add: case_prod_unfold)

section \<open>The contract of a stream routine\<close>

text \<open>
  \<open>filt\<close> is the routine, \<open>held\<close> the bytes it keeps between calls, \<open>body\<close> the state without them.
  What a call does is determined by the packets of the held bytes followed by the new ones.
\<close>

fun stream_result :: "('d \<Rightarrow> 'd) \<Rightarrow> ('d \<Rightarrow> bytes) \<Rightarrow> ('d \<times> 'u) kres \<Rightarrow> ('d \<times> bytes \<times> 'u) kres" where
  "stream_result body held (Ret (d, u)) = Ret (body d, held d, u)"
| "stream_result body held Hang = Hang"
| "stream_result body held Oops = Oops"

locale ts_filter =
  fixes filt :: "'d \<Rightarrow> bytes \<Rightarrow> 'u \<Rightarrow> ('d \<times> 'u) kres"
    and ok :: "'d \<Rightarrow> bool"
    and body :: "'d \<Rightarrow> 'd"
    and held :: "'d \<Rightarrow> bytes"
    and packet :: "'d \<Rightarrow> bytes \<Rightarrow> 'u \<Rightarrow> ('d \<times> 'u) kres"
    and sz :: nat
    and sync :: "u8 \<Rightarrow> bool"
  assumes sz_pos: "0 < sz"
    and filt_split: "ok d \<Longrightarrow> stream_result body held (filt d buf u) =
      kbind (run_packets packet (body d) (fst (ts_split sz sync (held d @ buf))) u)
        (\<lambda>(b, u). Ret (b, snd (ts_split sz sync (held d @ buf)), u))"
    and filt_ok: "ok d \<Longrightarrow> filt d buf u = Ret (d', u') \<Longrightarrow> ok d'"
begin

lemma split_held: "ok d \<Longrightarrow> filt d' buf u = Ret (d, v) \<Longrightarrow> ok d' \<Longrightarrow> ts_split sz sync (held d) = ([], held d)"
proof -
  assume d: "ok d" and f: "filt d' buf u = Ret (d, v)" and d': "ok d'"
  from filt_split [OF d', of buf u] f
  have h: "held d = snd (ts_split sz sync (held d' @ buf))"
    by (cases "run_packets packet (body d') (fst (ts_split sz sync (held d' @ buf))) u") auto
  show ?thesis
    using ts_split_rest [OF sz_pos, of sync "held d' @ buf"] unfolding h [symmetric]
    by (cases "held d") auto
qed

lemma chunks_refine:
  assumes "ok d" and "ts_split sz sync (held d) = ([], held d)"
  shows "stream_result body held (run_packets filt d cs u) =
    kbind (run_packets packet (body d) (fst (ts_split sz sync (held d @ concat cs))) u)
      (\<lambda>(b, u). Ret (b, snd (ts_split sz sync (held d @ concat cs)), u))"
  using assms
proof (induction cs arbitrary: d u)
  case Nil
  then show ?case by simp
next
  case (Cons c cs)
  let ?s = "ts_split sz sync (held d @ c)"
  let ?t = "ts_split sz sync (snd ?s @ concat cs)"
  have split: "ts_split sz sync (held d @ c @ concat cs) = (fst ?s @ fst ?t, snd ?t)"
    using ts_split_append [OF sz_pos, of sync "held d @ c" "concat cs"]
    by (simp add: case_prod_unfold Let_def)
  show ?case
  proof (cases "filt d c u")
    case (Ret p)
    obtain d' v where p: "p = (d', v)" by (cases p)
    have ok': "ok d'" using filt_ok [OF Cons.prems(1)] Ret p by blast
    have "run_packets packet (body d) (fst ?s) u = Ret (body d', v)" and h: "held d' = snd ?s"
      using filt_split [OF Cons.prems(1), of c u] Ret p
      by (cases "run_packets packet (body d) (fst ?s) u"; auto)+
    then show ?thesis
      using Cons.IH [OF ok'] split_held [OF ok' Ret [unfolded p] Cons.prems(1)] Ret p
      by (simp add: split run_packets_append)
  next
    case Hang
    then have "run_packets packet (body d) (fst ?s) u = Hang"
      using filt_split [OF Cons.prems(1), of c u]
      by (cases "run_packets packet (body d) (fst ?s) u") auto
    then show ?thesis using Hang by (simp add: split run_packets_append)
  next
    case Oops
    then have "run_packets packet (body d) (fst ?s) u = Oops"
      using filt_split [OF Cons.prems(1), of c u]
      by (cases "run_packets packet (body d) (fst ?s) u") auto
    then show ?thesis using Oops by (simp add: split run_packets_append)
  qed
qed

end

section \<open>The two routines keep the contract\<close>

definition without_tsbuf :: "'u dvb_demux \<Rightarrow> 'u dvb_demux" where
  "without_tsbuf d = d\<lparr>tsbuf := [], tsbufp := 0\<rparr>"

definition held_bytes :: "'u dvb_demux \<Rightarrow> bytes" where
  "held_bytes d = take (tsbufp d) (tsbuf d)"

lemma packet_type_tsbuf:
  "dvb_dmx_swfilter_packet_type (d\<lparr>tsbuf := x, tsbufp := n\<rparr>) i f buf u = dvb_dmx_swfilter_packet_type d i f buf u"
proof -
  have "filters (d\<lparr>tsbuf := x, tsbufp := n\<rparr>) = filters d"
    "write_to_decoder (d\<lparr>tsbuf := x, tsbufp := n\<rparr>) = write_to_decoder d" by simp_all
  then show ?thesis unfolding dvb_dmx_swfilter_packet_type_def by (simp only:)
qed

lemma swfilter_feeds_tsbuf:
  "swfilter_feeds (d\<lparr>tsbuf := x, tsbufp := n\<rparr>) is pid buf u =
     kbind (swfilter_feeds d is pid buf u) (\<lambda>(d, u). Ret (d\<lparr>tsbuf := x, tsbufp := n\<rparr>, u))"
proof (induction "is" arbitrary: d u)
  case Nil
  show ?case by simp
next
  case (Cons i "is")
  have "set_feed i f (d\<lparr>tsbuf := x, tsbufp := n\<rparr>) = (set_feed i f d)\<lparr>tsbuf := x, tsbufp := n\<rparr>" for f
    by (simp add: set_feed_def)
  then show ?case
    by (simp add: packet_type_tsbuf Cons.IH kbind_assoc case_prod_unfold Let_def)
qed

lemma swfilter_packet_tsbuf:
  "dvb_dmx_swfilter_packet (d\<lparr>tsbuf := x, tsbufp := n\<rparr>) buf u =
     kbind (dvb_dmx_swfilter_packet d buf u) (\<lambda>(d, u). Ret (d\<lparr>tsbuf := x, tsbufp := n\<rparr>, u))"
  by (simp add: dvb_dmx_swfilter_packet_def swfilter_feeds_tsbuf)

lemma swfilter_packet_keeps_tsbuf:
  "dvb_dmx_swfilter_packet d buf u = Ret (d', u') \<Longrightarrow> tsbuf d' = tsbuf d \<and> tsbufp d' = tsbufp d"
proof -
  assume r: "dvb_dmx_swfilter_packet d buf u = Ret (d', u')"
  have "d\<lparr>tsbuf := tsbuf d, tsbufp := tsbufp d\<rparr> = d" by simp
  then have eq: "d' = d'\<lparr>tsbuf := tsbuf d, tsbufp := tsbufp d\<rparr>"
    using swfilter_packet_tsbuf [where d = d and x = "tsbuf d" and n = "tsbufp d" and buf = buf and u = u] r by simp
  show ?thesis using arg_cong [OF eq, of tsbuf] arg_cong [OF eq, of tsbufp] by simp
qed

lemma swfilter_packet_without_tsbuf:
  "dvb_dmx_swfilter_packet (without_tsbuf d) buf u =
     kbind (dvb_dmx_swfilter_packet d buf u) (\<lambda>(d, u). Ret (without_tsbuf d, u))"
  by (simp add: without_tsbuf_def swfilter_packet_tsbuf)

locale resync_routine =
  fixes loop filt :: "'u dvb_demux \<Rightarrow> bytes \<Rightarrow> 'u \<Rightarrow> ('u dvb_demux \<times> 'u) kres"
    and sz :: nat
    and sync :: "u8 \<Rightarrow> bool"
    and conv :: "bytes \<Rightarrow> bytes"
  assumes size: "0 < sz" "sz \<le> 204"
    and conv_take: "conv (take sz buf) = conv buf"
    and loop_eq: "loop d buf u =
      (if buf = [] then Ret (d, u)
       else if sync (buf ! 0)
       then
         (if length buf \<ge> sz
          then kbind (dvb_dmx_swfilter_packet d (conv buf) u) (\<lambda>(d, u). loop d (drop sz buf) u)
          else kbind (memcpy (tsbuf d) 0 buf 0 (length buf)) (\<lambda>b. Ret (d\<lparr>tsbuf := b, tsbufp := length buf\<rparr>, u)))
       else loop d (drop 1 buf) u)"
    and filt_eq: "filt d buf u =
      (let i = tsbufp d; j = sz - i; count = length buf
       in if i \<noteq> 0
          then
            (if i > sz \<or> count < j
             then kbind (memcpy (tsbuf d) i buf 0 count) (\<lambda>b. Ret (d\<lparr>tsbuf := b, tsbufp := i + count\<rparr>, u))
             else kbind (memcpy (tsbuf d) i buf 0 j) (\<lambda>b.
               let d = d\<lparr>tsbuf := b\<rparr>
               in kbind
                 (if sync (tsbuf d ! 0) then dvb_dmx_swfilter_packet d (conv (tsbuf d)) u else Ret (d, u))
                 (\<lambda>(d, u). loop (d\<lparr>tsbufp := 0\<rparr>) (drop j buf) u)))
          else loop d buf u)"
begin

definition tsbuf_ok :: "'u dvb_demux \<Rightarrow> bool" where
  "tsbuf_ok d \<longleftrightarrow> length (tsbuf d) = 204 \<and> tsbufp d < sz \<and> (tsbufp d \<noteq> 0 \<longrightarrow> sync (tsbuf d ! 0))"

definition emit :: "'u dvb_demux \<Rightarrow> bytes \<Rightarrow> 'u \<Rightarrow> ('u dvb_demux \<times> 'u) kres" where
  "emit d b u = dvb_dmx_swfilter_packet d (conv b) u"

lemma emit_without_tsbuf: "emit (without_tsbuf d) b u = kbind (emit d b u) (\<lambda>(d, u). Ret (without_tsbuf d, u))"
  by (simp add: emit_def swfilter_packet_without_tsbuf)

lemma loop_split:
  assumes "length (tsbuf d) = 204" and "tsbufp d = 0"
  shows "stream_result without_tsbuf held_bytes (loop d buf u) =
      kbind (run_packets emit (without_tsbuf d) (fst (ts_split sz sync buf)) u)
        (\<lambda>(b, u). Ret (b, snd (ts_split sz sync buf), u)) \<and>
    (\<forall>d' u'. loop d buf u = Ret (d', u') \<longrightarrow> tsbuf_ok d')"
  using assms
proof (induction "length buf" arbitrary: d buf u rule: less_induct)
  case less
  show ?case
  proof (cases buf)
    case Nil
    then show ?thesis
      using less.prems size by (simp add: loop_eq [of d "[]"] held_bytes_def tsbuf_ok_def)
  next
    case (Cons b bs)
    consider "\<not> sync b" | "sync b" "length buf < sz" | "sync b" "sz \<le> length buf" by linarith
    then show ?thesis
    proof cases
      case 1
      then show ?thesis
        using less.hyps [of bs d u] less.prems Cons by (simp add: loop_eq [of d "b # bs"])
    next
      case 2
      then have "loop d buf u = Ret (d\<lparr>tsbuf := blit (tsbuf d) 0 buf, tsbufp := length buf\<rparr>, u)"
        using Cons less.prems size by (simp add: loop_eq [of d "b # bs"] memcpy_def)
      moreover have "blit (tsbuf d) 0 buf ! 0 = b" using Cons by (simp add: blit_def)
      ultimately show ?thesis
        using 2 Cons less.prems size
        by (auto simp: held_bytes_def without_tsbuf_def tsbuf_ok_def blit_def)
    next
      case 3
      have first: "b # take (sz - 1) bs = take sz buf" and rest: "drop (sz - Suc 0) bs = drop sz (b # bs)"
        using Cons size(1) by (cases sz; simp)+
      have emit: "emit e (b # take (sz - 1) bs) u = dvb_dmx_swfilter_packet e (conv buf) u" for e
        by (simp only: first emit_def conv_take)
      have eq: "loop d buf u = kbind (emit d (b # take (sz - 1) bs) u) (\<lambda>(d, u). loop d (drop sz buf) u)"
        using 3 Cons emit [of d] by (simp add: loop_eq [of d "b # bs"])
      show ?thesis
      proof (cases "emit d (b # take (sz - 1) bs) u")
        case (Ret p)
        obtain d' v where p: "p = (d', v)" by (cases p)
        have "tsbuf d' = tsbuf d \<and> tsbufp d' = tsbufp d"
          using Ret p swfilter_packet_keeps_tsbuf by (simp add: emit_def)
        then have "stream_result without_tsbuf held_bytes (loop d' (drop sz buf) v) =
            kbind (run_packets emit (without_tsbuf d') (fst (ts_split sz sync (drop sz buf))) v)
              (\<lambda>(b, u). Ret (b, snd (ts_split sz sync (drop sz buf)), u)) \<and>
          (\<forall>d'' u'. loop d' (drop sz buf) v = Ret (d'', u') \<longrightarrow> tsbuf_ok d'')"
          using less.prems 3 size Cons by (intro less.hyps) auto
        then show ?thesis
          using 3 Cons Ret p eq
          by (simp add: rest case_prod_unfold Let_def emit_without_tsbuf kbind_assoc)
      next
        case Hang
        then show ?thesis
          using 3 Cons eq by (simp add: case_prod_unfold Let_def emit_without_tsbuf)
      next
        case Oops
        then show ?thesis
          using 3 Cons eq by (simp add: case_prod_unfold Let_def emit_without_tsbuf)
      qed
    qed
  qed
qed

lemma filt_split_held:
  assumes ok: "tsbuf_ok d"
  shows "stream_result without_tsbuf held_bytes (filt d buf u) =
      kbind (run_packets emit (without_tsbuf d) (fst (ts_split sz sync (held_bytes d @ buf))) u)
        (\<lambda>(b, u). Ret (b, snd (ts_split sz sync (held_bytes d @ buf)), u)) \<and>
    (\<forall>d' u'. filt d buf u = Ret (d', u') \<longrightarrow> tsbuf_ok d')"
proof (cases "tsbufp d = 0")
  case True
  then show ?thesis
    using ok loop_split [of d buf u] by (simp add: filt_eq tsbuf_ok_def held_bytes_def)
next
  case False
  let ?i = "tsbufp d"
  let ?j = "sz - ?i"
  have d: "length (tsbuf d) = 204" "?i < sz" "sync (tsbuf d ! 0)" using ok False by (auto simp: tsbuf_ok_def)
  have h: "length (held_bytes d) = ?i" using d size by (simp add: held_bytes_def)
  obtain hs where hs: "held_bytes d = tsbuf d ! 0 # hs"
    using False d by (cases "tsbuf d"; cases ?i) (auto simp: held_bytes_def)
  show ?thesis
  proof (cases "length buf < ?j")
    case True
    let ?b = "blit (tsbuf d) ?i buf"
    have fit: "?i + length buf \<le> length (tsbuf d)" using True d size by simp
    have "filt d buf u = Ret (d\<lparr>tsbuf := ?b, tsbufp := ?i + length buf\<rparr>, u)"
      using False True fit d by (simp add: filt_eq memcpy_def Let_def)
    moreover have "take (?i + length buf) ?b = held_bytes d @ buf"
      using take_blit_end [OF fit] by (simp add: held_bytes_def)
    moreover have "?b ! 0 = tsbuf d ! 0" using False fit d by (simp add: nth_blit)
    moreover have "ts_split sz sync (held_bytes d @ buf) = ([], held_bytes d @ buf)"
    proof -
      have "\<not> sz \<le> Suc (length (hs @ buf))" using True h d hs by simp
      then show ?thesis using d by (simp add: hs)
    qed
    moreover have "tsbuf_ok (d\<lparr>tsbuf := ?b, tsbufp := ?i + length buf\<rparr>)"
      using fit d True \<open>?b ! 0 = tsbuf d ! 0\<close> by (simp add: tsbuf_ok_def)
    ultimately show ?thesis by (simp add: held_bytes_def without_tsbuf_def)
  next
    case enough: False
    let ?b = "blit (tsbuf d) ?i (take ?j buf)"
    let ?d = "d\<lparr>tsbuf := ?b\<rparr>"
    let ?first = "held_bytes d @ take ?j buf"
    have fit: "?i + length (take ?j buf) \<le> length (tsbuf d)" "length (take ?j buf) = ?j" "?i + ?j = sz"
      using enough d size by auto
    have lenb: "length ?b = 204" using fit d by simp
    have b0: "?b ! 0 = tsbuf d ! 0" using False fit d by (simp add: nth_blit)
    have "take sz ?b = ?first"
      using take_blit_end [OF fit(1)] fit(2,3) by (simp add: held_bytes_def)
    then have conv: "conv ?b = conv ?first" using conv_take [of ?b] by simp
    have split: "ts_split sz sync (held_bytes d @ buf) =
      (?first # fst (ts_split sz sync (drop ?j buf)), snd (ts_split sz sync (drop ?j buf)))"
      using d enough h False by (simp add: hs case_prod_unfold Let_def)
    have eq: "filt d buf u = kbind (emit ?d ?first u) (\<lambda>(d, u). loop (d\<lparr>tsbufp := 0\<rparr>) (drop ?j buf) u)"
      using False enough d fit b0 conv by (simp add: filt_eq memcpy_def Let_def emit_def)
    have clear: "without_tsbuf ?d = without_tsbuf d" by (simp add: without_tsbuf_def)
    show ?thesis
    proof (cases "emit ?d ?first u")
      case (Ret p)
      obtain d' v where p: "p = (d', v)" by (cases p)
      have keep: "tsbuf d' = ?b"
        using Ret p swfilter_packet_keeps_tsbuf by (fastforce simp: emit_def)
      have clear': "without_tsbuf (d'\<lparr>tsbufp := 0\<rparr>) = without_tsbuf d'" by (simp add: without_tsbuf_def)
      show ?thesis
        using loop_split [of "d'\<lparr>tsbufp := 0\<rparr>" "drop ?j buf" v] keep lenb Ret p eq
          emit_without_tsbuf [of ?d ?first u] clear clear'
        by (simp add: split)
    next
      case Hang
      then show ?thesis using eq emit_without_tsbuf [of ?d ?first u] clear by (simp add: split)
    next
      case Oops
      then show ?thesis using eq emit_without_tsbuf [of ?d ?first u] clear by (simp add: split)
    qed
  qed
qed

end

sublocale resync_routine \<subseteq> stream: ts_filter filt tsbuf_ok without_tsbuf held_bytes emit sz sync
  using filt_split_held size by unfold_locales blast+

interpretation sw188: resync_routine swfilter_loop dvb_dmx_swfilter 188 "\<lambda>b. b = 0x47" "take 188"
proof
  show "swfilter_loop d buf u = (if buf = [] then Ret (d, u)
      else if buf ! 0 = 0x47
      then (if 188 \<le> length buf
            then kbind (dvb_dmx_swfilter_packet d (take 188 buf) u) (\<lambda>(d, u). swfilter_loop d (drop 188 buf) u)
            else kbind (memcpy (tsbuf d) 0 buf 0 (length buf)) (\<lambda>b. Ret (d\<lparr>tsbuf := b, tsbufp := length buf\<rparr>, u)))
      else swfilter_loop d (drop 1 buf) u)" for d :: "'a dvb_demux" and buf u
    by (subst swfilter_loop.simps) simp
qed (simp_all add: dvb_dmx_swfilter_def)

interpretation sw204: resync_routine swfilter_204_loop dvb_dmx_swfilter_204 204 "\<lambda>b. b = 0x47 \<or> b = 0xB8" packet_204
proof
  show "swfilter_204_loop d buf u = (if buf = [] then Ret (d, u)
      else if buf ! 0 = 0x47 \<or> buf ! 0 = 0xB8
      then (if 204 \<le> length buf
            then kbind (dvb_dmx_swfilter_packet d (packet_204 buf) u) (\<lambda>(d, u). swfilter_204_loop d (drop 204 buf) u)
            else kbind (memcpy (tsbuf d) 0 buf 0 (length buf)) (\<lambda>b. Ret (d\<lparr>tsbuf := b, tsbufp := length buf\<rparr>, u)))
      else swfilter_204_loop d (drop 1 buf) u)" for d :: "'a dvb_demux" and buf u
    by (subst swfilter_204_loop.simps) simp
qed (simp_all add: dvb_dmx_swfilter_204_def packet_204_def)

section \<open>Properties\<close>

text \<open>
  C3. The stream routine cuts a stream into packets independently of how the stream is cut into
  calls: any sequence of calls of \<^verbatim>\<open>dvb_dmx_swfilter\<close> on the parts of a stream delivers exactly the
  packets that the specification finds in the whole stream, in order, keeps exactly the bytes
  behind the last packet, and fails only where the delivery of one of these packets fails.
\<close>

theorem swfilter_stream_refinement:
  assumes "length (tsbuf d) = 204" and "tsbufp d = 0"
  shows "stream_result without_tsbuf held_bytes (run_packets dvb_dmx_swfilter d chunks u) =
    kbind (run_packets dvb_dmx_swfilter_packet (without_tsbuf d)
        (fst (ts_split 188 (\<lambda>b. b = 0x47) (concat chunks))) u)
      (\<lambda>(b, u). Ret (b, snd (ts_split 188 (\<lambda>b. b = 0x47) (concat chunks)), u))"
proof -
  have "sw188.tsbuf_ok d" "held_bytes d = []"
    using assms by (simp_all add: sw188.tsbuf_ok_def held_bytes_def)
  moreover have "run_packets sw188.emit b (fst (ts_split 188 (\<lambda>b. b = 0x47) xs)) u =
      run_packets dvb_dmx_swfilter_packet b (fst (ts_split 188 (\<lambda>b. b = 0x47) xs)) u" for b xs
    using ts_split_packets [of 188 _ "\<lambda>b. b = 0x47" xs]
    by (intro run_packets_cong) (simp add: sw188.emit_def)
  ultimately show ?thesis using sw188.stream.chunks_refine [of d chunks u] by simp
qed

theorem swfilter_stream_refinement_witness:
  "stream_result without_tsbuf held_bytes (run_packets dvb_dmx_swfilter demo_demux
      [[1, 0x47, 0], 1 # replicate 100 5, replicate 85 6 @ [0, 0x47, 9]] []) =
    Ret (without_tsbuf demo_demux, [0x47, 9], [])"
proof -
  let ?chunks = "[[1, 0x47, 0], 1 # replicate 100 5, replicate 85 6 @ [0, 0x47, 9]] :: bytes list"
  let ?pkt = "[0x47, 0, 1] @ replicate 100 5 @ replicate 85 6 :: bytes"
  have split: "ts_split 188 (\<lambda>b. b = 0x47) (concat ?chunks) = ([?pkt], [0x47, 9])"
    by simp
  have "dvb_dmx_swfilter_packet (without_tsbuf demo_demux) ?pkt [] = Ret (without_tsbuf demo_demux, [])"
    by (simp add: dvb_dmx_swfilter_packet_def without_tsbuf_def demo_demux_def ts_pid_def demo_feed_def set_feed_def)
  then show ?thesis
    using swfilter_stream_refinement [of demo_demux ?chunks "[]"] split
    by (simp add: demo_demux_def del: concat.simps)
qed

text \<open>
  C12. The same holds for \<^verbatim>\<open>dvb_dmx_swfilter_204\<close> and streams of 204 byte packets, whose packets begin
  with 0x47 or the inverted 0xB8 and are handed on as 188 bytes that begin with 0x47.
\<close>

theorem swfilter_204_stream_refinement:
  assumes "length (tsbuf d) = 204" and "tsbufp d = 0"
  shows "stream_result without_tsbuf held_bytes (run_packets dvb_dmx_swfilter_204 d chunks u) =
    kbind (run_packets dvb_dmx_swfilter_packet (without_tsbuf d)
        (map packet_204 (fst (ts_split 204 (\<lambda>b. b = 0x47 \<or> b = 0xB8) (concat chunks)))) u)
      (\<lambda>(b, u). Ret (b, snd (ts_split 204 (\<lambda>b. b = 0x47 \<or> b = 0xB8) (concat chunks)), u))"
proof -
  have "sw204.tsbuf_ok d" "held_bytes d = []"
    using assms by (simp_all add: sw204.tsbuf_ok_def held_bytes_def)
  moreover have "run_packets sw204.emit b ps u = run_packets dvb_dmx_swfilter_packet b (map packet_204 ps) u" for b ps
    unfolding run_packets_map by (intro run_packets_cong) (simp add: sw204.emit_def)
  ultimately show ?thesis using sw204.stream.chunks_refine [of d chunks u] by simp
qed

theorem swfilter_204_stream_refinement_witness:
  "stream_result without_tsbuf held_bytes (run_packets dvb_dmx_swfilter_204 demo_demux
      [[1, 0xB8, 0], 1 # replicate 100 5, replicate 101 6 @ [0, 0x47, 9]] []) =
    Ret (without_tsbuf demo_demux, [0x47, 9], [])"
proof -
  let ?chunks = "[[1, 0xB8, 0], 1 # replicate 100 5, replicate 101 6 @ [0, 0x47, 9]] :: bytes list"
  let ?pkt = "[0xB8, 0, 1] @ replicate 100 5 @ replicate 101 6 :: bytes"
  have split: "ts_split 204 (\<lambda>b. b = 0x47 \<or> b = 0xB8) (concat ?chunks) = ([?pkt], [0x47, 9])"
    by simp
  have "packet_204 ?pkt = [0x47, 0, 1] @ replicate 100 5 @ replicate 85 6" by (simp add: packet_204_def)
  moreover have "dvb_dmx_swfilter_packet (without_tsbuf demo_demux) ([0x47, 0, 1] @ replicate 100 5 @ replicate 85 6) [] =
      Ret (without_tsbuf demo_demux, [])"
    by (simp add: dvb_dmx_swfilter_packet_def without_tsbuf_def demo_demux_def ts_pid_def demo_feed_def set_feed_def)
  ultimately show ?thesis
    using swfilter_204_stream_refinement [of demo_demux ?chunks "[]"] split
    by (simp add: demo_demux_def del: concat.simps)
qed

end
