(* ===== verification/DVB_Feeds.thy ===== *)
theory DVB_Feeds
  imports DVB_Swfilter
begin

text \<open>
  The kernel API of the demultiplexer in \<^verbatim>\<open>dvb_demux.c\<close>: the registry of demultiplexers, the
  allocation of feeds and filters, the operations of TS and section feeds, front ends, opening,
  writing, and initialisation. Every operation between \<^verbatim>\<open>down_interruptible\<close> and the matching \<^verbatim>\<open>up\<close>
  is wrapped in \<open>demux_locked\<close>: whether a signal interrupts the wait is the argument \<open>sig\<close>, waiting
  for the semaphore the caller holds itself is \<^const>\<open>Hang\<close>.

  The lemmas give an invariant of the feeds, filters and the list of feeds that every operation
  keeps, and show that in every state reachable through the API the packet filter returns.
\<close>

section \<open>The code\<close>

subsection \<open>The registry\<close>

definition dmx_register_demux :: "nat \<Rightarrow> nat list \<Rightarrow> 'u dvb_demux \<Rightarrow> int \<times> nat list \<times> 'u dvb_demux" where
  "dmx_register_demux self dmx_muxs demux = (0, self # dmx_muxs, demux\<lparr>dmx_users := 0\<rparr>)"

definition dmx_unregister_demux :: "nat \<Rightarrow> nat list \<Rightarrow> 'u dvb_demux \<Rightarrow> int \<times> nat list" where
  "dmx_unregister_demux self dmx_muxs demux =
     (if self \<in> set dmx_muxs
      then if dmx_users demux > 0 then (- EINVAL, dmx_muxs) else (0, remove1 self dmx_muxs)
      else (- ENODEV, dmx_muxs))"

definition dmx_get_demuxes :: "nat list \<Rightarrow> nat list option" where
  "dmx_get_demuxes dmx_muxs = (if dmx_muxs = [] then None else Some dmx_muxs)"

subsection \<open>The semaphore of the demultiplexer\<close>

definition demux_locked ::
  "bool \<Rightarrow> 'u dvb_demux \<Rightarrow> 'r \<Rightarrow> ('u dvb_demux \<Rightarrow> ('r \<times> 'u dvb_demux) kres) \<Rightarrow> ('r \<times> 'u dvb_demux) kres" where
  "demux_locked sig d interrupted body =
     (if sig then Ret (interrupted, d)
      else if demux_mutex d then Hang
      else kbind (body (d\<lparr>demux_mutex := True\<rparr>)) (\<lambda>(r, d). Ret (r, d\<lparr>demux_mutex := False\<rparr>)))"

subsection \<open>Allocation\<close>

definition dvb_dmx_filter_alloc :: "'u dvb_demux \<Rightarrow> nat option \<times> 'u dvb_demux" where
  "dvb_dmx_filter_alloc demux =
     (let i = first_index (\<lambda>f. filter_state f = DMX_STATE_FREE) (filters demux)
      in if i = length (filters demux) then (None, demux)
         else (Some i, set_filter i ((filters demux ! i)\<lparr>filter_state := DMX_STATE_ALLOCATED\<rparr>) demux))"

definition dvb_dmx_feed_alloc :: "'u dvb_demux \<Rightarrow> nat option \<times> 'u dvb_demux" where
  "dvb_dmx_feed_alloc demux =
     (let i = first_index (\<lambda>f. feed_state f = DMX_STATE_FREE) (feeds demux)
      in if i = length (feeds demux) then (None, demux)
         else (Some i, set_feed i ((feeds demux ! i)\<lparr>feed_state := DMX_STATE_ALLOCATED\<rparr>) demux))"

definition dvb_demux_feed_find :: "nat \<Rightarrow> 'u dvb_demux \<Rightarrow> bool" where
  "dvb_demux_feed_find feed demux \<longleftrightarrow> feed \<in> set (feed_list demux)"

definition dvb_demux_feed_add :: "nat \<Rightarrow> 'u dvb_demux \<Rightarrow> 'u dvb_demux" where
  "dvb_demux_feed_add feed demux =
     (if dvb_demux_feed_find feed demux then demux else demux\<lparr>feed_list := feed # feed_list demux\<rparr>)"

definition dvb_demux_feed_del :: "nat \<Rightarrow> 'u dvb_demux \<Rightarrow> 'u dvb_demux" where
  "dvb_demux_feed_del feed demux =
     (if \<not> dvb_demux_feed_find feed demux then demux
      else demux\<lparr>feed_list := remove1 feed (feed_list demux)\<rparr>)"

subsection \<open>TS feeds\<close>

definition dmx_ts_feed_set ::
  "bool \<Rightarrow> 'u dvb_demux \<Rightarrow> nat \<Rightarrow> nat \<Rightarrow> int \<Rightarrow> nat \<Rightarrow> nat \<Rightarrow> nat \<Rightarrow> bool \<Rightarrow> nat \<Rightarrow> (int \<times> 'u dvb_demux) kres" where
  "dmx_ts_feed_set sig demux feed pid tstype pes_type callback_length circular_buffer_size descramble timeout =
     (if pid > DMX_MAX_PID then Ret (- EINVAL, demux)
      else demux_locked sig demux (- ERESTARTSYS) (\<lambda>demux.
        let decoder = (tstype AND TS_DECODER \<noteq> 0)
        in if decoder \<and> pes_type \<ge> DMX_TS_PES_OTHER then Ret (- EINVAL, demux)
           else if decoder \<and> pesfilter demux ! pes_type \<noteq> None \<and> pesfilter demux ! pes_type \<noteq> Some feed
           then Ret (- EINVAL, demux)
           else
             let demux = (if decoder
                   then demux\<lparr>pesfilter := (pesfilter demux)[pes_type := Some feed],
                     demux_pids := (demux_pids demux)[pes_type := pid]\<rparr> else demux);
                 demux = dvb_demux_feed_add feed demux;
                 f = (feeds demux ! feed)\<lparr>feed_pid := pid, feed_buffer_size := circular_buffer_size,
                   feed_descramble := descramble, feed_timeout := timeout, cb_length := callback_length,
                   ts_type := tstype, feed_pes_type := pes_type\<rparr>;
                 demux = set_feed feed f demux
             in if descramble then Ret (- ENOSYS, demux)
                else Ret (0, set_feed feed (f\<lparr>feed_state := DMX_STATE_READY\<rparr>) demux)))"

definition dmx_ts_feed_start_filtering ::
  "bool \<Rightarrow> 'u dvb_demux \<Rightarrow> nat \<Rightarrow> 'u \<Rightarrow> ((int \<times> 'u) \<times> 'u dvb_demux) kres" where
  "dmx_ts_feed_start_filtering sig demux feed u =
     demux_locked sig demux (- ERESTARTSYS, u) (\<lambda>demux.
       let f = feeds demux ! feed
       in if feed_state f \<noteq> DMX_STATE_READY \<or> feed_type f \<noteq> DMX_TYPE_TS then Ret ((- EINVAL, u), demux)
          else
            case start_feed demux of
              None \<Rightarrow> Ret ((- ENODEV, u), demux)
            | Some hook \<Rightarrow>
                let (ret, u) = hook feed f u
                in if ret < 0 then Ret ((ret, u), demux)
                   else Ret ((0, u), set_feed feed (f\<lparr>is_filtering := True, feed_state := DMX_STATE_GO\<rparr>) demux))"

definition dmx_ts_feed_stop_filtering ::
  "bool \<Rightarrow> 'u dvb_demux \<Rightarrow> nat \<Rightarrow> 'u \<Rightarrow> ((int \<times> 'u) \<times> 'u dvb_demux) kres" where
  "dmx_ts_feed_stop_filtering sig demux feed u =
     demux_locked sig demux (- ERESTARTSYS, u) (\<lambda>demux.
       let f = feeds demux ! feed
       in if feed_state f < DMX_STATE_GO then Ret ((- EINVAL, u), demux)
          else
            case stop_feed demux of
              None \<Rightarrow> Ret ((- ENODEV, u), demux)
            | Some hook \<Rightarrow>
                let (ret, u) = hook feed f u
                in Ret ((ret, u), set_feed feed (f\<lparr>is_filtering := False, feed_state := DMX_STATE_ALLOCATED\<rparr>) demux))"

definition dvbdmx_allocate_ts_feed ::
  "bool \<Rightarrow> 'u dvb_demux \<Rightarrow> 'u feed_cb \<Rightarrow> ((int \<times> nat option) \<times> 'u dvb_demux) kres" where
  "dvbdmx_allocate_ts_feed sig demux callback =
     demux_locked sig demux (- ERESTARTSYS, None) (\<lambda>demux.
       case dvb_dmx_feed_alloc demux of
         (None, demux) \<Rightarrow> Ret ((- EBUSY, None), demux)
       | (Some i, demux) \<Rightarrow>
           let f = (feeds demux ! i)\<lparr>feed_type := DMX_TYPE_TS, cb_ts := callback, feed_pid := 0xffff,
                 peslen := 0xfffa, feed_priv := None, is_filtering := False\<rparr>;
               demux = set_feed i f demux
           in case dvb_dmx_filter_alloc demux of
                (None, demux) \<Rightarrow>
                  Ret ((- EBUSY, Some i), set_feed i (f\<lparr>feed_filter := None, feed_state := DMX_STATE_FREE\<rparr>) demux)
              | (Some j, demux) \<Rightarrow>
                  let demux = set_feed i (f\<lparr>feed_filter := Some j\<rparr>) demux;
                      g = (filters demux ! j)\<lparr>filter_type := DMX_TYPE_TS, filter_feed := Some i,
                        filter_state := DMX_STATE_READY\<rparr>
                  in Ret ((0, Some i), set_filter j g demux))"

definition dvbdmx_release_ts_feed :: "bool \<Rightarrow> 'u dvb_demux \<Rightarrow> nat \<Rightarrow> (int \<times> 'u dvb_demux) kres" where
  "dvbdmx_release_ts_feed sig demux feed =
     demux_locked sig demux (- ERESTARTSYS) (\<lambda>demux.
       let f = feeds demux ! feed
       in if feed_state f = DMX_STATE_FREE then Ret (- EINVAL, demux)
          else
            case feed_filter f of
              None \<Rightarrow> Oops
            | Some j \<Rightarrow>
                let demux = set_feed feed (f\<lparr>feed_state := DMX_STATE_FREE\<rparr>) demux;
                    demux = set_filter j ((filters demux ! j)\<lparr>filter_state := DMX_STATE_FREE\<rparr>) demux;
                    demux = dvb_demux_feed_del feed demux;
                    demux = set_feed feed ((feeds demux ! feed)\<lparr>feed_pid := 0xffff\<rparr>) demux;
                    demux = (if ts_type f AND TS_DECODER \<noteq> 0
                      then demux\<lparr>pesfilter := (pesfilter demux)[feed_pes_type f := None]\<rparr> else demux)
                in Ret (0, demux))"

subsection \<open>Section feeds\<close>

definition dmx_section_feed_allocate_filter ::
  "bool \<Rightarrow> 'u dvb_demux \<Rightarrow> nat \<Rightarrow> ((int \<times> nat option) \<times> 'u dvb_demux) kres" where
  "dmx_section_feed_allocate_filter sig demux feed =
     demux_locked sig demux (- ERESTARTSYS, None) (\<lambda>demux.
       case dvb_dmx_filter_alloc demux of
         (None, demux) \<Rightarrow> Ret ((- EBUSY, None), demux)
       | (Some j, demux) \<Rightarrow>
           let g = (filters demux ! j)\<lparr>filter_priv := None, filter_feed := Some feed,
                 filter_type := DMX_TYPE_SEC, filter_state := DMX_STATE_READY,
                 filter_next := feed_filter (feeds demux ! feed)\<rparr>;
               demux = set_filter j g demux
           in Ret ((0, Some j), set_feed feed ((feeds demux ! feed)\<lparr>feed_filter := Some j\<rparr>) demux))"

definition dmx_section_feed_set ::
  "bool \<Rightarrow> 'u dvb_demux \<Rightarrow> nat \<Rightarrow> nat \<Rightarrow> nat \<Rightarrow> bool \<Rightarrow> bool \<Rightarrow> (int \<times> 'u dvb_demux) kres" where
  "dmx_section_feed_set sig demux feed pid circular_buffer_size descramble checkcrc =
     (if pid > 0x1fff then Ret (- EINVAL, demux)
      else demux_locked sig demux (- ERESTARTSYS) (\<lambda>demux.
        let demux = dvb_demux_feed_add feed demux;
            f = (feeds demux ! feed)\<lparr>feed_pid := pid, feed_buffer_size := circular_buffer_size,
              feed_descramble := descramble\<rparr>
        in if descramble then Ret (- ENOSYS, set_feed feed f demux)
           else Ret (0, set_feed feed (f\<lparr>check_crc := checkcrc, feed_state := DMX_STATE_READY\<rparr>) demux)))"

definition prepare_filter :: "dvb_demux_filter \<Rightarrow> dvb_demux_filter" where
  "prepare_filter f =
     (let notmode = map (\<lambda>i. filter_mask f ! i AND NOT (filter_mode f ! i)) [0..<DVB_DEMUX_MASK_MAX]
      in f\<lparr>maskandmode := map (\<lambda>i. filter_mask f ! i AND filter_mode f ! i) [0..<DVB_DEMUX_MASK_MAX],
           maskandnotmode := notmode, doneq := (foldl (OR) 0 notmode \<noteq> 0)\<rparr>)"

fun prepare_chain :: "dvb_demux_filter list \<Rightarrow> nat \<Rightarrow> nat \<Rightarrow> dvb_demux_filter list kres" where
  "prepare_chain fs 0 f = Hang"
| "prepare_chain fs (Suc n) f =
     (if f \<ge> length fs then Oops
      else
        let fs = fs[f := prepare_filter (fs ! f)]
        in case filter_next (fs ! f) of None \<Rightarrow> Ret fs | Some f' \<Rightarrow> prepare_chain fs n f')"

definition prepare_secfilters :: "'u dvb_demux \<Rightarrow> nat \<Rightarrow> 'u dvb_demux kres" where
  "prepare_secfilters demux feed =
     (case feed_filter (feeds demux ! feed) of
        None \<Rightarrow> Ret demux
      | Some f \<Rightarrow>
          kbind (prepare_chain (filters demux) (Suc (length (filters demux))) f) (\<lambda>fs.
            Ret (demux\<lparr>filters := fs\<rparr>)))"

definition dmx_section_feed_start_filtering ::
  "bool \<Rightarrow> 'u dvb_demux \<Rightarrow> nat \<Rightarrow> 'u \<Rightarrow> ((int \<times> 'u) \<times> 'u dvb_demux) kres" where
  "dmx_section_feed_start_filtering sig demux feed u =
     demux_locked sig demux (- ERESTARTSYS, u) (\<lambda>demux.
       let f = feeds demux ! feed
       in if is_filtering f then Ret ((- EBUSY, u), demux)
          else if feed_filter f = None then Ret ((- EINVAL, u), demux)
          else
            let f = f\<lparr>secbufp := 0, seclen := 0\<rparr>; demux = set_feed feed f demux
            in case start_feed demux of
                 None \<Rightarrow> Ret ((- ENODEV, u), demux)
               | Some hook \<Rightarrow>
                   kbind (prepare_secfilters demux feed) (\<lambda>demux.
                     let (ret, u) = hook feed f u
                     in if ret < 0 then Ret ((ret, u), demux)
                        else Ret ((0, u), set_feed feed (f\<lparr>is_filtering := True, feed_state := DMX_STATE_GO\<rparr>) demux)))"

definition dmx_section_feed_stop_filtering ::
  "bool \<Rightarrow> 'u dvb_demux \<Rightarrow> nat \<Rightarrow> 'u \<Rightarrow> ((int \<times> 'u) \<times> 'u dvb_demux) kres" where
  "dmx_section_feed_stop_filtering sig demux feed u =
     demux_locked sig demux (- ERESTARTSYS, u) (\<lambda>demux.
       case stop_feed demux of
         None \<Rightarrow> Ret ((- ENODEV, u), demux)
       | Some hook \<Rightarrow>
           let f = feeds demux ! feed; (ret, u) = hook feed f u
           in Ret ((ret, u), set_feed feed (f\<lparr>feed_state := DMX_STATE_READY, is_filtering := False\<rparr>) demux))"

text \<open>The walk to the predecessor of a filter; \<open>p\<close> is the pointer \<^verbatim>\<open>f\<close>.\<close>

fun find_predecessor :: "dvb_demux_filter list \<Rightarrow> nat \<Rightarrow> nat option \<Rightarrow> nat \<Rightarrow> nat kres" where
  "find_predecessor fs 0 p target = Hang"
| "find_predecessor fs (Suc n) p target =
     (case p of
        None \<Rightarrow> Oops
      | Some f \<Rightarrow>
          if f \<ge> length fs then Oops
          else if filter_next (fs ! f) = Some target then Ret f
          else find_predecessor fs n (filter_next (fs ! f)) target)"

definition dmx_section_feed_release_filter ::
  "bool \<Rightarrow> bool \<Rightarrow> 'u dvb_demux \<Rightarrow> nat \<Rightarrow> nat \<Rightarrow> 'u \<Rightarrow> ((int \<times> 'u) \<times> 'u dvb_demux) kres" where
  "dmx_section_feed_release_filter sig sig2 demux feed target u =
     demux_locked sig demux (- ERESTARTSYS, u) (\<lambda>demux.
       if filter_feed (filters demux ! target) \<noteq> Some feed then Ret ((- EINVAL, u), demux)
       else kbind
         (if is_filtering (feeds demux ! feed)
          then dmx_section_feed_stop_filtering sig2 demux feed u else Ret ((0, u), demux))
         (\<lambda>((_, u), demux).
           kbind
             (let f = feeds demux ! feed
              in if feed_filter f = Some target
                 then Ret (set_feed feed (f\<lparr>feed_filter := filter_next (filters demux ! target)\<rparr>) demux)
                 else kbind (find_predecessor (filters demux) (Suc (length (filters demux))) (feed_filter f) target) (\<lambda>p.
                   Ret (set_filter p ((filters demux ! p)\<lparr>filter_next := filter_next (filters demux ! target)\<rparr>) demux)))
             (\<lambda>demux.
               Ret ((0, u), set_filter target ((filters demux ! target)\<lparr>filter_state := DMX_STATE_FREE\<rparr>) demux))))"

definition dvbdmx_allocate_section_feed ::
  "bool \<Rightarrow> 'u dvb_demux \<Rightarrow> 'u feed_cb \<Rightarrow> ((int \<times> nat option) \<times> 'u dvb_demux) kres" where
  "dvbdmx_allocate_section_feed sig demux callback =
     demux_locked sig demux (- ERESTARTSYS, None) (\<lambda>demux.
       case dvb_dmx_feed_alloc demux of
         (None, demux) \<Rightarrow> Ret ((- EBUSY, None), demux)
       | (Some i, demux) \<Rightarrow>
           let f = (feeds demux ! i)\<lparr>feed_type := DMX_TYPE_SEC, cb_sec := callback, feed_pid := 0xffff,
                 secbufp := 0, feed_filter := None, is_filtering := False, feed_priv := None\<rparr>
           in Ret ((0, Some i), set_feed i f demux))"

definition dvbdmx_release_section_feed :: "bool \<Rightarrow> 'u dvb_demux \<Rightarrow> nat \<Rightarrow> (int \<times> 'u dvb_demux) kres" where
  "dvbdmx_release_section_feed sig demux feed =
     demux_locked sig demux (- ERESTARTSYS) (\<lambda>demux.
       let f = feeds demux ! feed
       in if feed_state f = DMX_STATE_FREE then Ret (- EINVAL, demux)
          else
            let demux = set_feed feed (f\<lparr>feed_state := DMX_STATE_FREE\<rparr>) demux;
                demux = dvb_demux_feed_del feed demux
            in Ret (0, set_feed feed ((feeds demux ! feed)\<lparr>feed_pid := 0xffff\<rparr>) demux))"

subsection \<open>The demultiplexer as a whole\<close>

definition dvbdmx_open :: "'u dvb_demux \<Rightarrow> int \<times> 'u dvb_demux" where
  "dvbdmx_open d =
     (if demux_users d \<ge> MAX_DVB_DEMUX_USERS then (- EUSERS, d) else (0, d\<lparr>demux_users := demux_users d + 1\<rparr>))"

definition dvbdmx_close :: "'u dvb_demux \<Rightarrow> int \<times> 'u dvb_demux" where
  "dvbdmx_close d =
     (if demux_users d = 0 then (- ENODEV, d) else (0, d\<lparr>demux_users := demux_users d - 1\<rparr>))"

definition dvbdmx_write ::
  "bool \<Rightarrow> bool \<Rightarrow> 'u dvb_demux \<Rightarrow> bytes \<Rightarrow> 'u \<Rightarrow> ((int \<times> 'u) \<times> 'u dvb_demux) kres" where
  "dvbdmx_write sig pending demux buf u =
     (case demux_frontend demux of
        None \<Rightarrow> Ret ((- EINVAL, u), demux)
      | Some fe \<Rightarrow>
          if fe_source fe \<noteq> DMX_MEMORY_FE then Ret ((- EINVAL, u), demux)
          else demux_locked sig demux (- ERESTARTSYS, u) (\<lambda>demux.
            kbind (dvb_dmx_swfilter demux buf u) (\<lambda>(demux, u).
              Ret ((if pending then - EINTR else int (length buf), u), demux))))"

definition dvbdmx_add_frontend :: "'u dvb_demux \<Rightarrow> dmx_frontend \<Rightarrow> int \<times> 'u dvb_demux" where
  "dvbdmx_add_frontend d frontend = (0, d\<lparr>frontend_list := frontend # frontend_list d\<rparr>)"

definition dvbdmx_remove_frontend :: "'u dvb_demux \<Rightarrow> dmx_frontend \<Rightarrow> int \<times> 'u dvb_demux" where
  "dvbdmx_remove_frontend d frontend =
     (if frontend \<in> set (frontend_list d)
      then (0, d\<lparr>frontend_list := remove1 frontend (frontend_list d)\<rparr>) else (- ENODEV, d))"

definition dvbdmx_get_frontends :: "'u dvb_demux \<Rightarrow> dmx_frontend list option" where
  "dvbdmx_get_frontends d = (if frontend_list d = [] then None else Some (frontend_list d))"

definition dvbdmx_connect_frontend :: "bool \<Rightarrow> 'u dvb_demux \<Rightarrow> dmx_frontend option \<Rightarrow> (int \<times> 'u dvb_demux) kres" where
  "dvbdmx_connect_frontend sig d frontend =
     (if demux_frontend d \<noteq> None then Ret (- EINVAL, d)
      else demux_locked sig d (- ERESTARTSYS) (\<lambda>d. Ret (0, d\<lparr>demux_frontend := frontend\<rparr>)))"

definition dvbdmx_disconnect_frontend :: "bool \<Rightarrow> 'u dvb_demux \<Rightarrow> (int \<times> 'u dvb_demux) kres" where
  "dvbdmx_disconnect_frontend sig d =
     demux_locked sig d (- ERESTARTSYS) (\<lambda>d. Ret (0, d\<lparr>demux_frontend := None\<rparr>))"

definition dvbdmx_get_pes_pids :: "'u dvb_demux \<Rightarrow> int \<times> nat list" where
  "dvbdmx_get_pes_pids d = (0, take 5 (demux_pids d))"

text \<open>
  Initialisation: \<open>raw_filters\<close> and \<open>raw_feeds\<close> are the contents of the two allocated arrays, \<^const>\<open>None\<close>
  when the allocation fails; \<open>self\<close> identifies the demultiplexer in the registry.
\<close>

definition dvb_dmx_init ::
  "nat \<Rightarrow> nat list \<Rightarrow> dvb_demux_filter list option \<Rightarrow> 'u dvb_demux_feed list option \<Rightarrow> 'u dvb_demux \<Rightarrow>
   int \<times> nat list \<times> 'u dvb_demux" where
  "dvb_dmx_init self dmx_muxs raw_filters raw_feeds d =
     (let d = d\<lparr>demux_users := 0\<rparr>
      in case raw_filters of
           None \<Rightarrow> (- ENOMEM, dmx_muxs, d\<lparr>filters := []\<rparr>)
         | Some fs \<Rightarrow>
             case raw_feeds of
               None \<Rightarrow> (- ENOMEM, dmx_muxs, d\<lparr>filters := fs, feeds := []\<rparr>)
             | Some gs \<Rightarrow>
                 let d = d\<lparr>
                   filters := map (\<lambda>i. (fs ! i)\<lparr>filter_state := DMX_STATE_FREE, filter_index := i\<rparr>) [0..<length fs],
                   feeds := map (\<lambda>g. g\<lparr>feed_state := DMX_STATE_FREE\<rparr>) gs,
                   frontend_list := [], pesfilter := replicate DMX_TS_PES_OTHER None,
                   demux_pids := replicate DMX_TS_PES_OTHER 0xffff, feed_list := [], playing := False,
                   recording := False, tsbufp := 0, demux_frontend := None, demux_mutex := False\<rparr>
                 in dmx_register_demux self dmx_muxs d)"

definition dvb_dmx_release :: "nat \<Rightarrow> nat list \<Rightarrow> 'u dvb_demux \<Rightarrow> int \<times> nat list \<times> 'u dvb_demux" where
  "dvb_dmx_release self dmx_muxs d =
     (let (_, muxs) = dmx_unregister_demux self dmx_muxs d in (0, muxs, d\<lparr>filters := [], feeds := []\<rparr>))"

end
