(* ===== verification/DVB_Feeds_Inv.thy ===== *)
theory DVB_Feeds_Inv
  imports DVB_Feeds
begin

text \<open>
  The invariant of the demultiplexer: the list of feeds holds distinct feeds in use, every section
  feed has a proper chain of filters of its own, every TS feed has one filter of its own, and a
  running section feed announces a length within a bound. Every operation on feeds and filters keeps
  it (\<open>DVB_Demux_Reach\<close> adds the packets). Further theorems say what the match routine does with the
  prepared masks of a filter, and where releasing a filter deadlocks.
\<close>

section \<open>The invariant\<close>

text \<open>
  \<open>feed_ok m fs i f\<close>: the feed \<open>f\<close> at index \<open>i\<close>, unless free, has a proper filter chain whose members
  are in use and belong to it (a section feed), or one filter of its own (a TS feed), and a running
  section feed announces a length within its buffer.
\<close>

definition owned :: "dvb_demux_filter list \<Rightarrow> nat \<Rightarrow> nat \<Rightarrow> bool" where
  "owned fs i j \<longleftrightarrow> j < length fs \<and> filter_feed (fs ! j) = Some i \<and> filter_state (fs ! j) \<noteq> DMX_STATE_FREE"

definition feed_ok :: "nat \<Rightarrow> dvb_demux_filter list \<Rightarrow> nat \<Rightarrow> 'u dvb_demux_feed \<Rightarrow> bool" where
  "feed_ok m fs i f \<longleftrightarrow> feed_state f \<noteq> DMX_STATE_FREE \<longrightarrow>
     (case feed_type f of
        DMX_TYPE_SEC \<Rightarrow>
          (\<exists>is. filter_path fs (feed_filter f) is \<and> (\<forall>j\<in>set is. owned fs i j)) \<and>
          (is_filtering f \<longrightarrow> seclen f \<le> m)
      | DMX_TYPE_TS \<Rightarrow> (\<exists>j. feed_filter f = Some j \<and> owned fs i j)
      | DMX_TYPE_PES \<Rightarrow> False)"

definition demux_inv :: "nat \<Rightarrow> 'u dvb_demux \<Rightarrow> bool" where
  "demux_inv m d \<longleftrightarrow> distinct (feed_list d) \<and>
     (\<forall>i\<in>set (feed_list d). i < length (feeds d) \<and> feed_state (feeds d ! i) \<noteq> DMX_STATE_FREE) \<and>
     (\<forall>i<length (feeds d). length (secbuf (feeds d ! i)) = 4096 \<and> feed_ok m (filters d) i (feeds d ! i))"

lemma demux_inv_irrelevant [simp]:
  "demux_inv m (d\<lparr>demux_mutex := b\<rparr>) = demux_inv m d"
  "demux_inv m (d\<lparr>pesfilter := ps\<rparr>) = demux_inv m d"
  "demux_inv m (d\<lparr>demux_pids := qs\<rparr>) = demux_inv m d"
  "demux_inv m (d\<lparr>tsbuf := x\<rparr>) = demux_inv m d"
  "demux_inv m (d\<lparr>tsbufp := n\<rparr>) = demux_inv m d"
  "demux_inv m (d\<lparr>demux_users := k\<rparr>) = demux_inv m d"
  "demux_inv m (d\<lparr>frontend_list := l\<rparr>) = demux_inv m d"
  "demux_inv m (d\<lparr>demux_frontend := fe\<rparr>) = demux_inv m d"
  by (simp_all add: demux_inv_def)

lemma feed_okI_same:
  assumes "feed_ok m fs i f" and "feed_state f \<noteq> DMX_STATE_FREE" and "feed_type g = feed_type f"
    and "feed_filter g = feed_filter f" and "is_filtering g \<longrightarrow> is_filtering f \<and> seclen g \<le> seclen f \<or> seclen g \<le> m"
  shows "feed_ok m fs i g"
  using assms unfolding feed_ok_def by (cases "feed_type f") auto

lemma feed_ok_free: "feed_state f = DMX_STATE_FREE \<Longrightarrow> feed_ok m fs i f"
  by (simp add: feed_ok_def)

lemma feed_ok_secI:
  "filter_path fs (feed_filter f) js \<Longrightarrow> \<forall>j\<in>set js. owned fs i j \<Longrightarrow> is_filtering f \<longrightarrow> seclen f \<le> m \<Longrightarrow>
   feed_type f = DMX_TYPE_SEC \<Longrightarrow> feed_ok m fs i f"
  unfolding feed_ok_def by auto

lemma demux_inv_set_feed:
  assumes "demux_inv m d" "feed_ok m (filters d) i f" "length (secbuf f) = 4096"
    "i \<in> set (feed_list d) \<Longrightarrow> feed_state f \<noteq> DMX_STATE_FREE"
  shows "demux_inv m (set_feed i f d)"
  using assms unfolding demux_inv_def by (auto simp: nth_list_update_if)

lemma demux_inv_feed:
  "demux_inv m d \<Longrightarrow> i < length (feeds d) \<Longrightarrow> length (secbuf (feeds d ! i)) = 4096 \<and> feed_ok m (filters d) i (feeds d ! i)"
  by (simp add: demux_inv_def)

lemma filter_path_links:
  assumes "length gs = length fs" and "\<And>j. j < length fs \<Longrightarrow> filter_next (gs ! j) = filter_next (fs ! j)"
  shows "filter_path gs p is = filter_path fs p is"
  using assms by (induction "is" arbitrary: p) auto

lemma filter_path_cong_on:
  assumes "length gs = length fs" and "\<And>j. j \<in> set is \<Longrightarrow> filter_next (gs ! j) = filter_next (fs ! j)"
  shows "filter_path gs p is = filter_path fs p is"
  using assms by (induction "is" arbitrary: p) auto

text \<open>An update of filters that leaves the owned ones of a feed alone keeps the feed in order.\<close>

lemma feed_ok_filters:
  assumes ok: "feed_ok m fs i f" and len: "length gs = length fs"
    and keep: "\<And>j. owned fs i j \<Longrightarrow> filter_next (gs ! j) = filter_next (fs ! j) \<and>
      filter_feed (gs ! j) = filter_feed (fs ! j) \<and> filter_state (gs ! j) \<noteq> DMX_STATE_FREE"
  shows "feed_ok m gs i f"
proof -
  have own: "owned gs i j" if "owned fs i j" for j
    using that keep [OF that] len by (simp add: owned_def)
  have path: "filter_path gs p is" if "filter_path fs p is" "\<forall>j\<in>set is. owned fs i j" for p "is"
    using that keep len filter_path_cong_on [of gs fs "is" p] by auto
  show ?thesis
    using ok own path unfolding feed_ok_def by (cases "feed_type f") (auto; blast)+
qed

lemma demux_inv_set_filter_free:
  assumes inv: "demux_inv m d" and free: "filter_state (filters d ! j) = DMX_STATE_FREE"
  shows "demux_inv m (set_filter j g d)"
proof -
  have "feed_ok m (filters (set_filter j g d)) i (feeds d ! i)" if "i < length (feeds d)" for i
  proof (rule feed_ok_filters [OF conjunct2 [OF demux_inv_feed [OF inv that]]])
    show "length (filters (set_filter j g d)) = length (filters d)" by simp
    fix k assume "owned (filters d) i k"
    then have "k \<noteq> j" using free by (auto simp: owned_def)
    then show "filter_next (filters (set_filter j g d) ! k) = filter_next (filters d ! k) \<and>
        filter_feed (filters (set_filter j g d) ! k) = filter_feed (filters d ! k) \<and>
        filter_state (filters (set_filter j g d) ! k) \<noteq> DMX_STATE_FREE"
      using \<open>owned (filters d) i k\<close> by (simp add: owned_def)
  qed
  then show ?thesis using inv by (simp add: demux_inv_def)
qed

lemma locked_Ret:
  assumes "demux_locked sig d e body = Ret (r, d')"
  obtains "sig" "r = e" "d' = d"
  | d'' where "\<not> sig" "\<not> demux_mutex d" "body (d\<lparr>demux_mutex := True\<rparr>) = Ret (r, d'')" "d' = d''\<lparr>demux_mutex := False\<rparr>"
  using assms by (auto simp: demux_locked_def kbind_eq_Ret_iff split: if_splits)

text \<open>An operation under the semaphore keeps the invariant when its body does.\<close>

lemma locked_inv:
  assumes "demux_locked sig d e body = Ret (r, d')" and "demux_inv m d"
    and "\<And>d'' r. demux_inv m (d\<lparr>demux_mutex := True\<rparr>) \<Longrightarrow> body (d\<lparr>demux_mutex := True\<rparr>) = Ret (r, d'') \<Longrightarrow> demux_inv m d''"
  shows "demux_inv m d'"
  using assms(1) by (rule locked_Ret) (use assms(2,3) in auto)

lemma locked_mutex: "demux_locked sig d e body = Ret (r, d') \<Longrightarrow> \<not> demux_mutex d \<Longrightarrow> \<not> demux_mutex d'"
  by (erule locked_Ret) auto

section \<open>Every operation keeps the invariant\<close>

text \<open>A client uses the handles of feeds that it has allocated, with the operations of their type.\<close>

definition feed_handle :: "dmx_type \<Rightarrow> 'u dvb_demux \<Rightarrow> nat \<Rightarrow> bool" where
  "feed_handle t d i \<longleftrightarrow> i < length (feeds d) \<and> feed_type (feeds d ! i) = t \<and> feed_state (feeds d ! i) \<noteq> DMX_STATE_FREE"

lemma feed_handle_mutex [simp]: "feed_handle t (d\<lparr>demux_mutex := b\<rparr>) i = feed_handle t d i"
  by (simp add: feed_handle_def)

lemma feed_add_simps [simp]:
  "feeds (dvb_demux_feed_add i d) = feeds d" "filters (dvb_demux_feed_add i d) = filters d"
  "pesfilter (dvb_demux_feed_add i d) = pesfilter d"
  by (simp_all add: dvb_demux_feed_add_def)

lemma feed_del_simps [simp]:
  "feeds (dvb_demux_feed_del i d) = feeds d" "filters (dvb_demux_feed_del i d) = filters d"
  "pesfilter (dvb_demux_feed_del i d) = pesfilter d"
  by (simp_all add: dvb_demux_feed_del_def)

lemma feed_add_inv: "demux_inv m d \<Longrightarrow> feed_handle t d i \<Longrightarrow> demux_inv m (dvb_demux_feed_add i d)"
  by (auto simp: demux_inv_def dvb_demux_feed_add_def dvb_demux_feed_find_def feed_handle_def)

lemma set_feed_same_inv:
  assumes "demux_inv m d" "feed_handle t d i" "feed_type g = feed_type (feeds d ! i)"
    "feed_filter g = feed_filter (feeds d ! i)" "secbuf g = secbuf (feeds d ! i)"
    "feed_state g \<noteq> DMX_STATE_FREE"
    "is_filtering g \<longrightarrow> is_filtering (feeds d ! i) \<and> seclen g \<le> seclen (feeds d ! i) \<or> seclen g \<le> m"
  shows "demux_inv m (set_feed i g d)"
proof -
  have i: "i < length (feeds d)" "feed_state (feeds d ! i) \<noteq> DMX_STATE_FREE"
    using assms(2) by (auto simp: feed_handle_def)
  have "feed_ok m (filters d) i g"
    using demux_inv_feed [OF assms(1) i(1)] i assms by (intro feed_okI_same [of m "filters d" i "feeds d ! i" g]) simp_all
  then show ?thesis
    using demux_inv_feed [OF assms(1) i(1)] assms by (intro demux_inv_set_feed) auto
qed

lemma set_feed_twice [simp]: "set_feed i g (set_feed i f d) = set_feed i g d"
  by (simp add: set_feed_def)

lemma feed_handle_irrelevant [simp]:
  "feed_handle t (d\<lparr>pesfilter := ps\<rparr>) i = feed_handle t d i"
  "feed_handle t (d\<lparr>demux_pids := qs\<rparr>) i = feed_handle t d i"
  "feed_handle t (dvb_demux_feed_add j d) i = feed_handle t d i"
  by (simp_all add: feed_handle_def)

lemma set_feed_handle_inv:
  assumes "demux_inv m d" "feed_handle t d i" "feed_type g = t"
    "feed_filter g = feed_filter (feeds d ! i)" "secbuf g = secbuf (feeds d ! i)"
    "feed_state g \<noteq> DMX_STATE_FREE"
    "is_filtering g \<longrightarrow> is_filtering (feeds d ! i) \<and> seclen g \<le> seclen (feeds d ! i) \<or> seclen g \<le> m"
  shows "demux_inv m (set_feed i g d)"
  using assms by (intro set_feed_same_inv) (auto simp: feed_handle_def)

lemma feed_handleD:
  "feed_handle t d i \<Longrightarrow> i < length (feeds d)" "feed_handle t d i \<Longrightarrow> feed_type (feeds d ! i) = t"
  "feed_handle t d i \<Longrightarrow> feed_state (feeds d ! i) \<noteq> DMX_STATE_FREE"
  by (simp_all add: feed_handle_def)

lemma ts_feed_set_inv:
  assumes "dmx_ts_feed_set sig d i pid tt pes cbl cbs des tmo = Ret (r, d')" "demux_inv m d" "feed_handle DMX_TYPE_TS d i"
  shows "demux_inv m d'"
  using assms feed_handleD [OF assms(3)] unfolding dmx_ts_feed_set_def
  by (auto simp: Let_def split: if_splits elim!: locked_inv intro!: set_feed_handle_inv feed_add_inv)

lemma ts_feed_start_inv:
  assumes "dmx_ts_feed_start_filtering sig d i u = Ret (r, d')" "demux_inv m d" "feed_handle DMX_TYPE_TS d i"
  shows "demux_inv m d'"
proof -
  have "feed_ok m (filters d) i g" if "feed_type g = DMX_TYPE_TS" "feed_filter g = feed_filter (feeds d ! i)" for g :: "'a dvb_demux_feed"
    using demux_inv_feed [OF assms(2) feed_handleD(1) [OF assms(3)]] feed_handleD [OF assms(3)] that
    by (auto simp: feed_ok_def)
  then show ?thesis
    using assms feed_handleD [OF assms(3)] demux_inv_feed [OF assms(2)] unfolding dmx_ts_feed_start_filtering_def
    by (auto simp: Let_def case_prod_unfold split: if_splits option.splits elim!: locked_inv intro!: demux_inv_set_feed)
qed

lemma ts_feed_stop_inv:
  assumes "dmx_ts_feed_stop_filtering sig d i u = Ret (r, d')" "demux_inv m d" "feed_handle DMX_TYPE_TS d i"
  shows "demux_inv m d'"
  using assms feed_handleD [OF assms(3)] unfolding dmx_ts_feed_stop_filtering_def
  by (auto simp: Let_def case_prod_unfold split: if_splits option.splits elim!: locked_inv intro!: set_feed_handle_inv)

lemma section_feed_set_inv:
  assumes "dmx_section_feed_set sig d i pid cbs des crc = Ret (r, d')" "demux_inv m d" "feed_handle DMX_TYPE_SEC d i"
  shows "demux_inv m d'"
  using assms feed_handleD [OF assms(3)] unfolding dmx_section_feed_set_def
  by (auto simp: Let_def split: if_splits elim!: locked_inv intro!: set_feed_handle_inv feed_add_inv)

lemma section_feed_stop_inv:
  assumes "dmx_section_feed_stop_filtering sig d i u = Ret (r, d')" "demux_inv m d" "feed_handle DMX_TYPE_SEC d i"
  shows "demux_inv m d'"
  using assms feed_handleD [OF assms(3)] unfolding dmx_section_feed_stop_filtering_def
  by (auto simp: Let_def case_prod_unfold split: if_splits option.splits elim!: locked_inv intro!: set_feed_handle_inv)

lemma feed_alloc_cases:
  assumes "dvb_dmx_feed_alloc d = (p, d')"
  obtains "p = None" "d' = d"
  | i where "p = Some i" "i < length (feeds d)" "feed_state (feeds d ! i) = DMX_STATE_FREE"
      "d' = set_feed i ((feeds d ! i)\<lparr>feed_state := DMX_STATE_ALLOCATED\<rparr>) d"
proof -
  let ?i = "first_index (\<lambda>f. feed_state f = DMX_STATE_FREE) (feeds d)"
  show thesis
  proof (cases "?i = length (feeds d)")
    case True
    then show ?thesis using assms that(1) by (simp add: dvb_dmx_feed_alloc_def)
  next
    case False
    then have i: "?i < length (feeds d)" using first_index_le [of "\<lambda>f. feed_state f = DMX_STATE_FREE" "feeds d"] by linarith
    then show ?thesis
      using assms that(2) [of ?i] first_index_hit [OF i] False by (simp add: dvb_dmx_feed_alloc_def Let_def)
  qed
qed

lemma filter_alloc_cases:
  assumes "dvb_dmx_filter_alloc d = (p, d')"
  obtains "p = None" "d' = d"
  | j where "p = Some j" "j < length (filters d)" "filter_state (filters d ! j) = DMX_STATE_FREE"
      "d' = set_filter j ((filters d ! j)\<lparr>filter_state := DMX_STATE_ALLOCATED\<rparr>) d"
proof -
  let ?j = "first_index (\<lambda>f. filter_state f = DMX_STATE_FREE) (filters d)"
  show thesis
  proof (cases "?j = length (filters d)")
    case True
    then show ?thesis using assms that(1) by (simp add: dvb_dmx_filter_alloc_def)
  next
    case False
    then have j: "?j < length (filters d)" using first_index_le [of "\<lambda>f. filter_state f = DMX_STATE_FREE" "filters d"] by linarith
    then show ?thesis
      using assms that(2) [of ?j] first_index_hit [OF j] False by (simp add: dvb_dmx_filter_alloc_def Let_def)
  qed
qed

lemma free_feed_not_listed: "demux_inv m d \<Longrightarrow> feed_state (feeds d ! i) = DMX_STATE_FREE \<Longrightarrow> i \<notin> set (feed_list d)"
  by (auto simp: demux_inv_def)

lemma allocate_section_feed_inv:
  assumes "dvbdmx_allocate_section_feed sig d cb = Ret (r, d')" "demux_inv m d"
  shows "demux_inv m d'"
  using assms(1) unfolding dvbdmx_allocate_section_feed_def
proof (rule locked_inv [OF _ assms(2)])
  fix d'' r
  let ?d = "d\<lparr>demux_mutex := True\<rparr>"
  assume inv: "demux_inv m ?d" and body: "(case dvb_dmx_feed_alloc ?d of
         (None, demux) \<Rightarrow> Ret ((- EBUSY, None), demux)
       | (Some i, demux) \<Rightarrow>
           let f = (feeds demux ! i)\<lparr>feed_type := DMX_TYPE_SEC, cb_sec := cb, feed_pid := 0xffff,
                 secbufp := 0, feed_filter := None, is_filtering := False, feed_priv := None\<rparr>
           in Ret ((0, Some i), set_feed i f demux)) = Ret (r, d'')"
  obtain p e where pe: "dvb_dmx_feed_alloc ?d = (p, e)" by (cases "dvb_dmx_feed_alloc ?d")
  from pe show "demux_inv m d''"
  proof (cases rule: feed_alloc_cases)
    case 1
    then show ?thesis using pe body inv by simp
  next
    case (2 i)
    have empty: "\<exists>is. filter_path (filters d) None is \<and> (\<forall>j\<in>set is. owned (filters d) i j)"
      by (rule exI [of _ "[]"]) simp
    have "length (secbuf (feeds d ! i)) = 4096" using demux_inv_feed [OF assms(2)] 2 by simp
    then show ?thesis
      using pe body inv 2 empty
      by (auto simp: Let_def feed_ok_def intro!: demux_inv_set_feed)
  qed
qed

lemma set_filter_set_feed: "set_filter j g (set_feed i f d) = set_feed i f (set_filter j g d)"
  by (simp add: set_filter_def set_feed_def)

lemma set_filter_twice [simp]: "set_filter j g (set_filter j h d) = set_filter j g d"
  by (simp add: set_filter_def)

lemma allocate_ts_feed_inv:
  assumes "dvbdmx_allocate_ts_feed sig d cb = Ret (r, d')" "demux_inv m d"
  shows "demux_inv m d'"
  using assms(1) unfolding dvbdmx_allocate_ts_feed_def
proof (rule locked_inv [OF _ assms(2)])
  fix d'' r
  let ?d = "d\<lparr>demux_mutex := True\<rparr>"
  let ?f = "\<lambda>i. (feeds d ! i)\<lparr>feed_state := DMX_STATE_ALLOCATED, feed_type := DMX_TYPE_TS, cb_ts := cb, feed_pid := 0xffff,
                 peslen := 0xfffa, feed_priv := None, is_filtering := False\<rparr>"
  assume inv: "demux_inv m ?d" and body: "(case dvb_dmx_feed_alloc ?d of
         (None, demux) \<Rightarrow> Ret ((- EBUSY, None), demux)
       | (Some i, demux) \<Rightarrow>
           let f = (feeds demux ! i)\<lparr>feed_type := DMX_TYPE_TS, cb_ts := cb, feed_pid := 0xffff,
                 peslen := 0xfffa, feed_priv := None, is_filtering := False\<rparr>;
               demux = set_feed i f demux
           in case dvb_dmx_filter_alloc demux of
                (None, demux) \<Rightarrow>
                  Ret ((- EBUSY, Some i), set_feed i (f\<lparr>feed_filter := None, feed_state := DMX_STATE_FREE\<rparr>) demux)
              | (Some j, demux) \<Rightarrow>
                  let demux = set_feed i (f\<lparr>feed_filter := Some j\<rparr>) demux;
                      g = (filters demux ! j)\<lparr>filter_type := DMX_TYPE_TS, filter_feed := Some i,
                        filter_state := DMX_STATE_READY\<rparr>
                  in Ret ((0, Some i), set_filter j g demux)) = Ret (r, d'')"
  obtain p e where pe: "dvb_dmx_feed_alloc ?d = (p, e)" by (cases "dvb_dmx_feed_alloc ?d")
  from pe show "demux_inv m d''"
  proof (cases rule: feed_alloc_cases)
    case 1
    then show ?thesis using pe body inv by simp
  next
    case (2 i)
    have i: "i < length (feeds d)" "i \<notin> set (feed_list d)" "length (secbuf (feeds d ! i)) = 4096"
      using 2 free_feed_not_listed [OF assms(2), of i] demux_inv_feed [OF assms(2)] by auto
    let ?e = "set_feed i (?f i) ?d"
    obtain q e' where q: "dvb_dmx_filter_alloc ?e = (q, e')" by (cases "dvb_dmx_filter_alloc ?e")
    from q show ?thesis
    proof (cases rule: filter_alloc_cases)
      case 1
      then show ?thesis
        using pe body 2 q i inv by (auto simp: Let_def feed_ok_free intro!: demux_inv_set_feed)
    next
      case (2 j)
      let ?g = "(filters d ! j)\<lparr>filter_type := DMX_TYPE_TS, filter_feed := Some i, filter_state := DMX_STATE_READY\<rparr>"
      have "d'' = set_feed i ((?f i)\<lparr>feed_filter := Some j\<rparr>) (set_filter j ?g ?d)"
        using pe body \<open>p = Some i\<close> \<open>e = _\<close> q 2 i by (auto simp: Let_def set_filter_set_feed)
      moreover have "demux_inv m (set_filter j ?g ?d)"
        using 2 inv by (intro demux_inv_set_filter_free) simp_all
      moreover have "feed_ok m (filters (set_filter j ?g ?d)) i ((?f i)\<lparr>feed_filter := Some j\<rparr>)"
        using 2 by (simp add: feed_ok_def owned_def)
      ultimately show ?thesis using i by (auto intro!: demux_inv_set_feed)
    qed
  qed
qed

lemma feed_list_del [simp]: "feed_list (dvb_demux_feed_del i d) = remove1 i (feed_list d)"
  by (simp add: dvb_demux_feed_del_def dvb_demux_feed_find_def remove1_idem)

lemma demux_inv_drop_feed:
  assumes inv: "demux_inv m d" and keep: "\<And>k l. k \<noteq> i \<Longrightarrow> owned (filters d) k l \<Longrightarrow> filters e ! l = filters d ! l"
    and e: "length (filters e) = length (filters d)" "feeds e = (feeds d)[i := f]" "feed_list e = remove1 i (feed_list d)"
    and f: "feed_state f = DMX_STATE_FREE" "length (secbuf f) = 4096"
  shows "demux_inv m e"
proof -
  have "feed_ok m (filters e) k (feeds d ! k)" if "k < length (feeds d)" "k \<noteq> i" for k
    using that keep e(1)
    by (intro feed_ok_filters [OF conjunct2 [OF demux_inv_feed [OF inv that(1)]]]) (auto simp: owned_def)
  moreover have "distinct (feed_list d)" using inv by (simp add: demux_inv_def)
  ultimately show ?thesis
    using inv f e unfolding demux_inv_def by (auto simp: nth_list_update_if feed_ok_free)
qed

lemma release_section_feed_inv:
  assumes "dvbdmx_release_section_feed sig d i = Ret (r, d')" "demux_inv m d" "feed_handle DMX_TYPE_SEC d i"
  shows "demux_inv m d'"
proof -
  have sb: "length (secbuf (feeds d ! i)) = 4096" using demux_inv_feed [OF assms(2) feed_handleD(1) [OF assms(3)]] by simp
  show ?thesis
    using assms(1) unfolding dvbdmx_release_section_feed_def
    by (rule locked_inv [OF _ assms(2)])
      (auto simp: Let_def sb feed_handleD [OF assms(3)] intro!: demux_inv_drop_feed [OF assms(2), of i])
qed

lemma release_ts_feed_inv:
  assumes "dvbdmx_release_ts_feed sig d i = Ret (r, d')" "demux_inv m d" "feed_handle DMX_TYPE_TS d i"
  shows "demux_inv m d'"
proof -
  have sb: "length (secbuf (feeds d ! i)) = 4096" and ok: "feed_ok m (filters d) i (feeds d ! i)"
    using demux_inv_feed [OF assms(2) feed_handleD(1) [OF assms(3)]] by simp_all
  then obtain j where j: "feed_filter (feeds d ! i) = Some j" "owned (filters d) i j"
    using feed_handleD [OF assms(3)] by (auto simp: feed_ok_def)
  have other: "l \<noteq> j" if "owned (filters d) k l" "k \<noteq> i" for k l
    using that j by (auto simp: owned_def)
  show ?thesis
    using assms(1) unfolding dvbdmx_release_ts_feed_def
    by (rule locked_inv [OF _ assms(2)])
      (auto simp: Let_def sb feed_handleD [OF assms(3)] j set_filter_set_feed dest!: other split: if_splits
        intro!: demux_inv_drop_feed [OF assms(2), of i])
qed

lemma allocate_filter_inv:
  assumes "dmx_section_feed_allocate_filter sig d i = Ret (r, d')" "demux_inv m d" "feed_handle DMX_TYPE_SEC d i"
  shows "demux_inv m d'"
  using assms(1) unfolding dmx_section_feed_allocate_filter_def
proof (rule locked_inv [OF _ assms(2)])
  fix d'' r
  let ?d = "d\<lparr>demux_mutex := True\<rparr>"
  assume inv: "demux_inv m ?d" and body: "(case dvb_dmx_filter_alloc ?d of
         (None, demux) \<Rightarrow> Ret ((- EBUSY, None), demux)
       | (Some j, demux) \<Rightarrow>
           let g = (filters demux ! j)\<lparr>filter_priv := None, filter_feed := Some i,
                 filter_type := DMX_TYPE_SEC, filter_state := DMX_STATE_READY,
                 filter_next := feed_filter (feeds demux ! i)\<rparr>;
               demux = set_filter j g demux
           in Ret ((0, Some j), set_feed i ((feeds demux ! i)\<lparr>feed_filter := Some j\<rparr>) demux)) = Ret (r, d'')"
  obtain p e where pe: "dvb_dmx_filter_alloc ?d = (p, e)" by (cases "dvb_dmx_filter_alloc ?d")
  from pe show "demux_inv m d''"
  proof (cases rule: filter_alloc_cases)
    case 1
    then show ?thesis using pe body inv by simp
  next
    case (2 j)
    let ?f = "feeds d ! i"
    let ?g = "(filters d ! j)\<lparr>filter_priv := None, filter_feed := Some i, filter_type := DMX_TYPE_SEC,
        filter_state := DMX_STATE_READY, filter_next := feed_filter ?f\<rparr>"
    let ?e = "set_filter j ?g ?d"
    have d'': "d'' = set_feed i (?f\<lparr>feed_filter := Some j\<rparr>) ?e"
      using pe body 2 by (auto simp: Let_def)
    have sb: "length (secbuf ?f) = 4096" and ok: "feed_ok m (filters d) i ?f"
      using demux_inv_feed [OF assms(2) feed_handleD(1) [OF assms(3)]] by simp_all
    then obtain "is" where path: "filter_path (filters d) (feed_filter ?f) is" "\<forall>k\<in>set is. owned (filters d) i k"
      and run: "is_filtering ?f \<longrightarrow> seclen ?f \<le> m"
      using feed_handleD [OF assms(3)] by (auto simp: feed_ok_def)
    have j: "j \<notin> set is" using path(2) 2 by (auto simp: owned_def)
    then have "filter_path (filters ?e) (Some j) (j # is)"
      using path 2 by (simp add: filter_path_update_other)
    moreover have "\<forall>k\<in>set (j # is). owned (filters ?e) i k"
      using path(2) 2 by (auto simp: owned_def nth_list_update_if)
    ultimately have "feed_ok m (filters ?e) i (?f\<lparr>feed_filter := Some j\<rparr>)"
      using run feed_handleD [OF assms(3)] 2 by (intro feed_ok_secI [where js = "j # is"]) auto
    moreover have "demux_inv m ?e" using 2 inv by (intro demux_inv_set_filter_free) simp_all
    ultimately show ?thesis
      using sb feed_handleD [OF assms(3)] unfolding d'' by (intro demux_inv_set_feed) auto
  qed
qed

text \<open>The preparation of the filters does not touch the chains.\<close>

lemma prepare_filter_links [simp]:
  "filter_next (prepare_filter f) = filter_next f" "filter_feed (prepare_filter f) = filter_feed f"
  "filter_state (prepare_filter f) = filter_state f" "filter_priv (prepare_filter f) = filter_priv f"
  by (simp_all add: prepare_filter_def Let_def)

lemma prepare_chain_spec:
  assumes "filter_path fs (Some f) is" "length is \<le> n"
  shows "prepare_chain fs n f = Ret (map (\<lambda>j. if j \<in> set is then prepare_filter (fs ! j) else fs ! j) [0..<length fs])"
  using assms
proof (induction n arbitrary: fs f "is")
  case 0
  then show ?case by simp
next
  case (Suc n)
  then obtain js where "is": "is = f # js" and f: "f < length fs" and js: "filter_path fs (filter_next (fs ! f)) js"
    by (cases "is") auto
  let ?fs = "fs[f := prepare_filter (fs ! f)]"
  have fresh: "f \<notin> set js" using js by (rule filter_path_head_not_in_tail)
  show ?case
  proof (cases "filter_next (fs ! f)")
    case None
    then have "js = []" using js by (cases js) auto
    moreover have "?fs = map (\<lambda>j. if j = f then prepare_filter (fs ! j) else fs ! j) [0..<length fs]"
      by (rule nth_equalityI) (auto simp: nth_list_update_if)
    ultimately show ?thesis using None f "is" by simp
  next
    case (Some g)
    have "filter_path ?fs (Some g) js" using js fresh Some by (simp add: filter_path_update_other)
    then have "prepare_chain ?fs n g = Ret (map (\<lambda>j. if j \<in> set js then prepare_filter (?fs ! j) else ?fs ! j) [0..<length ?fs])"
      using Suc.prems(2) "is" by (intro Suc.IH) simp_all
    also have "map (\<lambda>j. if j \<in> set js then prepare_filter (?fs ! j) else ?fs ! j) [0..<length ?fs] =
        map (\<lambda>j. if j \<in> set is then prepare_filter (fs ! j) else fs ! j) [0..<length fs]"
      using fresh by (auto simp: "is" nth_list_update_if)
    finally show ?thesis using Some f by simp
  qed
qed

lemma demux_inv_relink:
  assumes inv: "demux_inv m d" and len: "length gs = length (filters d)"
    and same: "\<And>j. j < length gs \<Longrightarrow> filter_next (gs ! j) = filter_next (filters d ! j) \<and>
      filter_feed (gs ! j) = filter_feed (filters d ! j) \<and> filter_state (gs ! j) = filter_state (filters d ! j)"
  shows "demux_inv m (d\<lparr>filters := gs\<rparr>)"
proof -
  have "feed_ok m gs i (feeds d ! i)" if "i < length (feeds d)" for i
    using len same by (intro feed_ok_filters [OF conjunct2 [OF demux_inv_feed [OF inv that]]]) (auto simp: owned_def)
  then show ?thesis using inv by (simp add: demux_inv_def)
qed

lemma prepare_secfilters_inv:
  assumes inv: "demux_inv m d" and h: "feed_handle DMX_TYPE_SEC d i"
  shows "\<exists>gs. prepare_secfilters d i = Ret (d\<lparr>filters := gs\<rparr>) \<and> demux_inv m (d\<lparr>filters := gs\<rparr>) \<and>
    length gs = length (filters d) \<and>
    (\<forall>is. filter_path (filters d) (feed_filter (feeds d ! i)) is \<longrightarrow>
      gs = map (\<lambda>j. if j \<in> set is then prepare_filter (filters d ! j) else filters d ! j) [0..<length (filters d)])"
proof -
  obtain "is" where path: "filter_path (filters d) (feed_filter (feeds d ! i)) is"
    using demux_inv_feed [OF inv feed_handleD(1) [OF h]] feed_handleD [OF h] by (auto simp: feed_ok_def)
  let ?gs = "map (\<lambda>j. if j \<in> set is then prepare_filter (filters d ! j) else filters d ! j) [0..<length (filters d)]"
  have "demux_inv m (d\<lparr>filters := ?gs\<rparr>)" by (rule demux_inv_relink [OF inv]) simp_all
  moreover have "prepare_secfilters d i = Ret (d\<lparr>filters := ?gs\<rparr>)"
  proof (cases "feed_filter (feeds d ! i)")
    case None
    then have "is = []" using path by (cases "is") auto
    then have "?gs = filters d" by (simp add: map_nth)
    then show ?thesis using None by (simp add: prepare_secfilters_def)
  next
    case (Some f)
    have "prepare_chain (filters d) (Suc (length (filters d))) f = Ret ?gs"
      using path Some filter_path_length [OF path] by (intro prepare_chain_spec) simp_all
    then show ?thesis using Some by (simp add: prepare_secfilters_def)
  qed
  moreover have "js = is" if "filter_path (filters d) (feed_filter (feeds d ! i)) js" for js
    using filter_path_unique [OF that path] .
  ultimately show ?thesis by (intro exI [of _ ?gs]) auto
qed

lemma section_feed_start_inv:
  assumes "dmx_section_feed_start_filtering sig d i u = Ret (r, d')" "demux_inv m d" "feed_handle DMX_TYPE_SEC d i"
  shows "demux_inv m d'"
proof -
  note h = feed_handleD [OF assms(3)]
  let ?d = "d\<lparr>demux_mutex := True\<rparr>"
  let ?f = "(feeds d ! i)\<lparr>secbufp := 0, seclen := 0\<rparr>"
  let ?e = "set_feed i ?f ?d"
  have e: "demux_inv m ?e"
    using assms h by (intro set_feed_handle_inv [of m _ DMX_TYPE_SEC]) simp_all
  have he: "feed_handle DMX_TYPE_SEC ?e i" using h by (simp add: feed_handle_def)
  obtain gs where gs: "prepare_secfilters ?e i = Ret (?e\<lparr>filters := gs\<rparr>)" "demux_inv m (?e\<lparr>filters := gs\<rparr>)"
    using prepare_secfilters_inv [OF e he] by blast
  have hg: "feed_handle DMX_TYPE_SEC (?e\<lparr>filters := gs\<rparr>) i" using h by (simp add: feed_handle_def)
  have "demux_inv m (set_feed i (?f\<lparr>is_filtering := True, feed_state := DMX_STATE_GO\<rparr>) (?e\<lparr>filters := gs\<rparr>))"
    using h by (intro set_feed_handle_inv [OF gs(2) hg]) simp_all
  then show ?thesis
    using assms(1) unfolding dmx_section_feed_start_filtering_def
    by (elim locked_inv [OF _ assms(2)])
      (auto simp: Let_def case_prod_unfold e gs assms split: if_splits option.splits)
qed

text \<open>Taking a filter out of its chain.\<close>

lemma find_predecessor_path:
  "find_predecessor fs n p target = Ret q \<Longrightarrow> filter_path fs p is \<Longrightarrow> \<exists>as bs. is = as @ q # target # bs"
proof (induction n arbitrary: p "is")
  case 0
  then show ?case by simp
next
  case (Suc n)
  then obtain f where p: "p = Some f" "f < length fs" by (auto split: option.splits if_splits)
  then obtain js where "is": "is = f # js" and js: "filter_path fs (filter_next (fs ! f)) js"
    using Suc.prems(2) by (cases "is") auto
  show ?case
  proof (cases "filter_next (fs ! f) = Some target")
    case True
    then have "q = f" using Suc.prems(1) p by simp
    moreover obtain bs where "js = target # bs" using js True by (cases js) auto
    ultimately show ?thesis using "is" by (simp add: exI [of _ "[]"])
  next
    case False
    then obtain as bs where "js = as @ q # target # bs"
      using Suc.IH [OF _ js] Suc.prems(1) p by auto
    then have "is = (f # as) @ q # target # bs" using "is" by simp
    then show ?thesis by blast
  qed
qed

lemma filter_path_unlink:
  assumes "filter_path fs p (as @ q # target # bs)"
  shows "filter_path (fs[q := (fs ! q)\<lparr>filter_next := filter_next (fs ! target)\<rparr>]) p (as @ q # bs)"
proof -
  have d: "distinct (as @ q # target # bs)" using assms by (rule filter_path_distinct)
  let ?gs = "fs[q := (fs ! q)\<lparr>filter_next := filter_next (fs ! target)\<rparr>]"
  have "filter_path ?gs p (as @ q # bs)" if "filter_path fs p (as @ q # target # bs)" "q \<notin> set as" "q \<notin> set bs" for p as
    using that
  proof (induction as arbitrary: p)
    case Nil
    then show ?case by (auto simp: filter_path_update_other)
  next
    case (Cons a as)
    then show ?case by auto
  qed
  then show ?thesis using assms d by auto
qed

lemma demux_inv_unlink:
  assumes inv: "demux_inv m d" and h: "feed_handle DMX_TYPE_SEC d i"
    and path: "filter_path (filters d) (feed_filter (feeds d ! i)) is" "\<forall>j\<in>set is. owned (filters d) i j"
    and t: "t \<in> set is" and len: "length (filters e) = length (filters d)"
    and keep: "\<And>k. filter_feed (filters d ! k) \<noteq> Some i \<Longrightarrow> filters e ! k = filters d ! k"
    and path': "filter_path (filters e) (feed_filter f) js" "\<forall>j\<in>set js. owned (filters e) i j"
    and e: "feeds e = (feeds d)[i := f]" "feed_list e = feed_list d"
    and f: "feed_type f = DMX_TYPE_SEC" "feed_state f \<noteq> DMX_STATE_FREE" "secbuf f = secbuf (feeds d ! i)"
      "is_filtering f \<longrightarrow> seclen f \<le> m"
  shows "demux_inv m e"
proof -
  have "feed_ok m (filters e) k (feeds d ! k)" if "k < length (feeds d)" "k \<noteq> i" for k
    using that keep len
    by (intro feed_ok_filters [OF conjunct2 [OF demux_inv_feed [OF inv that(1)]]]) (auto simp: owned_def)
  moreover have "feed_ok m (filters e) i f" using path' f by (intro feed_ok_secI)
  ultimately show ?thesis
    using inv e f unfolding demux_inv_def by (auto simp: nth_list_update_if)
qed

text \<open>
  The part of the release of a filter behind the ownership test and the stop of the feed, and
  what it does to the invariant.
\<close>

lemma release_filter_unlink_inv:
  assumes inv: "demux_inv m d" and h: "feed_handle DMX_TYPE_SEC d i" and own: "filter_feed (filters d ! t) = Some i"
    and unlink: "(let f = feeds d ! i
              in if feed_filter f = Some t
                 then Ret (set_feed i (f\<lparr>feed_filter := filter_next (filters d ! t)\<rparr>) d)
                 else kbind (find_predecessor (filters d) (Suc (length (filters d))) (feed_filter f) t) (\<lambda>p.
                   Ret (set_filter p ((filters d ! p)\<lparr>filter_next := filter_next (filters d ! t)\<rparr>) d))) = Ret e"
  shows "demux_inv m (set_filter t ((filters e ! t)\<lparr>filter_state := DMX_STATE_FREE\<rparr>) e)"
proof -
  let ?f = "feeds d ! i"
  note hd = feed_handleD [OF h]
  obtain "is" where path: "filter_path (filters d) (feed_filter ?f) is" "\<forall>k\<in>set is. owned (filters d) i k"
    and run: "is_filtering ?f \<longrightarrow> seclen ?f \<le> m"
    using demux_inv_feed [OF inv hd(1)] hd by (auto simp: feed_ok_def)
  have dist: "distinct is" using path(1) by (rule filter_path_distinct)
  show ?thesis
  proof (cases "feed_filter ?f = Some t")
    case True
    then obtain js where js: "is = t # js" "t < length (filters d)" "filter_path (filters d) (filter_next (filters d ! t)) js"
      using path(1) by (cases "is") auto
    have e: "e = set_feed i (?f\<lparr>feed_filter := filter_next (filters d ! t)\<rparr>) d"
      using unlink True by (simp add: Let_def)
    have t: "t \<notin> set js" using dist js by simp
    have ne: "t \<noteq> k" if "filter_feed (filters d ! k) \<noteq> Some i" for k using own that by auto
    show ?thesis
      by (rule demux_inv_unlink [OF inv h path, of t _ "?f\<lparr>feed_filter := filter_next (filters d ! t)\<rparr>" js])
        (use e js t ne run hd path(2) in \<open>auto simp: filter_path_update_other nth_list_update_if owned_def\<close>)
  next
    case False
    then obtain p where p: "find_predecessor (filters d) (Suc (length (filters d))) (feed_filter ?f) t = Ret p"
      and e: "e = set_filter p ((filters d ! p)\<lparr>filter_next := filter_next (filters d ! t)\<rparr>) d"
      using unlink by (auto simp: Let_def kbind_eq_Ret_iff)
    obtain as bs where "is": "is = as @ p # t # bs" using find_predecessor_path [OF p path(1)] by blast
    let ?js = "as @ p # bs"
    have t: "t \<notin> set ?js" "t \<noteq> p" using dist "is" by auto
    have own': "owned (filters d) i k" if "k \<in> set is" for k using path(2) that by blast
    have "filter_path (filters e) (feed_filter ?f) ?js"
      using filter_path_unlink path(1) "is" by (simp add: e)
    then have path': "filter_path (filters (set_filter t ((filters e ! t)\<lparr>filter_state := DMX_STATE_FREE\<rparr>) e)) (feed_filter ?f) ?js"
      using t by (simp add: filter_path_update_other)
    have ownjs: "\<forall>k\<in>set ?js. owned (filters (set_filter t ((filters e ! t)\<lparr>filter_state := DMX_STATE_FREE\<rparr>) e)) i k"
      using own' t "is" by (auto simp: owned_def e nth_list_update_if)
    have "filter_feed (filters d ! p) = Some i" using own' "is" by (simp add: owned_def)
    then have ne: "t \<noteq> k" "p \<noteq> k" if "filter_feed (filters d ! k) \<noteq> Some i" for k using own that by auto
    show ?thesis
      by (rule demux_inv_unlink [OF inv h path, of t _ ?f ?js])
        (use e "is" ne run hd path' ownjs in \<open>auto simp: nth_list_update_neq\<close>)
  qed
qed

lemma stop_filtering_handle:
  "dmx_section_feed_stop_filtering sig d i u = Ret (r, d') \<Longrightarrow>
   filters d' = filters d \<and> (feed_handle t d i \<longrightarrow> feed_handle t d' i)"
  unfolding dmx_section_feed_stop_filtering_def
  by (erule locked_Ret) (auto simp: Let_def case_prod_unfold feed_handle_def split: option.splits)

lemma release_filter_inv:
  assumes "dmx_section_feed_release_filter sig sig2 d i t u = Ret (r, d')" "demux_inv m d" "feed_handle DMX_TYPE_SEC d i"
  shows "demux_inv m d'"
  using assms(1) unfolding dmx_section_feed_release_filter_def
proof (rule locked_inv [OF _ assms(2)])
  fix d'' r
  let ?d = "d\<lparr>demux_mutex := True\<rparr>"
  let ?unlink = "\<lambda>demux. (let f = feeds demux ! i
              in if feed_filter f = Some t
                 then Ret (set_feed i (f\<lparr>feed_filter := filter_next (filters demux ! t)\<rparr>) demux)
                 else kbind (find_predecessor (filters demux) (Suc (length (filters demux))) (feed_filter f) t) (\<lambda>p.
                   Ret (set_filter p ((filters demux ! p)\<lparr>filter_next := filter_next (filters demux ! t)\<rparr>) demux)))"
  assume inv: "demux_inv m ?d" and body: "(if filter_feed (filters ?d ! t) \<noteq> Some i then Ret ((- EINVAL, u), ?d)
       else kbind
         (if is_filtering (feeds ?d ! i)
          then dmx_section_feed_stop_filtering sig2 ?d i u else Ret ((0, u), ?d))
         (\<lambda>((_, u), demux).
           kbind (?unlink demux) (\<lambda>demux.
               Ret ((0, u), set_filter t ((filters demux ! t)\<lparr>filter_state := DMX_STATE_FREE\<rparr>) demux)))) = Ret (r, d'')"
  show "demux_inv m d''"
  proof (cases "filter_feed (filters d ! t) = Some i")
    case False
    then show ?thesis using body inv by simp
  next
    case True
    have h: "feed_handle DMX_TYPE_SEC ?d i" using assms(3) by simp
    obtain x d1 where stop: "(if is_filtering (feeds ?d ! i)
          then dmx_section_feed_stop_filtering sig2 ?d i u else Ret ((0, u), ?d)) = Ret (x, d1)"
      using body True by (auto simp: kbind_eq_Ret_iff)
    have d1: "demux_inv m d1" "feed_handle DMX_TYPE_SEC d1 i" "filters d1 = filters d"
      using stop inv h section_feed_stop_inv [OF _ inv h] stop_filtering_handle [of sig2 ?d i u x d1]
      by (auto split: if_splits)
    obtain e where e: "?unlink d1 = Ret e" "d'' = set_filter t ((filters e ! t)\<lparr>filter_state := DMX_STATE_FREE\<rparr>) e"
    proof -
      obtain y v where x: "x = (y, v)" by (cases x)
      have "kbind (Ret (x, d1)) (\<lambda>((_, u), demux). kbind (?unlink demux) (\<lambda>demux.
          Ret ((0, u), set_filter t ((filters demux ! t)\<lparr>filter_state := DMX_STATE_FREE\<rparr>) demux))) = Ret (r, d'')"
        using body True unfolding stop by simp
      then show thesis using that by (cases "?unlink d1") (simp_all only: x kbind.simps prod.case, auto)
    qed
    show ?thesis
      using release_filter_unlink_inv [OF d1(1,2) _ e(1)] True d1(3) e(2) by simp
  qed
qed

section \<open>The meaning of a prepared filter\<close>

lemma u8_eq_0_bits: "w = 0 \<longleftrightarrow> (\<forall>n<8. \<not> bit w n)" for w :: u8
  by (auto simp: bit_eq_iff dest: bit_imp_le_length)

lemma foldl_or_eq_0: "foldl (OR) a ws = 0 \<longleftrightarrow> a = 0 \<and> (\<forall>w\<in>set ws. w = 0)" for a :: u8
  by (induction ws arbitrary: a) (auto simp: u8_or_eq_0_iff)

lemma prepare_filter_masks:
  "i < 18 \<Longrightarrow> maskandmode (prepare_filter f) ! i = filter_mask f ! i AND filter_mode f ! i"
  "i < 18 \<Longrightarrow> maskandnotmode (prepare_filter f) ! i = filter_mask f ! i AND NOT (filter_mode f ! i)"
  "filter_value (prepare_filter f) = filter_value f"
  "doneq (prepare_filter f) \<longleftrightarrow> (\<exists>i<18. filter_mask f ! i AND NOT (filter_mode f ! i) \<noteq> 0)"
  unfolding prepare_filter_def Let_def by (simp_all add: foldl_or_eq_0 del: upt_Suc) auto

lemma prepared_filter_bits:
  "section_matches (prepare_filter f) S \<longleftrightarrow>
    (\<forall>i<18. \<forall>n<8. bit (filter_mask f ! i) n \<and> bit (filter_mode f ! i) n \<longrightarrow>
      bit (filter_value f ! i) n = bit (S ! i) n) \<and>
    ((\<exists>i<18. \<exists>n<8. bit (filter_mask f ! i) n \<and> \<not> bit (filter_mode f ! i) n) \<longrightarrow>
     (\<exists>i<18. \<exists>n<8. bit (filter_mask f ! i) n \<and> \<not> bit (filter_mode f ! i) n \<and>
       bit (filter_value f ! i) n \<noteq> bit (S ! i) n))"
proof -
  have pos: "(filter_mask f ! i AND filter_mode f ! i) AND (filter_value f ! i XOR S ! i) = 0 \<longleftrightarrow>
      (\<forall>n<8. bit (filter_mask f ! i) n \<and> bit (filter_mode f ! i) n \<longrightarrow> bit (filter_value f ! i) n = bit (S ! i) n)" for i
    unfolding u8_eq_0_bits by (auto simp: bit_and_iff bit_xor_iff)
  have neg: "(filter_mask f ! i AND NOT (filter_mode f ! i)) AND (filter_value f ! i XOR S ! i) \<noteq> 0 \<longleftrightarrow>
      (\<exists>n<8. bit (filter_mask f ! i) n \<and> \<not> bit (filter_mode f ! i) n \<and> bit (filter_value f ! i) n \<noteq> bit (S ! i) n)" for i
    unfolding u8_eq_0_bits by (auto simp: bit_and_iff bit_xor_iff bit_not_iff)
  have some: "filter_mask f ! i AND NOT (filter_mode f ! i) \<noteq> 0 \<longleftrightarrow>
      (\<exists>n<8. bit (filter_mask f ! i) n \<and> \<not> bit (filter_mode f ! i) n)" for i
    unfolding u8_eq_0_bits by (auto simp: bit_and_iff bit_not_iff)
  have "section_matches (prepare_filter f) S \<longleftrightarrow>
      (\<forall>i<18. (filter_mask f ! i AND filter_mode f ! i) AND (filter_value f ! i XOR S ! i) = 0) \<and>
      ((\<exists>i<18. filter_mask f ! i AND NOT (filter_mode f ! i) \<noteq> 0) \<longrightarrow>
       (\<exists>i<18. (filter_mask f ! i AND NOT (filter_mode f ! i)) AND (filter_value f ! i XOR S ! i) \<noteq> 0))"
    unfolding section_matches_def prepare_filter_masks(3,4) using prepare_filter_masks(1,2) [of _ f] by auto
  then show ?thesis unfolding pos neg some .
qed

text \<open>
  C17. What the match routine does with a prepared filter, bit by bit: it calls the callback of the
  feed, with the bytes of the section and the client of the filter, exactly if every bit that the
  mask selects with mode 1 is the bit of the filter value, and, when the mask selects any bit with
  mode 0, at least one of those differs from the filter value. Otherwise it does nothing. No other
  bit of the section matters.
\<close>

theorem prepared_filter_meaning:
  "dvb_dmx_swfilter_sectionfilter feed (prepare_filter f) u =
    (if (\<forall>i<18. \<forall>n<8. bit (filter_mask f ! i) n \<and> bit (filter_mode f ! i) n \<longrightarrow>
           bit (filter_value f ! i) n = bit (secbuf feed ! i) n) \<and>
        ((\<exists>i<18. \<exists>n<8. bit (filter_mask f ! i) n \<and> \<not> bit (filter_mode f ! i) n) \<longrightarrow>
         (\<exists>i<18. \<exists>n<8. bit (filter_mask f ! i) n \<and> \<not> bit (filter_mode f ! i) n \<and>
           bit (filter_value f ! i) n \<noteq> bit (secbuf feed ! i) n))
     then cb_sec feed (take (seclen feed) (secbuf feed)) [] (filter_priv f) u
     else (0, u))"
  by (simp only: sectionfilter_matches prepared_filter_bits prepare_filter_links)

definition mixed_filter :: dvb_demux_filter where
  "mixed_filter = (demo_filter 0xff 7 None)\<lparr>filter_value := 2 # 5 # replicate 16 0,
     filter_mask := 0xff # 0x3f # replicate 16 0, filter_mode := 0xff # replicate 17 0\<rparr>"

theorem prepared_filter_meaning_witness:
  "dvb_dmx_swfilter_sectionfilter (demo_feed\<lparr>secbuf := 2 # 6 # replicate 16 0, seclen := 3\<rparr>) (prepare_filter mixed_filter) [] =
     (0, [(Some 7, [2, 6, 0])]) \<and>
   dvb_dmx_swfilter_sectionfilter (demo_feed\<lparr>secbuf := 2 # 5 # replicate 16 0, seclen := 3\<rparr>) (prepare_filter mixed_filter) [] =
     (0, []) \<and>
   dvb_dmx_swfilter_sectionfilter (demo_feed\<lparr>secbuf := 3 # 6 # replicate 16 0, seclen := 3\<rparr>) (prepare_filter mixed_filter) [] =
     (0, [])"
proof -
  note meaning = prepared_filter_meaning [where f = mixed_filter, folded prepared_filter_bits]
  have "section_matches (prepare_filter mixed_filter) (2 # 6 # replicate 16 0)"
    "\<not> section_matches (prepare_filter mixed_filter) (2 # 5 # replicate 16 0)"
    "\<not> section_matches (prepare_filter mixed_filter) (3 # 6 # replicate 16 0)"
    by code_simp+
  then show ?thesis unfolding meaning by (simp add: demo_feed_def mixed_filter_def log_cb_def demo_filter_def)
qed

text \<open>
  C33. Releasing a filter of a running section feed never returns: the routine holds the
  semaphore of the demultiplexer when it calls the stop routine of the feed, which waits for
  the same semaphore.
\<close>

theorem release_filter_of_running_feed_hangs:
  assumes "is_filtering (feeds d ! feed)" and "filter_feed (filters d ! target) = Some feed"
  shows "dmx_section_feed_release_filter False False d feed target u = Hang"
  using assms by (simp add: dmx_section_feed_release_filter_def demux_locked_def dmx_section_feed_stop_filtering_def)

theorem release_filter_of_running_feed_hangs_witness:
  "dmx_section_feed_release_filter False False demo_demux 0 1 [] = Hang"
  by (rule release_filter_of_running_feed_hangs) (simp_all add: demo_defs)

end
