(* ===== verification/DVB_Demux_Reach.thy ===== *)
theory DVB_Demux_Reach
  imports DVB_Feeds_Inv
begin

text \<open>
  The states that a demultiplexer (\<^verbatim>\<open>dvb_demux.c\<close>) can reach: initialisation, then any sequence of
  calls of its clients and of packets, blocks and streams from the hardware or a memory front end.
  Reachability is relative to a predicate on the packets that pass. Whatever the packets are,
  the list of feeds and the chains of filters stay in order. When no packet holds a byte pair that
  reads as the header of a section above 4096 bytes, no announced length exceeds the buffer
  either, and the packet filter returns for every packet.
\<close>

section \<open>What a call that returns keeps of a feed\<close>

definition feed_kept :: "'u dvb_demux_feed \<Rightarrow> 'u dvb_demux_feed \<Rightarrow> bool" where
  "feed_kept f g \<longleftrightarrow> feed_config g = feed_config f \<and> length (secbuf g) = length (secbuf f) \<and>
     (seclen f \<le> 4098 \<longrightarrow> seclen g \<le> 4098)"

lemma feed_kept_refl [simp]: "feed_kept f f"
  by (simp add: feed_kept_def)

lemma feed_kept_trans: "feed_kept f g \<Longrightarrow> feed_kept g h \<Longrightarrow> feed_kept f h"
  by (simp add: feed_kept_def)

lemma feed_kept_update [simp]:
  "feed_kept f (g\<lparr>crc_val := a\<rparr>) = feed_kept f g"
  "feed_kept f (g\<lparr>secbufp := n\<rparr>) = feed_kept f g"
  "feed_kept f (g\<lparr>feed_cc := c\<rparr>) = feed_kept f g"
  "feed_kept (f\<lparr>crc_val := a\<rparr>) g = feed_kept f g"
  "feed_kept (f\<lparr>secbufp := n\<rparr>) g = feed_kept f g"
  "feed_kept (f\<lparr>feed_cc := c\<rparr>) g = feed_kept f g"
  by (simp_all add: feed_kept_def)

lemma feed_kept_seclen: "feed_kept f g \<Longrightarrow> n \<le> 4098 \<Longrightarrow> feed_kept f (g\<lparr>seclen := n\<rparr>)"
  by (simp add: feed_kept_def)

lemma feed_kept_header: "feed_kept f g \<Longrightarrow> feed_kept f (g\<lparr>seclen := section_length buf\<rparr>)"
  by (intro feed_kept_seclen section_length_le)

lemma feed_kept_into: "feed_kept f a \<Longrightarrow> feed_kept (a\<lparr>seclen := section_length buf\<rparr>) g \<Longrightarrow> feed_kept f g"
  using feed_kept_trans feed_kept_header by blast

lemma memcopy_kept: "dvb_dmx_memcopy f doff s soff len = Ret g \<Longrightarrow> feed_kept f g"
  by (auto simp: dvb_dmx_memcopy_def memcpy_def kbind_eq_Ret_iff feed_kept_def split: if_splits)

lemma section_feed_kept: "dvb_dmx_swfilter_section_feed fs f u = Ret (r, g, v) \<Longrightarrow> feed_kept f g"
  by (auto simp: dvb_dmx_swfilter_section_feed_def dvb_dmx_crc32_def memset_def feed_kept_def kbind_eq_Ret_iff Let_def
    split: if_splits option.splits)

text \<open>
  Copying into the buffer of a feed that descends from \<open>f\<close>, and offering its section to the filters.
\<close>

lemma copy_offer_kept:
  assumes "kbind (dvb_dmx_memcopy h doff s soff len) (\<lambda>g.
      kbind (dvb_dmx_swfilter_section_feed fs (g\<lparr>secbufp := k g\<rparr>) u) (\<lambda>(_, g, u). Ret (0, g, u))) = Ret (r, g, v)"
    and "feed_kept f h"
  shows "feed_kept f g"
  using assms by (auto simp: kbind_eq_Ret_iff dest!: memcopy_kept section_feed_kept intro: feed_kept_trans)

lemma finish_kept: "section_packet_finish fs f buf p u = Ret (r, g, v) \<Longrightarrow> feed_kept f g"
  by (auto simp: section_packet_finish_def Let_def split: if_splits elim: copy_offer_kept)

lemma rest_kept:
  assumes "section_packet_rest fs f buf p u = Ret (r, g, v)"
  shows "feed_kept f g"
  using assms
  by (auto simp: section_packet_rest_def Let_def kbind_eq_Ret_iff split: if_splits dest!: memcopy_kept finish_kept
      intro: feed_kept_header feed_kept_into)

lemma fill_kept: "section_packet_fill fs f buf p count u = Ret (r, g, v) \<Longrightarrow> feed_kept f g"
  by (auto simp: section_packet_fill_def Let_def kbind_eq_Ret_iff split: if_splits
    dest!: memcopy_kept section_feed_kept intro: feed_kept_trans)

lemma continue_kept: "section_packet_continue fs f buf p count ccok u = Ret (r, g, v) \<Longrightarrow> feed_kept f g"
  by (auto simp: section_packet_continue_def Let_def kbind_eq_Ret_iff split: if_splits dest!: memcopy_kept fill_kept
      intro: feed_kept_header feed_kept_into)

lemma loop_kept: "section_packet_loop fs f buf p u = Ret (r, g, v) \<Longrightarrow> feed_kept f g"
proof (induction "188 - p" arbitrary: f p u rule: less_induct)
  case less
  let ?n = "section_length (drop p buf)"
  let ?f = "f\<lparr>crc_val := NOT 0, seclen := ?n\<rparr>"
  have head: "feed_kept f ?f" by (rule feed_kept_header) simp
  consider "188 \<le> p" | "p < 188" "188 - p \<le> 2" | "p < 188" "2 < 188 - p" "188 - p < ?n"
    | "p < 188" "2 < 188 - p" "?n \<le> 188 - p" by linarith
  then show ?case
  proof cases
    case 3
    then have "kbind (dvb_dmx_memcopy ?f 0 buf p (188 - p)) (\<lambda>h. Ret (0, h\<lparr>secbufp := secbufp h + (188 - p)\<rparr>, u)) = Ret (r, g, v)"
      using less.prems by (subst (asm) section_packet_loop.simps) (simp add: Let_def)
    then show ?thesis using feed_kept_trans [OF head memcopy_kept] by (auto simp: kbind_eq_Ret_iff)
  next
    case 4
    then have "\<not> 4096 < ?n" by linarith
    with 4 have eq: "section_packet_loop fs f buf p u =
        kbind (dvb_dmx_memcopy ?f 0 buf p ?n) (\<lambda>h.
          kbind (dvb_dmx_swfilter_section_feed fs (h\<lparr>secbufp := seclen h\<rparr>) u) (\<lambda>(_, k, w).
            if 188 - (p + ?n) \<noteq> 0 \<and> buf ! (p + ?n) = 0xff then Ret (0, k, w)
            else section_packet_loop fs k buf (p + ?n) w))"
      by (subst section_packet_loop.simps) (simp add: Let_def not_le)
    obtain h x k w where h: "dvb_dmx_memcopy ?f 0 buf p ?n = Ret h"
      and k: "dvb_dmx_swfilter_section_feed fs (h\<lparr>secbufp := seclen h\<rparr>) u = Ret (x, k, w)"
      and rest: "(if 188 - (p + ?n) \<noteq> 0 \<and> buf ! (p + ?n) = 0xff then Ret (0, k, w)
        else section_packet_loop fs k buf (p + ?n) w) = Ret (r, g, v)"
      using less.prems unfolding eq by (auto simp: kbind_eq_Ret_iff)
    have "feed_kept f k" using feed_kept_trans [OF head memcopy_kept [OF h]] section_feed_kept [OF k] feed_kept_trans by auto
    moreover have "188 - (p + ?n) < 188 - p" using 4 section_length_ge [of "drop p buf"] by linarith
    ultimately show ?thesis using rest less.hyps [of "p + ?n" k w] feed_kept_trans by (auto split: if_splits)
  qed (use less.prems in \<open>auto simp: section_packet_loop.simps [of fs f]\<close>)
qed

lemma section_packet_kept: "dvb_dmx_swfilter_section_packet fs f buf u = Ret (r, g, v) \<Longrightarrow> feed_kept f g"
  by (auto simp: dvb_dmx_swfilter_section_packet_def Let_def kbind_eq_Ret_iff split: if_splits
    dest!: rest_kept loop_kept continue_kept intro: feed_kept_trans)

lemma payload_kept: "dvb_dmx_swfilter_payload f buf u = (r, g, v) \<Longrightarrow> feed_kept f g"
  by (auto simp: dvb_dmx_swfilter_payload_def Let_def feed_kept_def split: if_splits prod.splits)

lemma packet_type_kept:
  assumes "dvb_dmx_swfilter_packet_type d i f buf u = Ret (g, v)"
  shows "feed_kept f g"
proof (cases "feed_type f")
  case DMX_TYPE_TS
  then show ?thesis
    using assms payload_kept [of f buf u] unfolding dvb_dmx_swfilter_packet_type_def
    by (cases "is_filtering f"; cases "ts_type f AND TS_PACKET = 0"; cases "ts_type f AND TS_PAYLOAD_ONLY = 0")
      (auto simp: Let_def case_prod_unfold prod_eq_iff)
next
  case DMX_TYPE_SEC
  then show ?thesis
    using assms feed_kept_seclen [of f _ 0]
    by (auto simp: dvb_dmx_swfilter_packet_type_def kbind_eq_Ret_iff split: if_splits dest!: section_packet_kept)
next
  case DMX_TYPE_PES
  then show ?thesis using assms by (simp add: dvb_dmx_swfilter_packet_type_def)
qed

section \<open>Packets that return\<close>

lemma payload_feed: "(fst (snd (dvb_dmx_swfilter_payload f buf u)))\<lparr>peslen := 0\<rparr> = f\<lparr>peslen := 0\<rparr>"
  by (simp add: dvb_dmx_swfilter_payload_def Let_def case_prod_unfold)

lemma packet_type_ts:
  assumes "feed_type f = DMX_TYPE_TS"
  obtains g v where "dvb_dmx_swfilter_packet_type d i f buf u = Ret (g, v)" "g\<lparr>peslen := 0\<rparr> = f\<lparr>peslen := 0\<rparr>"
  using that assms payload_feed [of f buf u] unfolding dvb_dmx_swfilter_packet_type_def
  by (cases "is_filtering f"; cases "ts_type f AND TS_PACKET = 0"; cases "ts_type f AND TS_PAYLOAD_ONLY = 0")
    (simp_all add: Let_def case_prod_unfold)

lemma peslen_eqD:
  assumes "g\<lparr>peslen := 0\<rparr> = f\<lparr>peslen := 0\<rparr>"
  shows "feed_config g = feed_config f" "secbuf g = secbuf f" "seclen g = seclen f"
  using arg_cong [OF assms, of feed_config] arg_cong [OF assms, of secbuf] arg_cong [OF assms, of seclen] by simp_all

lemma packet_type_ok:
  assumes "length (secbuf f) = 4096" "feed_ok 4096 (filters d) i f" "feed_state f \<noteq> DMX_STATE_FREE" "length buf = 188"
  shows "\<exists>f' u'. dvb_dmx_swfilter_packet_type d i f buf u = Ret (f', u') \<and> feed_config f' = feed_config f \<and>
    length (secbuf f') = 4096 \<and> ((\<forall>n. \<not> oversize_header buf n) \<longrightarrow> feed_ok 4096 (filters d) i f')"
proof (cases "feed_type f")
  case DMX_TYPE_TS
  then obtain g v where r: "dvb_dmx_swfilter_packet_type d i f buf u = Ret (g, v)" "g\<lparr>peslen := 0\<rparr> = f\<lparr>peslen := 0\<rparr>"
    by (rule packet_type_ts)
  note same = peslen_eqD [OF r(2)]
  have "feed_ok 4096 (filters d) i g"
    using feed_config_eqD [OF same(1)] same by (intro feed_okI_same [OF assms(2,3)]) simp_all
  with r same assms(1) show ?thesis by simp
next
  case DMX_TYPE_SEC
  show ?thesis
  proof (cases "is_filtering f")
    case False
    then show ?thesis using assms DMX_TYPE_SEC by (simp add: dvb_dmx_swfilter_packet_type_def)
  next
    case True
    then have "secbuf_inv (filters d) f"
      using assms DMX_TYPE_SEC by (auto simp: secbuf_inv_def feed_ok_def chain_ok_def)
    from section_packet_ok [OF this assms(4), of u]
    obtain r g v where g: "dvb_dmx_swfilter_section_packet (filters d) f buf u = Ret (r, g, v)"
      "length (secbuf g) = length (secbuf f)" "feed_config g = feed_config f"
      "seclen g \<le> 4096 \<or> r < 0 \<or> oversize_header buf (seclen g)"
      by (auto simp: section_step_ok_def)
    let ?g = "if r < 0 then g\<lparr>secbufp := 0, seclen := 0\<rparr> else g"
    have c: "feed_config ?g = feed_config f" "length (secbuf ?g) = 4096" using g assms(1) by simp_all
    have "feed_ok 4096 (filters d) i ?g" if "\<forall>n. \<not> oversize_header buf n"
      using that g(4) feed_config_eqD [OF c(1)] by (intro feed_okI_same [OF assms(2,3)]) auto
    moreover have "dvb_dmx_swfilter_packet_type d i f buf u = Ret (?g, v)"
      using DMX_TYPE_SEC True g(1) by (intro packet_type_section)
    ultimately show ?thesis using c by blast
  qed
next
  case DMX_TYPE_PES
  then show ?thesis using assms by (simp add: feed_ok_def)
qed

text \<open>One packet of any content returns, since each listed feed sees it once.\<close>

lemma swfilter_feeds_return:
  assumes "distinct is" "length buf = 188"
    "\<forall>i\<in>set is. i < length (feeds d) \<and> feed_state (feeds d ! i) \<noteq> DMX_STATE_FREE \<and>
      length (secbuf (feeds d ! i)) = 4096 \<and> feed_ok 4096 (filters d) i (feeds d ! i)"
  shows "\<exists>d' u'. swfilter_feeds d is pid buf u = Ret (d', u')"
  using assms
proof (induction "is" arbitrary: d u)
  case Nil
  then show ?case by simp
next
  case (Cons i "is")
  let ?f = "feeds d ! i"
  obtain g v where g: "(if feed_pid ?f = pid then dvb_dmx_swfilter_packet_type d i ?f buf u else Ret (?f, u)) = Ret (g, v)"
    using packet_type_ok [of ?f d i buf u] Cons.prems by (cases "feed_pid ?f = pid") auto
  define w where "w = (if feed_pid g = 0x2000 then snd (cb_ts g (take 188 buf) [] (feed_priv g) v) else v)"
  have "swfilter_feeds d (i # is) pid buf u = swfilter_feeds (set_feed i g d) is pid buf w"
    using Cons.prems g by (simp add: w_def Let_def)
  moreover have "\<exists>d' u'. swfilter_feeds (set_feed i g d) is pid buf w = Ret (d', u')"
    using Cons.prems by (intro Cons.IH) (auto simp: nth_list_update_if)
  ultimately show ?case by simp
qed

section \<open>Packets keep the invariant\<close>

lemma feed_ok_mono: "feed_ok m fs i f \<Longrightarrow> m \<le> n \<Longrightarrow> feed_ok n fs i f"
  by (auto simp: feed_ok_def split: dmx_type.splits)

lemma demux_inv_mono: "demux_inv m d \<Longrightarrow> m \<le> n \<Longrightarrow> demux_inv n d"
  using feed_ok_mono unfolding demux_inv_def by blast

lemma demux_inv_strict:
  assumes "demux_inv n d" "\<forall>f\<in>set (feeds d). seclen f \<le> m"
  shows "demux_inv m d"
  using assms unfolding demux_inv_def feed_ok_def by (auto split: dmx_type.splits)

text \<open>
  \<open>ordinary_packet\<close>: no three bytes of the packet read as the header of a section above 4096 bytes.
  Such packets keep the announced lengths within 4096 bytes, all others within 4098.
\<close>

definition ordinary_packet :: "bytes \<Rightarrow> bool" where
  "ordinary_packet p \<longleftrightarrow> length p = 188 \<and> (\<forall>n. \<not> oversize_header p n)"

definition admitted :: "nat \<Rightarrow> bytes \<Rightarrow> bool" where
  "admitted m buf \<longleftrightarrow> m = 4098 \<or> m = 4096 \<and> ordinary_packet buf"

lemma packet_type_inv:
  assumes "dvb_dmx_swfilter_packet_type d i f buf u = Ret (g, v)" "length (secbuf f) = 4096" "feed_ok m (filters d) i f"
    "feed_state f \<noteq> DMX_STATE_FREE" "admitted m buf"
  shows "length (secbuf g) = 4096 \<and> feed_ok m (filters d) i g \<and> feed_state g = feed_state f"
proof -
  have kept: "feed_config g = feed_config f" "length (secbuf g) = 4096" "seclen f \<le> 4098 \<longrightarrow> seclen g \<le> 4098"
    using packet_type_kept [OF assms(1)] assms(2) by (simp_all add: feed_kept_def)
  note same = feed_config_eqD [OF kept(1)]
  have "feed_ok m (filters d) i g"
  proof (cases "m = 4098")
    case True
    then show ?thesis using assms(3,4) kept(3) same by (auto simp: feed_ok_def split: dmx_type.splits)
  next
    case False
    then have m: "m = 4096" "length buf = 188" "\<forall>n. \<not> oversize_header buf n"
      using assms(5) by (auto simp: admitted_def ordinary_packet_def)
    then show ?thesis using packet_type_ok [of f d i buf u] assms by auto
  qed
  then show ?thesis using kept(2) same by simp
qed

lemma swfilter_feeds_inv:
  assumes "swfilter_feeds d is pid buf u = Ret (d', v)" "demux_inv m d" "set is \<subseteq> set (feed_list d)" "admitted m buf"
  shows "demux_inv m d'"
  using assms
proof (induction "is" arbitrary: d u)
  case Nil
  then show ?case by simp
next
  case (Cons i "is")
  let ?f = "feeds d ! i"
  have i: "i < length (feeds d)" "feed_state ?f \<noteq> DMX_STATE_FREE" "length (secbuf ?f) = 4096" "feed_ok m (filters d) i ?f"
    using Cons.prems(2,3) by (auto simp: demux_inv_def)
  obtain g w where g: "(if feed_pid ?f = pid then dvb_dmx_swfilter_packet_type d i ?f buf u else Ret (?f, u)) = Ret (g, w)"
    and rest: "swfilter_feeds (set_feed i g d) is pid buf
      (if feed_pid g = 0x2000 then snd (cb_ts g (take 188 buf) [] (feed_priv g) w) else w) = Ret (d', v)"
    using Cons.prems(1) i(1) by (auto simp: Let_def kbind_eq_Ret_iff)
  have "length (secbuf g) = 4096 \<and> feed_ok m (filters d) i g \<and> feed_state g = feed_state ?f"
    using g packet_type_inv [OF _ i(3,4,2) Cons.prems(4)] i by (cases "feed_pid ?f = pid") auto
  then have "demux_inv m (set_feed i g d)" using Cons.prems(2) i(2) by (intro demux_inv_set_feed) auto
  then show ?case using Cons.IH [OF rest] Cons.prems(3,4) by simp
qed

lemma swfilter_packet_inv:
  "dvb_dmx_swfilter_packet d buf u = Ret (d', v) \<Longrightarrow> demux_inv m d \<Longrightarrow> admitted m buf \<Longrightarrow> demux_inv m d'"
  unfolding dvb_dmx_swfilter_packet_def by (erule swfilter_feeds_inv) simp_all

section \<open>Operations leave the held bytes of the stream alone\<close>

definition keeps_ts :: "'u dvb_demux \<Rightarrow> 'u dvb_demux \<Rightarrow> bool" where
  "keeps_ts d d' \<longleftrightarrow> tsbuf d' = tsbuf d \<and> tsbufp d' = tsbufp d"

lemma keeps_ts_simps [simp]:
  "keeps_ts d d" "keeps_ts d (set_feed i f e) = keeps_ts d e" "keeps_ts d (set_filter j g e) = keeps_ts d e"
  "keeps_ts d (dvb_demux_feed_add i e) = keeps_ts d e" "keeps_ts d (dvb_demux_feed_del i e) = keeps_ts d e"
  "keeps_ts d (e\<lparr>demux_mutex := b\<rparr>) = keeps_ts d e" "keeps_ts (d\<lparr>demux_mutex := b\<rparr>) e = keeps_ts d e"
  "keeps_ts d (e\<lparr>pesfilter := ps\<rparr>) = keeps_ts d e" "keeps_ts d (e\<lparr>demux_pids := qs\<rparr>) = keeps_ts d e"
  "keeps_ts d (e\<lparr>filters := gs\<rparr>) = keeps_ts d e" "keeps_ts (set_feed i f d) e = keeps_ts d e"
  by (simp_all add: keeps_ts_def dvb_demux_feed_add_def dvb_demux_feed_del_def)

lemma locked_keeps_ts:
  assumes "demux_locked sig d e body = Ret (r, d')" "\<And>d r d''. body d = Ret (r, d'') \<Longrightarrow> keeps_ts d d''"
  shows "keeps_ts d d'"
  using assms(1) by (rule locked_Ret) (use assms(2) in fastforce)+

lemma alloc_keeps_ts:
  "dvb_dmx_feed_alloc d = (p, d') \<Longrightarrow> keeps_ts d d'" "dvb_dmx_filter_alloc d = (q, d') \<Longrightarrow> keeps_ts d d'"
  by (auto simp: dvb_dmx_feed_alloc_def dvb_dmx_filter_alloc_def Let_def split: if_splits)

lemma keeps_ts_trans: "keeps_ts a b \<Longrightarrow> keeps_ts b c \<Longrightarrow> keeps_ts a c"
  by (simp add: keeps_ts_def)

lemma ops_keep_ts:
  "dmx_ts_feed_set sig d i pid tt pes cbl cbs des tmo = Ret (r1, d') \<Longrightarrow> keeps_ts d d'"
  "dmx_ts_feed_start_filtering sig d i u = Ret (r2, d') \<Longrightarrow> keeps_ts d d'"
  "dmx_ts_feed_stop_filtering sig d i u = Ret (r2, d') \<Longrightarrow> keeps_ts d d'"
  "dvbdmx_release_ts_feed sig d i = Ret (r1, d') \<Longrightarrow> keeps_ts d d'"
  "dmx_section_feed_set sig d i pid cbs des crc = Ret (r1, d') \<Longrightarrow> keeps_ts d d'"
  "dmx_section_feed_start_filtering sig d i u = Ret (r2, d') \<Longrightarrow> keeps_ts d d'"
  "dmx_section_feed_stop_filtering sig d i u = Ret (r2, d') \<Longrightarrow> keeps_ts d d'"
  "dvbdmx_release_section_feed sig d i = Ret (r1, d') \<Longrightarrow> keeps_ts d d'"
  unfolding dmx_ts_feed_set_def dmx_ts_feed_start_filtering_def dmx_ts_feed_stop_filtering_def
    dvbdmx_release_ts_feed_def dmx_section_feed_set_def dmx_section_feed_start_filtering_def
    dmx_section_feed_stop_filtering_def dvbdmx_release_section_feed_def prepare_secfilters_def
  by (auto simp: Let_def case_prod_unfold kbind_eq_Ret_iff elim!: locked_keeps_ts split: if_splits option.splits)

lemma alloc_ops_keep_ts:
  "dvbdmx_allocate_ts_feed sig d cb = Ret (r, d') \<Longrightarrow> keeps_ts d d'"
  "dvbdmx_allocate_section_feed sig d cb = Ret (r, d') \<Longrightarrow> keeps_ts d d'"
  "dmx_section_feed_allocate_filter sig d i = Ret (r, d') \<Longrightarrow> keeps_ts d d'"
  unfolding dvbdmx_allocate_ts_feed_def dvbdmx_allocate_section_feed_def dmx_section_feed_allocate_filter_def
  by (auto simp: Let_def elim!: locked_keeps_ts split: prod.splits option.splits dest!: alloc_keeps_ts)
    (blast intro: keeps_ts_trans)+

lemma release_filter_keeps_ts:
  "dmx_section_feed_release_filter sig sig2 d i t u = Ret (r, d') \<Longrightarrow> keeps_ts d d'"
  unfolding dmx_section_feed_release_filter_def
  by (erule locked_keeps_ts)
    (auto simp: Let_def kbind_eq_Ret_iff case_prod_unfold split: if_splits dest!: ops_keep_ts(7))


section \<open>Streams keep the invariant\<close>

text \<open>The places of a stream where a packet of \<open>n\<close> bytes can lie.\<close>

definition windows :: "nat \<Rightarrow> bytes \<Rightarrow> bytes set" where
  "windows n xs = {take n (drop k xs) |k. k + n \<le> length xs}"

lemma windows_drop: "windows n (drop k xs) \<subseteq> windows n xs"
proof
  fix w assume "w \<in> windows n (drop k xs)"
  then obtain j where j: "w = take n (drop (j + k) xs)" "j + n \<le> length xs - k" by (auto simp: windows_def)
  show "w \<in> windows n xs"
  proof (cases "n = 0")
    case True
    then show ?thesis using j(1) by (auto simp: windows_def)
  next
    case False
    then show ?thesis using j unfolding windows_def by (intro CollectI exI [of _ "j + k"]) auto
  qed
qed

lemma take_window: "w \<in> windows n xs \<Longrightarrow> take n w = w"
  by (auto simp: windows_def simp del: take_append drop_append)

lemma windows_first: "n \<le> length xs \<Longrightarrow> take n xs \<in> windows n xs"
  unfolding windows_def by (rule CollectI) (rule exI [of _ 0], simp)

definition stream_inv :: "nat \<Rightarrow> 'u dvb_demux \<Rightarrow> bool" where
  "stream_inv m d \<longleftrightarrow> demux_inv m d \<and> length (tsbuf d) = 204 \<and> tsbufp d \<le> 204"

lemma stream_inv_keeps: "stream_inv m d \<Longrightarrow> keeps_ts d d' \<Longrightarrow> demux_inv m d' \<Longrightarrow> stream_inv m d'"
  by (simp add: stream_inv_def keeps_ts_def)

lemma stream_inv_irrelevant [simp]:
  "stream_inv m (d\<lparr>demux_mutex := b\<rparr>) = stream_inv m d" "stream_inv m (d\<lparr>demux_users := k\<rparr>) = stream_inv m d"
  "stream_inv m (d\<lparr>frontend_list := l\<rparr>) = stream_inv m d" "stream_inv m (d\<lparr>demux_frontend := fe\<rparr>) = stream_inv m d"
  by (simp_all add: stream_inv_def)

lemma swfilter_packet_stream_inv:
  "dvb_dmx_swfilter_packet d buf u = Ret (d', v) \<Longrightarrow> stream_inv m d \<Longrightarrow> admitted m buf \<Longrightarrow> stream_inv m d'"
  using swfilter_packet_inv swfilter_packet_keeps_tsbuf by (fastforce simp: stream_inv_def)

lemma swfilter_packets_stream_inv:
  assumes "dvb_dmx_swfilter_packets d buf count u = Ret (d', v)" "stream_inv m d" "\<forall>w\<in>windows 188 buf. admitted m w"
  shows "stream_inv m d'"
  using assms
proof (induction d buf count u rule: dvb_dmx_swfilter_packets.induct)
  case (2 d buf count u)
  then have len: "188 \<le> length buf" by (auto split: if_splits)
  then obtain e w where e: "(if buf ! 0 = 0x47 then dvb_dmx_swfilter_packet d (take 188 buf) u else Ret (d, u)) = Ret (e, w)"
    "dvb_dmx_swfilter_packets e (drop 188 buf) count w = Ret (d', v)"
    using 2(2) by (auto simp: kbind_eq_Ret_iff)
  have "stream_inv m e"
    using e(1) 2(3,4) windows_first [OF len] swfilter_packet_stream_inv [of d "take 188 buf" u e w m] by (auto split: if_splits)
  moreover have "\<forall>w\<in>windows 188 (drop 188 buf). admitted m w" using 2(4) windows_drop [of 188 188 buf] by blast
  ultimately show ?case using 2(1) e len by (auto simp: kbind_eq_Ret_iff)
qed simp

context resync_routine
begin

lemma store_stream_inv:
  assumes "kbind (memcpy (tsbuf d) i buf 0 n) (\<lambda>b. Ret (d\<lparr>tsbuf := b, tsbufp := i + n\<rparr>, u)) = Ret (d', v)" "stream_inv m d"
  shows "stream_inv m d'"
  using assms by (auto simp: memcpy_def kbind_eq_Ret_iff stream_inv_def split: if_splits)

lemma loop_stream_inv:
  assumes "loop d buf u = Ret (d', v)" "stream_inv m d" "\<forall>w\<in>windows sz buf. admitted m (conv w)"
  shows "stream_inv m d'"
  using assms
proof (induction "length buf" arbitrary: d buf u rule: less_induct)
  case less
  have fewer: "\<forall>w\<in>windows sz (drop k buf). admitted m (conv w)" for k
    using less.prems(3) windows_drop [of sz k buf] by blast
  consider "buf = []" | "buf \<noteq> []" "\<not> sync (buf ! 0)" | "buf \<noteq> []" "sync (buf ! 0)" "length buf < sz"
    | "buf \<noteq> []" "sync (buf ! 0)" "sz \<le> length buf" by linarith
  then show ?case
  proof cases
    case 1
    then show ?thesis using less.prems loop_eq [of d buf u] by simp
  next
    case 2
    then have "loop d (drop 1 buf) u = Ret (d', v)" using less.prems(1) loop_eq [of d buf u] by simp
    then show ?thesis using less.hyps [of "drop 1 buf"] less.prems(2) fewer 2 by simp
  next
    case 3
    then show ?thesis using less.prems(1,2) loop_eq [of d buf u] store_stream_inv [of d 0 buf "length buf" u d' v m] by simp
  next
    case 4
    then obtain e w where e: "dvb_dmx_swfilter_packet d (conv buf) u = Ret (e, w)" "loop e (drop sz buf) w = Ret (d', v)"
      using less.prems(1) loop_eq [of d buf u] by (auto simp: kbind_eq_Ret_iff)
    have "admitted m (conv buf)" using less.prems(3) windows_first [OF 4(3)] conv_take [of buf] by metis
    then have "stream_inv m e" using e(1) less.prems(2) by (blast intro: swfilter_packet_stream_inv)
    then show ?thesis using less.hyps [of "drop sz buf"] e(2) fewer 4 size(1) by simp
  qed
qed

lemma filt_stream_inv:
  assumes "filt d buf u = Ret (d', v)" "stream_inv m d" "\<forall>w\<in>windows sz (held_bytes d @ buf). admitted m (conv w)"
  shows "stream_inv m d'"
proof -
  let ?i = "tsbufp d" let ?j = "sz - tsbufp d"
  have ts: "length (tsbuf d) = 204" "?i \<le> 204" using assms(2) by (simp_all add: stream_inv_def)
  have h: "length (held_bytes d) = ?i" using ts by (simp add: held_bytes_def)
  consider "?i = 0" | "?i \<noteq> 0" "sz < ?i \<or> length buf < ?j" | "?i \<noteq> 0" "?i \<le> sz" "?j \<le> length buf" by linarith
  then show ?thesis
  proof cases
    case 1
    then show ?thesis
      using assms filt_eq [of d buf u] loop_stream_inv [of d buf u d' v m] by (simp add: held_bytes_def)
  next
    case 2
    then show ?thesis
      using assms(1,2) filt_eq [of d buf u] store_stream_inv [of d ?i buf "length buf" u d' v m] by (simp add: Let_def)
  next
    case 3
    let ?b = "blit (tsbuf d) ?i (take ?j buf)"
    have fit: "?i + ?j \<le> length (tsbuf d)" "length (take ?j buf) = ?j" "?i + ?j = sz" using 3 ts size by auto
    have first: "take sz ?b = take sz (held_bytes d @ buf)"
      using take_blit_end [of "?i" "take ?j buf" "tsbuf d"] fit 3 h by (simp add: held_bytes_def)
    have rest: "drop sz (held_bytes d @ buf) = drop ?j buf" using h 3 by simp
    have wins: "\<forall>w\<in>windows sz (drop ?j buf). admitted m (conv w)"
      using assms(3) windows_drop [of sz sz "held_bytes d @ buf"] unfolding rest by blast
    have "sz \<le> length (held_bytes d @ buf)" using 3 h by simp
    then have "admitted m (conv (take sz ?b))" using assms(3) windows_first unfolding first by blast
    then have adm: "admitted m (conv ?b)" by (simp only: conv_take)
    obtain e w where e: "(if sync (?b ! 0) then dvb_dmx_swfilter_packet (d\<lparr>tsbuf := ?b\<rparr>) (conv ?b) u else Ret (d\<lparr>tsbuf := ?b\<rparr>, u)) = Ret (e, w)"
      "loop (e\<lparr>tsbufp := 0\<rparr>) (drop ?j buf) w = Ret (d', v)"
    proof -
      have "\<not> sz < ?i" "\<not> length buf < ?j" using 3 by linarith+
      then have eq: "filt d buf u = kbind (if sync (?b ! 0) then dvb_dmx_swfilter_packet (d\<lparr>tsbuf := ?b\<rparr>) (conv ?b) u else Ret (d\<lparr>tsbuf := ?b\<rparr>, u))
          (\<lambda>(d, u). loop (d\<lparr>tsbufp := 0\<rparr>) (drop ?j buf) u)"
        using 3(1,3) fit(1) by (simp add: filt_eq Let_def memcpy_def)
      show thesis using assms(1) that unfolding eq by (auto simp: kbind_eq_Ret_iff)
    qed
    have "stream_inv m (d\<lparr>tsbuf := ?b\<rparr>)" using assms(2) fit ts by (simp add: stream_inv_def)
    then have "stream_inv m e" using e(1) adm swfilter_packet_stream_inv by (auto split: if_splits)
    then have "stream_inv m (e\<lparr>tsbufp := 0\<rparr>)" by (simp add: stream_inv_def)
    then show ?thesis using e(2) wins by (blast intro: loop_stream_inv)
  qed
qed

end

section \<open>Reachable states\<close>

lemma write_stream_inv:
  assumes "dvbdmx_write sig pend d buf u = Ret (r, d')" "stream_inv m d" "\<forall>w\<in>windows 188 (held_bytes d @ buf). admitted m w"
  shows "stream_inv m d'"
proof -
  have conv: "\<forall>w\<in>windows 188 (held_bytes (d\<lparr>demux_mutex := True\<rparr>) @ buf). admitted m (take 188 w)"
    using assms(3) by (simp add: take_window held_bytes_def)
  show ?thesis
    using assms(1,2) sw188.filt_stream_inv [OF _ _ conv] unfolding dvbdmx_write_def
    by (auto simp: kbind_eq_Ret_iff split: option.splits if_splits elim!: locked_Ret)
qed

text \<open>
  The steps of a demultiplexer and its clients, relative to a predicate \<open>P\<close> on the packets. A client
  uses valid handles; the fields of its filters and everything outside the demultiplexer may change
  at any time. Packets come one by one, in blocks, as streams of 188 or 204 byte packets, or are
  written to a memory front end; \<open>P\<close> holds for everything in a stream that could be taken for a packet.
\<close>

inductive demux_step :: "(bytes \<Rightarrow> bool) \<Rightarrow> 'u dvb_demux \<times> 'u \<Rightarrow> 'u dvb_demux \<times> 'u \<Rightarrow> bool" for P where
  env: "demux_step P (d, u) (d, v)"
| allocate_ts: "dvbdmx_allocate_ts_feed sig d cb = Ret (r, d') \<Longrightarrow> demux_step P (d, u) (d', u)"
| set_ts: "feed_handle DMX_TYPE_TS d i \<Longrightarrow>
    dmx_ts_feed_set sig d i pid tt pes cbl cbs des tmo = Ret (r, d') \<Longrightarrow> demux_step P (d, u) (d', u)"
| start_ts: "feed_handle DMX_TYPE_TS d i \<Longrightarrow>
    dmx_ts_feed_start_filtering sig d i u = Ret ((r, v), d') \<Longrightarrow> demux_step P (d, u) (d', v)"
| stop_ts: "feed_handle DMX_TYPE_TS d i \<Longrightarrow>
    dmx_ts_feed_stop_filtering sig d i u = Ret ((r, v), d') \<Longrightarrow> demux_step P (d, u) (d', v)"
| release_ts: "feed_handle DMX_TYPE_TS d i \<Longrightarrow>
    dvbdmx_release_ts_feed sig d i = Ret (r, d') \<Longrightarrow> demux_step P (d, u) (d', u)"
| allocate_sec: "dvbdmx_allocate_section_feed sig d cb = Ret (r, d') \<Longrightarrow> demux_step P (d, u) (d', u)"
| allocate_filter: "feed_handle DMX_TYPE_SEC d i \<Longrightarrow>
    dmx_section_feed_allocate_filter sig d i = Ret (r, d') \<Longrightarrow> demux_step P (d, u) (d', u)"
| client_filter: "demux_step P (d, u) (set_filter j ((filters d ! j)\<lparr>filter_value := vs, filter_mask := ms,
    filter_mode := os, filter_priv := p\<rparr>) d, u)"
| set_sec: "feed_handle DMX_TYPE_SEC d i \<Longrightarrow>
    dmx_section_feed_set sig d i pid cbs des crc = Ret (r, d') \<Longrightarrow> demux_step P (d, u) (d', u)"
| start_sec: "feed_handle DMX_TYPE_SEC d i \<Longrightarrow>
    dmx_section_feed_start_filtering sig d i u = Ret ((r, v), d') \<Longrightarrow> demux_step P (d, u) (d', v)"
| stop_sec: "feed_handle DMX_TYPE_SEC d i \<Longrightarrow>
    dmx_section_feed_stop_filtering sig d i u = Ret ((r, v), d') \<Longrightarrow> demux_step P (d, u) (d', v)"
| release_filter: "feed_handle DMX_TYPE_SEC d i \<Longrightarrow>
    dmx_section_feed_release_filter sig sig2 d i t u = Ret ((r, v), d') \<Longrightarrow> demux_step P (d, u) (d', v)"
| release_sec: "feed_handle DMX_TYPE_SEC d i \<Longrightarrow>
    dvbdmx_release_section_feed sig d i = Ret (r, d') \<Longrightarrow> demux_step P (d, u) (d', u)"
| open_demux: "demux_step P (d, u) (snd (dvbdmx_open d), u)"
| close_demux: "demux_step P (d, u) (snd (dvbdmx_close d), u)"
| add_frontend: "demux_step P (d, u) (snd (dvbdmx_add_frontend d fe), u)"
| remove_frontend: "demux_step P (d, u) (snd (dvbdmx_remove_frontend d fe), u)"
| connect: "dvbdmx_connect_frontend sig d fo = Ret (r, d') \<Longrightarrow> demux_step P (d, u) (d', u)"
| disconnect: "dvbdmx_disconnect_frontend sig d = Ret (r, d') \<Longrightarrow> demux_step P (d, u) (d', u)"
| packet: "P buf \<Longrightarrow> length buf = 188 \<Longrightarrow> dvb_dmx_swfilter_packet d buf u = Ret (d', v) \<Longrightarrow> demux_step P (d, u) (d', v)"
| packets: "\<forall>w\<in>windows 188 buf. P w \<Longrightarrow> dvb_dmx_swfilter_packets d buf count u = Ret (d', v) \<Longrightarrow>
    demux_step P (d, u) (d', v)"
| stream: "\<forall>w\<in>windows 188 (held_bytes d @ buf). P w \<Longrightarrow> dvb_dmx_swfilter d buf u = Ret (d', v) \<Longrightarrow>
    demux_step P (d, u) (d', v)"
| stream_204: "\<forall>w\<in>windows 204 (held_bytes d @ buf). P (packet_204 w) \<Longrightarrow> dvb_dmx_swfilter_204 d buf u = Ret (d', v) \<Longrightarrow>
    demux_step P (d, u) (d', v)"
| write_fe: "\<forall>w\<in>windows 188 (held_bytes d @ buf). P w \<Longrightarrow> dvbdmx_write sig pend d buf u = Ret ((r, v), d') \<Longrightarrow>
    demux_step P (d, u) (d', v)"

inductive demux_reachable :: "(bytes \<Rightarrow> bool) \<Rightarrow> 'u dvb_demux \<times> 'u \<Rightarrow> bool" for P where
  init: "dvb_dmx_init self muxs (Some fs) (Some gs) d = (0, muxs', d') \<Longrightarrow> length (tsbuf d) = 204 \<Longrightarrow>
    \<forall>g\<in>set gs. length (secbuf g) = 4096 \<Longrightarrow> demux_reachable P (d', u)"
| step: "demux_reachable P s \<Longrightarrow> demux_step P s s' \<Longrightarrow> demux_reachable P s'"

lemma stream_invD: "stream_inv m d \<Longrightarrow> demux_inv m d"
  by (simp add: stream_inv_def)

lemmas ops_stream_inv =
  stream_inv_keeps [OF _ ops_keep_ts(1) ts_feed_set_inv] stream_inv_keeps [OF _ ops_keep_ts(2) ts_feed_start_inv]
  stream_inv_keeps [OF _ ops_keep_ts(3) ts_feed_stop_inv] stream_inv_keeps [OF _ ops_keep_ts(4) release_ts_feed_inv]
  stream_inv_keeps [OF _ ops_keep_ts(5) section_feed_set_inv] stream_inv_keeps [OF _ ops_keep_ts(6) section_feed_start_inv]
  stream_inv_keeps [OF _ ops_keep_ts(7) section_feed_stop_inv] stream_inv_keeps [OF _ ops_keep_ts(8) release_section_feed_inv]
  stream_inv_keeps [OF _ alloc_ops_keep_ts(1) allocate_ts_feed_inv] stream_inv_keeps [OF _ alloc_ops_keep_ts(2) allocate_section_feed_inv]
  stream_inv_keeps [OF _ alloc_ops_keep_ts(3) allocate_filter_inv] stream_inv_keeps [OF _ release_filter_keeps_ts release_filter_inv]

lemma frontend_ops_stream_inv:
  "stream_inv m d \<Longrightarrow> stream_inv m (snd (dvbdmx_open d))" "stream_inv m d \<Longrightarrow> stream_inv m (snd (dvbdmx_close d))"
  "stream_inv m d \<Longrightarrow> stream_inv m (snd (dvbdmx_add_frontend d fe))"
  "stream_inv m d \<Longrightarrow> stream_inv m (snd (dvbdmx_remove_frontend d fe))"
  "dvbdmx_connect_frontend sig d fo = Ret (r, d') \<Longrightarrow> stream_inv m d \<Longrightarrow> stream_inv m d'"
  "dvbdmx_disconnect_frontend sig d = Ret (r, d') \<Longrightarrow> stream_inv m d \<Longrightarrow> stream_inv m d'"
  by (auto simp: dvbdmx_open_def dvbdmx_close_def dvbdmx_add_frontend_def dvbdmx_remove_frontend_def
    dvbdmx_connect_frontend_def dvbdmx_disconnect_frontend_def split: if_splits elim!: locked_Ret)

lemma demux_step_inv:
  assumes "demux_step P s s'" "stream_inv m (fst s)" "\<forall>p. P p \<longrightarrow> admitted m p"
  shows "stream_inv m (fst s')"
  using assms(1,2)
proof (induction rule: demux_step.induct)
  case (client_filter d u j p os ms vs)
  let ?g = "(filters d ! j)\<lparr>filter_value := vs, filter_mask := ms, filter_mode := os, filter_priv := p\<rparr>"
  have "demux_inv m (d\<lparr>filters := (filters d)[j := ?g]\<rparr>)"
    using client_filter by (intro demux_inv_relink) (auto simp: stream_inv_def nth_list_update_if)
  then show ?case using client_filter by (simp add: stream_inv_def set_filter_def)
next
  case (packet buf d u d' v)
  then show ?case using assms(3) swfilter_packet_stream_inv by fastforce
next
  case (packets buf d count u d' v)
  then show ?case using assms(3) swfilter_packets_stream_inv [of d buf count u d' v m] by auto
next
  case (stream d buf u d' v)
  moreover have "\<forall>w\<in>windows 188 (held_bytes d @ buf). admitted m (take 188 w)"
    using stream(1) assms(3) by (simp add: take_window)
  ultimately show ?case using sw188.filt_stream_inv [of d buf u d' v m] by simp
next
  case (stream_204 d buf u d' v)
  then show ?case using assms(3) sw204.filt_stream_inv [of d buf u d' v m] by simp
next
  case (write_fe d buf sig pend u r v d')
  then show ?case using assms(3) write_stream_inv [of sig pend d buf u "(r, v)" d' m] by simp
qed (simp_all add: frontend_ops_stream_inv, (blast intro: ops_stream_inv frontend_ops_stream_inv(5,6) stream_invD)+)

lemma init_stream_inv:
  assumes "dvb_dmx_init self muxs (Some fs) (Some gs) d = (0, muxs', d')" "length (tsbuf d) = 204"
    "\<forall>g\<in>set gs. length (secbuf g) = 4096"
  shows "stream_inv m d'"
  using assms
  by (auto simp: dvb_dmx_init_def dmx_register_demux_def Let_def stream_inv_def demux_inv_def feed_ok_free)

lemma reachable_inv:
  assumes "demux_reachable P s" "\<forall>p. P p \<longrightarrow> admitted m p"
  shows "demux_inv m (fst s)"
proof -
  have "stream_inv m (fst s)"
    using assms(1) by (induction rule: demux_reachable.induct) (auto dest: init_stream_inv demux_step_inv [OF _ _ assms(2)])
  then show ?thesis by (simp add: stream_inv_def)
qed

lemma reachable_any_inv: "demux_reachable P s \<Longrightarrow> demux_inv 4098 (fst s)"
  by (erule reachable_inv) (simp add: admitted_def)

section \<open>Properties of the reachable states\<close>

text \<open>
  An example: two section feeds, each with a filter, the first of them running on PID 100, and a TS
  feed.
\<close>

definition demo_init :: "(nat option \<times> bytes) list dvb_demux" where
  "demo_init = snd (snd (dvb_dmx_init 0 [] (Some (replicate 3 (demo_filter 0xff 0 None))) (Some (replicate 3 demo_feed))
     (demo_demux\<lparr>start_feed := Some (\<lambda>i f u. (0, u))\<rparr>)))"

fun ret_state :: "('r \<times> 'u dvb_demux) kres \<Rightarrow> 'u dvb_demux" where
  "ret_state (Ret (r, d)) = d"
| "ret_state Hang = undefined"
| "ret_state Oops = undefined"

definition demo_alloc :: "(nat option \<times> bytes) list dvb_demux" where
  "demo_alloc = ret_state (dvbdmx_allocate_section_feed False (ret_state (dvbdmx_allocate_section_feed False demo_init log_cb)) log_cb)"

definition demo_ts :: "(nat option \<times> bytes) list dvb_demux" where
  "demo_ts = ret_state (dvbdmx_allocate_ts_feed False demo_alloc log_cb)"

definition demo_filters0 :: "(nat option \<times> bytes) list dvb_demux" where
  "demo_filters0 = ret_state (dmx_section_feed_allocate_filter False demo_ts 0)"

definition demo_filters1 :: "(nat option \<times> bytes) list dvb_demux" where
  "demo_filters1 = ret_state (dmx_section_feed_allocate_filter False demo_filters0 1)"

definition demo_set :: "(nat option \<times> bytes) list dvb_demux" where
  "demo_set = ret_state (dmx_section_feed_set False demo_filters1 0 100 4096 False False)"

definition demo_run :: "(nat option \<times> bytes) list dvb_demux" where
  "demo_run = ret_state (dmx_section_feed_start_filtering False demo_set 0 [])"

lemmas demo_run_defs = demo_run_def demo_set_def demo_filters1_def demo_filters0_def demo_ts_def demo_alloc_def demo_init_def
  dvbdmx_allocate_section_feed_def demux_locked_def dvb_dmx_feed_alloc_def dvb_dmx_init_def
  dmx_register_demux_def Let_def dmx_section_feed_allocate_filter_def dvb_dmx_filter_alloc_def dvbdmx_allocate_ts_feed_def
  dmx_section_feed_set_def dmx_section_feed_start_filtering_def prepare_secfilters_def numeral_3_eq_3 dvb_demux_feed_add_def
  dvb_demux_feed_find_def set_feed_def set_filter_def feed_handle_def

lemma demo_init_reachable: "demux_reachable P (demo_init, u)"
  unfolding demo_init_def
  by (rule demux_reachable.init [of 0 "[]" "replicate 3 (demo_filter 0xff 0 None)" "replicate 3 demo_feed"
        "demo_demux\<lparr>start_feed := Some (\<lambda>i f u. (0, u))\<rparr>" "[0]"])
    (simp_all add: dvb_dmx_init_def dmx_register_demux_def Let_def demo_demux_def)

lemma demo_steps:
  "\<exists>r d r'. dvbdmx_allocate_section_feed False demo_init log_cb = Ret (r, d) \<and> dvbdmx_allocate_section_feed False d log_cb = Ret (r', demo_alloc)"
  "\<exists>r. dvbdmx_allocate_ts_feed False demo_alloc log_cb = Ret (r, demo_ts)"
  "\<exists>r. dmx_section_feed_allocate_filter False demo_ts 0 = Ret (r, demo_filters0) \<and> feed_handle DMX_TYPE_SEC demo_ts 0"
  "\<exists>r. dmx_section_feed_allocate_filter False demo_filters0 1 = Ret (r, demo_filters1) \<and> feed_handle DMX_TYPE_SEC demo_filters0 1"
  "\<exists>r. dmx_section_feed_set False demo_filters1 0 100 4096 False False = Ret (r, demo_set) \<and> feed_handle DMX_TYPE_SEC demo_filters1 0"
  "\<exists>r. dmx_section_feed_start_filtering False demo_set 0 [] = Ret ((r, []), demo_run) \<and> feed_handle DMX_TYPE_SEC demo_set 0"
  by (simp_all add: demo_run_defs)

lemma demo_run_state:
  "feed_list demo_run = [0] \<and> length (feeds demo_run) = 3 \<and>
    is_filtering (feeds demo_run ! 0) \<and> feed_pid (feeds demo_run ! 0) = 100 \<and> (\<forall>f\<in>set (feeds demo_run). seclen f = 0) \<and>
    map feed_type (feeds demo_run) = [DMX_TYPE_SEC, DMX_TYPE_SEC, DMX_TYPE_TS] \<and> (\<forall>f\<in>set (feeds demo_run). feed_state f \<noteq> DMX_STATE_FREE) \<and>
    map feed_filter (feeds demo_run) = [Some 1, Some 2, Some 0]"
  by (simp add: demo_run_defs) (simp add: demo_feed_def)

lemma demo_run_reachable: "demux_reachable P (demo_run, [])"
proof -
  obtain r d r' where "dvbdmx_allocate_section_feed False demo_init log_cb = Ret (r, d)"
    "dvbdmx_allocate_section_feed False d log_cb = Ret (r', demo_alloc)" using demo_steps(1) by blast
  then have "demux_reachable P (demo_alloc, [])" by (blast intro: demo_init_reachable demux_reachable.step demux_step.allocate_sec)
  then have "demux_reachable P (demo_ts, [])" using demo_steps(2) by (blast intro: demux_reachable.step demux_step.allocate_ts)
  then have "demux_reachable P (demo_filters0, [])" using demo_steps(3) by (blast intro: demux_reachable.step demux_step.allocate_filter)
  then have "demux_reachable P (demo_filters1, [])" using demo_steps(4) by (blast intro: demux_reachable.step demux_step.allocate_filter)
  then have "demux_reachable P (demo_set, [])" using demo_steps(5) by (blast intro: demux_reachable.step demux_step.set_sec)
  then show ?thesis using demo_steps(6) by (blast intro: demux_reachable.step demux_step.start_sec)
qed

text \<open>
  C7. From initialisation on, whatever calls of the API, packets, blocks and streams have gone before,
  the packet filter handles the next packet of 188 bytes without fault or hang and leaves the list of
  feeds, the filter chains and the section buffers in order, provided that no feed has an announced
  section length above its buffer. That is so in particular when all packets so far were ordinary (no
  byte pair in them reads as the length of a section above 4096 bytes), and an ordinary packet keeps
  it so; the callbacks and hooks may do anything to the state outside.
\<close>

theorem reachable_packet_returns:
  assumes "demux_reachable P (d, u)" and "length buf = 188"
    and "(\<forall>p. P p \<longrightarrow> ordinary_packet p) \<or> (\<forall>f\<in>set (feeds d). seclen f \<le> 4096)"
  shows "\<exists>d' v'. dvb_dmx_swfilter_packet d buf v = Ret (d', v') \<and> demux_inv 4098 d' \<and>
    (ordinary_packet buf \<longrightarrow> demux_inv 4096 d')"
proof -
  have inv: "demux_inv 4096 d"
  proof (cases "\<forall>p. P p \<longrightarrow> ordinary_packet p")
    case True
    then show ?thesis using reachable_inv [OF assms(1), of 4096] by (simp add: admitted_def)
  next
    case False
    then show ?thesis using assms(3) reachable_any_inv [OF assms(1)] demux_inv_strict by auto
  qed
  then obtain d' v' where r: "dvb_dmx_swfilter_packet d buf v = Ret (d', v')"
    unfolding dvb_dmx_swfilter_packet_def using assms(2) swfilter_feeds_return [of "feed_list d" buf d "ts_pid buf" v]
    by (auto simp: demux_inv_def)
  have "demux_inv 4098 d'" using swfilter_packet_inv [OF r demux_inv_mono [OF inv]] by (simp add: admitted_def)
  moreover have "ordinary_packet buf \<longrightarrow> demux_inv 4096 d'" using swfilter_packet_inv [OF r inv] by (simp add: admitted_def)
  ultimately show ?thesis using r by blast
qed

theorem reachable_packet_returns_witness:
  "feed_list demo_run = [0] \<and> is_filtering (feeds demo_run ! 0) \<and> feed_pid (feeds demo_run ! 0) = ts_pid ([0x47, 0x40, 100] @ replicate 185 0x3f) \<and>
   (\<exists>d' v'. dvb_dmx_swfilter_packet demo_run ([0x47, 0x40, 100] @ replicate 185 0x3f) [] = Ret (d', v') \<and> demux_inv 4098 d')"
proof -
  have "\<forall>f\<in>set (feeds demo_run). seclen f \<le> 4096" using demo_run_state by simp
  then have "\<exists>d' v'. dvb_dmx_swfilter_packet demo_run ([0x47, 0x40, 100] @ replicate 185 0x3f) [] = Ret (d', v') \<and> demux_inv 4098 d'"
    using reachable_packet_returns [OF demo_run_reachable [of "\<lambda>_. True"], of "[0x47, 0x40, 100] @ replicate 185 0x3f" "[]"] by auto
  moreover have "ts_pid ([0x47, 0x40, 100] @ replicate 185 0x3f) = 100" by (simp add: ts_pid_def)
  ultimately show ?thesis using demo_run_state by simp
qed

text \<open>The filters of a feed: the chain of a section feed, the one filter of a TS feed.\<close>

definition feed_filters :: "'u dvb_demux \<Rightarrow> nat \<Rightarrow> nat list \<Rightarrow> bool" where
  "feed_filters d i is \<longleftrightarrow>
     (if feed_type (feeds d ! i) = DMX_TYPE_SEC then filter_path (filters d) (feed_filter (feeds d ! i)) is
      else \<exists>j<length (filters d). feed_filter (feeds d ! i) = Some j \<and> is = [j])"

lemma feed_filters_owned:
  assumes "demux_inv m d" "i < length (feeds d)" "feed_state (feeds d ! i) \<noteq> DMX_STATE_FREE"
  shows "\<exists>is. feed_filters d i is \<and> (\<forall>k\<in>set is. owned (filters d) i k)"
proof (cases "feed_type (feeds d ! i)")
  case DMX_TYPE_TS
  then obtain j where "feed_filter (feeds d ! i) = Some j" "owned (filters d) i j"
    using demux_inv_feed [OF assms(1,2)] assms(3) by (auto simp: feed_ok_def)
  then show ?thesis using DMX_TYPE_TS by (intro exI [of _ "[j]"]) (auto simp: feed_filters_def owned_def)
qed (use demux_inv_feed [OF assms(1,2)] assms(3) in \<open>auto simp: feed_ok_def feed_filters_def\<close>)

text \<open>
  C16. In every state that the API and any packets can reach, the list of feeds is free of duplicates
  and holds only feeds in use, and two different feeds in use, section or TS feeds, have no filter in
  common: the filters of a feed (its chain, which is finite, or its single filter) are in use and
  belong to this feed only.
\<close>

theorem reachable_feeds_disjoint:
  assumes "demux_reachable P (d, u)" and "i < length (feeds d)" "j < length (feeds d)" "i \<noteq> j"
    and "feed_state (feeds d ! i) \<noteq> DMX_STATE_FREE" "feed_state (feeds d ! j) \<noteq> DMX_STATE_FREE"
  shows "distinct (feed_list d) \<and> (\<forall>k\<in>set (feed_list d). k < length (feeds d) \<and> feed_state (feeds d ! k) \<noteq> DMX_STATE_FREE) \<and>
    (\<exists>is js. feed_filters d i is \<and> feed_filters d j js \<and> set is \<inter> set js = {} \<and>
      (\<forall>k\<in>set is. filter_feed (filters d ! k) = Some i \<and> filter_state (filters d ! k) \<noteq> DMX_STATE_FREE))"
proof -
  have inv: "demux_inv 4098 d" using reachable_any_inv [OF assms(1)] by simp
  obtain "is" js where own: "feed_filters d i is" "\<forall>k\<in>set is. owned (filters d) i k"
    "feed_filters d j js" "\<forall>k\<in>set js. owned (filters d) j k"
    using feed_filters_owned [OF inv assms(2,5)] feed_filters_owned [OF inv assms(3,6)] by blast
  moreover have "set is \<inter> set js = {}" using own(2,4) assms(4) by (fastforce simp: owned_def)
  moreover have "distinct (feed_list d) \<and> (\<forall>k\<in>set (feed_list d). k < length (feeds d) \<and> feed_state (feeds d ! k) \<noteq> DMX_STATE_FREE)"
    using inv by (auto simp: demux_inv_def)
  ultimately show ?thesis by (auto simp: owned_def)
qed

theorem reachable_feeds_disjoint_witness:
  "feed_filters demo_run 0 [1] \<and> feed_filters demo_run 2 [0] \<and> filter_feed (filters demo_run ! 1) = Some 0"
proof -
  have "feed_state (feeds demo_run ! k) \<noteq> DMX_STATE_FREE" if "k < 3" for k using demo_run_state that by simp
  then obtain "is" js where *: "feed_filters demo_run 0 is" "feed_filters demo_run 2 js" "set is \<inter> set js = {}"
    "\<forall>k\<in>set is. filter_feed (filters demo_run ! k) = Some 0"
    using reachable_feeds_disjoint [OF demo_run_reachable [of "\<lambda>_. True"], of 0 2] demo_run_state by auto
  moreover have "feed_filters demo_run 0 [1]" "feed_filters demo_run 2 [0]" by (simp_all add: feed_filters_def demo_run_defs)
  moreover have "is = [1]"
    using *(1) \<open>feed_filters demo_run 0 [1]\<close> filter_path_unique by (auto simp: feed_filters_def split: if_splits)
  ultimately show ?thesis by simp
qed

end
