(* ===== verification/DVB_Dmxdev_Buffer.thy ===== *)
theory DVB_Dmxdev_Buffer
  imports DVB_Fifo
begin

text \<open>
  The buffer between the demultiplexer and the readers of its devices in \<^verbatim>\<open>dvb-core/dmxdev.c\<close>. The
  sizes come from \<^verbatim>\<open>vmalloc\<close>ed memory and stay below \<open>2 ^ 31\<close>, so the C integers are natural numbers
  here and the differences the code forms are integers.

  A reader may sleep. What happens meanwhile is a list of events: another context changes the
  buffer and wakes the queue, or a signal arrives; a reader that sleeps after the last event never
  returns. The destination of a read is user memory of which \<open>cap\<close> bytes are writable.

  The lemmas show that the buffer is a byte queue (an instance of \<^verbatim>\<open>byte_fifo\<close>) and that a blocking
  read returns exactly the bytes it asked for, in the order of their arrival.
\<close>

section \<open>The code\<close>

record dmxdev_buffer =
  buf_data :: "bytes option"
  buf_size :: nat
  buf_pread :: nat
  buf_pwrite :: nat
  buf_error :: int

definition dvb_dmxdev_buffer_init :: dmxdev_buffer where
  "dvb_dmxdev_buffer_init =
     \<lparr>buf_data = None, buf_size = 8192, buf_pread = 0, buf_pwrite = 0, buf_error = 0\<rparr>"

definition dvb_dmxdev_buffer_write :: "dmxdev_buffer \<Rightarrow> bytes \<Rightarrow> (int \<times> dmxdev_buffer) kres" where
  "dvb_dmxdev_buffer_write buf src =
     (let len = length src
      in if len = 0 then Ret (0, buf)
         else
           case buf_data buf of
             None \<Rightarrow> Ret (0, buf)
           | Some d \<Rightarrow>
               let free = int (buf_pread buf) - int (buf_pwrite buf);
                   split = (if free \<le> 0 then buf_size buf - buf_pwrite buf else 0);
                   free = (if free \<le> 0 then free + int (buf_size buf) else free)
               in if int len \<ge> free then Ret (- 1, buf)
                  else
                    let split = (if split \<ge> len then 0 else split)
                    in kbind
                      (if split \<noteq> 0
                       then kbind (memcpy d (buf_pwrite buf) src 0 split) (\<lambda>d. Ret (d, 0, len - split))
                       else Ret (d, buf_pwrite buf, len))
                      (\<lambda>(d, pwrite, todo).
                        kbind (memcpy d pwrite src split todo) (\<lambda>d.
                          Ret (int len, buf\<lparr>buf_data := Some d, buf_pwrite := (pwrite + todo) mod buf_size buf\<rparr>))))"

datatype wait = Wake "dmxdev_buffer \<Rightarrow> dmxdev_buffer" | Signal

text \<open>\<^verbatim>\<open>wait_event_interruptible\<close>: \<^const>\<open>True\<close> when a signal ends the wait.\<close>

fun wait_event :: "wait list \<Rightarrow> dmxdev_buffer \<Rightarrow> (bool \<times> dmxdev_buffer \<times> wait list) kres" where
  "wait_event ws src =
     (if buf_pread src \<noteq> buf_pwrite src \<or> buf_error src \<noteq> 0 then Ret (False, src, ws)
      else
        case ws of
          [] \<Rightarrow> Hang
        | Signal # ws \<Rightarrow> Ret (True, src, ws)
        | Wake f # ws \<Rightarrow> wait_event ws (f src))"

declare wait_event.simps [simp del]

text \<open>\<^verbatim>\<open>copy_to_user\<close> behind the \<open>out\<close> bytes already delivered; \<^const>\<open>None\<close> when it faults.\<close>

definition copy_to_user :: "nat \<Rightarrow> bytes \<Rightarrow> bytes \<Rightarrow> nat \<Rightarrow> nat \<Rightarrow> bytes option kres" where
  "copy_to_user cap out d off n =
     kbind (memread d off n) (\<lambda>xs. Ret (if length out + n \<le> cap then Some (out @ xs) else None))"

definition buffer_read_chunk ::
  "nat \<Rightarrow> dmxdev_buffer \<Rightarrow> bytes \<Rightarrow> bytes \<Rightarrow> nat \<Rightarrow> (bool \<times> dmxdev_buffer \<times> bytes \<times> nat) kres" where
  "buffer_read_chunk cap src d out todo =
     (let avail = int (buf_pwrite src) - int (buf_pread src);
          split = (if avail < 0 then int (buf_size src) - int (buf_pread src) else int (buf_size src));
          avail = (if avail < 0 then avail + int (buf_size src) else avail);
          avail = nat (min avail (int todo)); split = nat split
      in kbind
        (if split < avail
         then kbind (copy_to_user cap out d (buf_pread src) split) (\<lambda>r.
           case r of
             None \<Rightarrow> Ret (True, src, out, todo, avail)
           | Some out \<Rightarrow> Ret (False, src\<lparr>buf_pread := 0\<rparr>, out, todo - split, avail - split))
         else Ret (False, src, out, todo, avail))
        (\<lambda>(fault, src, out, todo, avail).
          if fault then Ret (True, src, out, todo)
          else if avail \<noteq> 0
          then kbind (copy_to_user cap out d (buf_pread src) avail) (\<lambda>r.
            case r of
              None \<Rightarrow> Ret (True, src, out, todo)
            | Some out \<Rightarrow>
                Ret (False, src\<lparr>buf_pread := (buf_pread src + avail) mod buf_size src\<rparr>, out, todo - avail))
          else Ret (False, src, out, todo)))"

text \<open>Every round of the loop transfers something, so \<open>count + 1\<close> rounds suffice.\<close>

fun buffer_read_loop ::
  "nat \<Rightarrow> bool \<Rightarrow> nat \<Rightarrow> nat \<Rightarrow> dmxdev_buffer \<Rightarrow> wait list \<Rightarrow> bytes \<Rightarrow> nat \<Rightarrow>
   (int \<times> bytes \<times> dmxdev_buffer \<times> wait list) kres" where
  "buffer_read_loop 0 non_blocking cap count src ws out todo = Hang"
| "buffer_read_loop (Suc n) non_blocking cap count src ws out todo =
     (if todo = 0 then Ret (int count, out, src, ws)
      else if non_blocking \<and> buf_pwrite src = buf_pread src
      then Ret (if count - todo \<noteq> 0 then int (count - todo) else - EWOULDBLOCK, out, src, ws)
      else kbind (wait_event ws src) (\<lambda>(sig, src, ws).
        if sig then Ret (int (count - todo), out, src, ws)
        else if buf_error src \<noteq> 0
        then Ret (buf_error src, out, src\<lparr>buf_pwrite := buf_pread src, buf_error := 0\<rparr>, ws)
        else
          case buf_data src of
            None \<Rightarrow> Oops
          | Some d \<Rightarrow>
              kbind (buffer_read_chunk cap src d out todo) (\<lambda>(fault, src, out, todo).
                if fault then Ret (- EFAULT, out, src, ws)
                else buffer_read_loop n non_blocking cap count src ws out todo)))"

declare buffer_read_loop.simps(2) [simp del]

definition dvb_dmxdev_buffer_read ::
  "dmxdev_buffer \<Rightarrow> bool \<Rightarrow> nat \<Rightarrow> nat \<Rightarrow> wait list \<Rightarrow> (int \<times> bytes \<times> dmxdev_buffer \<times> wait list) kres" where
  "dvb_dmxdev_buffer_read src non_blocking cap count ws =
     (if buf_data src = None then Ret (0, [], src, ws)
      else if buf_error src \<noteq> 0
      then Ret (buf_error src, [], src\<lparr>buf_pwrite := buf_pread src, buf_error := 0\<rparr>, ws)
      else if non_blocking \<and> buf_pwrite src = buf_pread src then Ret (- EWOULDBLOCK, [], src, ws)
      else buffer_read_loop (Suc count) non_blocking cap count src ws [] count)"

section \<open>Invariant and contents\<close>

definition buffer_inv :: "dmxdev_buffer \<Rightarrow> bool" where
  "buffer_inv b \<longleftrightarrow> (\<exists>d. buf_data b = Some d \<and> length d = buf_size b) \<and>
     buf_pread b < buf_size b \<and> buf_pwrite b < buf_size b"

definition buffer_contents :: "dmxdev_buffer \<Rightarrow> bytes" where
  "buffer_contents b = (case buf_data b of None \<Rightarrow> [] | Some d \<Rightarrow> ring_contents d (buf_pread b) (buf_pwrite b))"

definition buffer_store :: "dmxdev_buffer \<Rightarrow> bytes \<Rightarrow> dmxdev_buffer" where
  "buffer_store b xs =
     b\<lparr>buf_data := map_option (\<lambda>d. ring_store d (buf_pwrite b) xs) (buf_data b),
       buf_pwrite := (buf_pwrite b + length xs) mod buf_size b\<rparr>"

definition buffer_skip :: "nat \<Rightarrow> dmxdev_buffer \<Rightarrow> dmxdev_buffer" where
  "buffer_skip n b = b\<lparr>buf_pread := (buf_pread b + n) mod buf_size b\<rparr>"

lemma buffer_length: "buffer_inv b \<Longrightarrow> length (buffer_contents b) =
   (if buf_pread b \<le> buf_pwrite b then buf_pwrite b - buf_pread b else buf_size b - buf_pread b + buf_pwrite b)"
  by (auto simp: buffer_inv_def buffer_contents_def length_ring_contents)

lemma buffer_bound: "buffer_inv b \<Longrightarrow> length (buffer_contents b) < buf_size b"
  by (simp add: buffer_length) (auto simp: buffer_inv_def)

lemma buffer_empty_iff: "buffer_inv b \<Longrightarrow> buf_pwrite b = buf_pread b \<longleftrightarrow> buffer_contents b = []"
  by (simp only: length_0_conv [symmetric] buffer_length) (auto simp: buffer_inv_def)

lemma buffer_store_correct:
  assumes "buffer_inv b" and "length (buffer_contents b) + length xs < buf_size b"
  shows "buffer_inv (buffer_store b xs)" "buffer_contents (buffer_store b xs) = buffer_contents b @ xs"
    "buf_size (buffer_store b xs) = buf_size b" "buf_error (buffer_store b xs) = buf_error b"
proof -
  obtain d where "buf_data b = Some d" "length d = buf_size b" using assms(1) by (auto simp: buffer_inv_def)
  with assms ring_contents_store [of "buf_pread b" d "buf_pwrite b" xs]
  show "buffer_inv (buffer_store b xs)" "buffer_contents (buffer_store b xs) = buffer_contents b @ xs"
    "buf_size (buffer_store b xs) = buf_size b" "buf_error (buffer_store b xs) = buf_error b"
    by (auto simp: buffer_inv_def buffer_contents_def buffer_store_def)
qed

lemma buffer_skip_correct:
  assumes "buffer_inv b" and "n \<le> length (buffer_contents b)"
  shows "buffer_inv (buffer_skip n b)" "buffer_contents (buffer_skip n b) = drop n (buffer_contents b)"
    "buf_size (buffer_skip n b) = buf_size b" "buf_error (buffer_skip n b) = buf_error b"
    "buf_data (buffer_skip n b) = buf_data b"
proof -
  obtain d where "buf_data b = Some d" "length d = buf_size b" using assms(1) by (auto simp: buffer_inv_def)
  with assms drop_ring_contents [of "buf_pread b" d "buf_pwrite b" n]
  show "buffer_inv (buffer_skip n b)" "buffer_contents (buffer_skip n b) = drop n (buffer_contents b)"
    "buf_size (buffer_skip n b) = buf_size b" "buf_error (buffer_skip n b) = buf_error b"
    "buf_data (buffer_skip n b) = buf_data b"
    by (auto simp: buffer_inv_def buffer_contents_def buffer_skip_def)
qed

section \<open>Writing\<close>

lemma buffer_write_store:
  assumes "buffer_inv b" and "length (buffer_contents b) + length xs < buf_size b"
  shows "dvb_dmxdev_buffer_write b xs = Ret (int (length xs), buffer_store b xs)"
proof (cases "xs = []")
  case True
  obtain d where d: "buf_data b = Some d" "length d = buf_size b" "buf_pwrite b < buf_size b"
    using assms(1) by (auto simp: buffer_inv_def)
  then have "buffer_store b [] = b" by (simp add: buffer_store_def ring_store_def blit_def)
  then show ?thesis using True by (simp add: dvb_dmxdev_buffer_write_def)
next
  case False
  obtain d where d: "buf_data b = Some d" "length d = buf_size b" "buf_pread b < buf_size b" "buf_pwrite b < buf_size b"
    using assms(1) by (auto simp: buffer_inv_def)
  let ?r = "buf_pread b" and ?w = "buf_pwrite b" and ?s = "buf_size b"
  have room: "length xs < (if ?r \<le> ?w then ?s - (?w - ?r) else ?r - ?w)"
    using assms d by (simp add: buffer_length split: if_splits)
  show ?thesis
  proof (cases "?r \<le> ?w \<and> ?s - ?w < length xs")
    case True
    have "(?w + length xs) mod ?s = (length xs - (?s - ?w)) mod ?s"
    proof -
      have "?w + length xs = length xs - (?s - ?w) + ?s" using True d by linarith
      then show ?thesis by (metis mod_add_self2)
    qed
    moreover have "\<not> ?w + length xs \<le> ?s" "length xs - (?s - ?w) \<le> ?s" "int ?r - int ?w \<le> 0"
      "\<not> int ?r - int ?w + int ?s \<le> int (length xs)" "\<not> length xs \<le> ?s - ?w" "?s - ?w \<noteq> 0"
      using True d room by auto
    ultimately show ?thesis
      using d False
      by (simp add: dvb_dmxdev_buffer_write_def buffer_store_def ring_store_def memcpy_def Let_def)
  next
    case False
    then have "?w + length xs \<le> ?s" using room d by auto
    then show ?thesis
      using False \<open>xs \<noteq> []\<close> d room
      by (auto simp: dvb_dmxdev_buffer_write_def buffer_store_def ring_store_def memcpy_def Let_def)
  qed
qed

lemma buffer_write_full:
  assumes "buffer_inv b" and "buf_size b \<le> length (buffer_contents b) + length xs" and "xs \<noteq> []"
  shows "dvb_dmxdev_buffer_write b xs = Ret (- 1, b)"
  using assms by (auto simp: buffer_length dvb_dmxdev_buffer_write_def Let_def buffer_inv_def split: if_splits)

section \<open>Reading\<close>

lemma buffer_read_chunk_skip:
  assumes "buffer_inv b" and "buf_data b = Some d" and "n = min todo (length (buffer_contents b))"
    and "length out + n \<le> cap"
  shows "buffer_read_chunk cap b d out todo =
    Ret (False, buffer_skip n b, out @ take n (buffer_contents b), todo - n)"
proof -
  let ?r = "buf_pread b" and ?w = "buf_pwrite b" and ?s = "buf_size b"
  have d: "length d = ?s" "?r < ?s" "?w < ?s" using assms(1,2) by (auto simp: buffer_inv_def)
  have c: "take n (buffer_contents b) = take n (drop ?r d) @ take (n - (?s - ?r)) d"
    using take_ring_contents [of ?r d ?w n] d assms(2,3) by (simp add: buffer_contents_def)
  have n: "n \<le> length (buffer_contents b)" using assms(3) by simp
  have len: "length (buffer_contents b) = (if ?r \<le> ?w then ?w - ?r else ?s - ?r + ?w)"
    using buffer_length [OF assms(1)] .
  have avail: "nat (min (if int ?w - int ?r < 0 then int ?w - int ?r + int ?s else int ?w - int ?r) (int todo)) = n"
    using assms(3) len d by (auto simp: min_def)
  show ?thesis
  proof (cases "?w < ?r \<and> ?s - ?r < n")
    case True
    have sp: "nat (int ?s - int ?r) = ?s - ?r" using d by simp
    have neg: "int ?w - int ?r < 0" using True by simp
    have w: "n - (?s - ?r) \<le> ?s" "n \<noteq> ?s - ?r" "?s - ?r < n" using n len True d by auto
    have "(?r + n) mod ?s = (n - (?s - ?r)) mod ?s"
    proof -
      have "?r + n = n - (?s - ?r) + ?s" using True d by linarith
      then show ?thesis by (metis mod_add_self2)
    qed
    moreover have "nat (min (int ?w - int ?r + int ?s) (int todo)) = n" using avail neg by simp
    moreover have "length out + (?s - ?r) \<le> cap" using w assms(4) by linarith
    moreover have "todo - (?s - ?r) - (n - (?s - ?r)) = todo - n" using w by simp
    ultimately show ?thesis
      using w d(1,2) assms(4) sp unfolding c buffer_read_chunk_def Let_def if_P [OF neg]
      by (simp add: copy_to_user_def memread_def buffer_skip_def)
  next
    case False
    then have "n \<le> ?s - ?r" using n len d by auto
    moreover have ns: "\<not> nat (if int ?w - int ?r < 0 then int ?s - int ?r else int ?s) < n"
      using False n len d by (auto simp: nat_less_iff)
    ultimately show ?thesis
      using d assms(4) unfolding c buffer_read_chunk_def Let_def avail if_not_P [OF ns]
      by (cases "n = 0") (simp_all add: copy_to_user_def memread_def buffer_skip_def)
  qed
qed

definition buffer_ready :: "dmxdev_buffer \<Rightarrow> bool" where
  "buffer_ready b \<longleftrightarrow> buffer_inv b \<and> buf_error b = 0"

lemma buffer_ready_store:
  "buffer_ready b \<Longrightarrow> length (buffer_contents b) + length xs < buf_size b \<Longrightarrow> buffer_ready (buffer_store b xs)"
  by (simp add: buffer_ready_def buffer_store_correct)

lemma buffer_ready_skip:
  "buffer_ready b \<Longrightarrow> n \<le> length (buffer_contents b) \<Longrightarrow> buffer_ready (buffer_skip n b)"
  by (simp add: buffer_ready_def buffer_skip_correct)

lemma wait_event_data: "buffer_ready b \<Longrightarrow> buffer_contents b \<noteq> [] \<Longrightarrow> wait_event ws b = Ret (False, b, ws)"
  by (subst wait_event.simps) (auto simp: buffer_ready_def buffer_empty_iff [symmetric])

lemma read_round:
  assumes "buffer_ready b" and "buffer_contents b \<noteq> []" and "m = min todo (length (buffer_contents b))"
    and "length out + m \<le> cap" and "todo \<noteq> 0"
  shows "buffer_read_loop (Suc n) nb cap count b ws out todo =
    buffer_read_loop n nb cap count (buffer_skip m b) ws (out @ take m (buffer_contents b)) (todo - m)"
proof -
  obtain d where d: "buf_data b = Some d" using assms(1) by (auto simp: buffer_ready_def buffer_inv_def)
  have "buf_pwrite b \<noteq> buf_pread b" using assms(1,2) by (simp add: buffer_ready_def buffer_empty_iff)
  moreover have "buffer_read_chunk cap b d out todo =
      Ret (False, buffer_skip m b, out @ take m (buffer_contents b), todo - m)"
    using assms d by (intro buffer_read_chunk_skip) (simp_all add: buffer_ready_def)
  ultimately show ?thesis
    using assms(1,5) d wait_event_data [OF assms(1,2)]
    by (simp add: buffer_ready_def buffer_read_loop.simps(2))
qed

lemma buffer_read_available:
  assumes "buffer_ready b" and "m = min count (length (buffer_contents b))" and "m \<le> cap"
    and "nb \<and> buffer_contents b \<noteq> [] \<or> \<not> nb \<and> count \<le> length (buffer_contents b)"
  shows "dvb_dmxdev_buffer_read b nb cap count ws =
    Ret (int m, take m (buffer_contents b), buffer_skip m b, ws)"
proof -
  obtain d where d: "buf_data b = Some d" "buf_error b = 0" "buffer_inv b" "buf_pread b < buf_size b"
    using assms(1) by (auto simp: buffer_ready_def buffer_inv_def)
  have nb: "\<not> (nb \<and> buf_pwrite b = buf_pread b)" using assms(4) d(3) by (auto simp: buffer_empty_iff)
  show ?thesis
  proof (cases "count = 0")
    case True
    then show ?thesis using assms(2) d nb
      by (simp add: dvb_dmxdev_buffer_read_def buffer_skip_def buffer_read_loop.simps(2))
  next
    case False
    then obtain k where k: "count = Suc k" by (cases count) auto
    have ne: "buffer_contents b \<noteq> []" using assms(4) False by auto
    have "buffer_read_loop (Suc count) nb cap count b ws [] count =
        buffer_read_loop count nb cap count (buffer_skip m b) ws (take m (buffer_contents b)) (count - m)"
      using read_round [OF assms(1) ne assms(2), of "[]" cap count nb count ws] assms(3) False by simp
    also have "\<dots> = Ret (int m, take m (buffer_contents b), buffer_skip m b, ws)"
    proof (cases "m = count")
      case True
      then show ?thesis using k by (simp add: buffer_read_loop.simps(2))
    next
      case less: False
      then have m: "m = length (buffer_contents b)" "m < count" "0 < m" nb using assms(2,4) ne by auto
      have "buffer_contents (buffer_skip m b) = []" "buffer_inv (buffer_skip m b)"
        using buffer_skip_correct [OF d(3), of m] m(1) by simp_all
      then have "buf_pwrite (buffer_skip m b) = buf_pread (buffer_skip m b)" by (simp add: buffer_empty_iff)
      then show ?thesis using m k by (simp add: buffer_read_loop.simps(2))
    qed
    finally show ?thesis using d nb by (simp add: dvb_dmxdev_buffer_read_def)
  qed
qed

section \<open>The buffer is a byte queue\<close>

definition buffer_put :: "bytes \<Rightarrow> dmxdev_buffer \<Rightarrow> dmxdev_buffer" where
  "buffer_put xs b = (case dvb_dmxdev_buffer_write b xs of Ret (ret, b') \<Rightarrow> b' | _ \<Rightarrow> b)"

definition buffer_get :: "nat \<Rightarrow> dmxdev_buffer \<Rightarrow> bytes \<times> dmxdev_buffer" where
  "buffer_get n b = (case dvb_dmxdev_buffer_read b True n n [] of Ret (ret, xs, b', ws) \<Rightarrow> (xs, b') | _ \<Rightarrow> ([], b))"

lemma buffer_put_store:
  "buffer_ready b \<Longrightarrow> length (buffer_contents b) + length xs < buf_size b \<Longrightarrow> buffer_put xs b = buffer_store b xs"
  by (simp add: buffer_put_def buffer_write_store buffer_ready_def)

lemma buffer_get_skip:
  assumes "buffer_ready b" and "n \<le> length (buffer_contents b)"
  shows "buffer_get n b = (take n (buffer_contents b), buffer_skip n b)"
proof (cases "buffer_contents b = []")
  case True
  then have "buf_pwrite b = buf_pread b" "buf_pread b < buf_size b" "buf_data b \<noteq> None" "buf_error b = 0"
    using assms(1) buffer_empty_iff [of b] by (auto simp: buffer_ready_def buffer_inv_def)
  then show ?thesis
    using True assms(2) by (simp add: buffer_get_def dvb_dmxdev_buffer_read_def buffer_skip_def)
next
  case False
  then have "dvb_dmxdev_buffer_read b True n n [] = Ret (int n, take n (buffer_contents b), buffer_skip n b, [])"
    using assms by (intro buffer_read_available) (simp_all add: min_absorb1)
  then show ?thesis by (simp add: buffer_get_def)
qed

interpretation dmxbuf: byte_fifo buffer_ready buffer_contents "\<lambda>b. buf_size b - 1" buffer_put buffer_get
proof unfold_locales
  fix b :: dmxdev_buffer and xs :: bytes and n
  assume r: "buffer_ready b"
  have bound: "length (buffer_contents b) < buf_size b" using r by (simp add: buffer_ready_def buffer_bound)
  then show "length (buffer_contents b) \<le> buf_size b - 1" by simp
  have inv: "buffer_inv b" using r by (simp add: buffer_ready_def)
  show "buffer_ready (buffer_put xs b)" "buffer_contents (buffer_put xs b) = buffer_contents b @ xs"
    "buf_size (buffer_put xs b) - 1 = buf_size b - 1"
    if "length (buffer_contents b) + length xs \<le> buf_size b - 1"
  proof -
    have fit: "length (buffer_contents b) + length xs < buf_size b" using that bound by simp
    then show "buffer_ready (buffer_put xs b)" "buffer_contents (buffer_put xs b) = buffer_contents b @ xs"
      "buf_size (buffer_put xs b) - 1 = buf_size b - 1"
      using r inv by (simp_all add: buffer_put_store buffer_ready_store buffer_store_correct)
  qed
  show "buffer_ready (snd (buffer_get n b))" "fst (buffer_get n b) = take n (buffer_contents b)"
    "buffer_contents (snd (buffer_get n b)) = drop n (buffer_contents b)"
    "buf_size (snd (buffer_get n b)) - 1 = buf_size b - 1"
    if "n \<le> length (buffer_contents b)"
    using that r inv by (simp_all add: buffer_get_skip buffer_ready_skip buffer_skip_correct)
qed

section \<open>Sleeping readers\<close>

definition arrival :: "bytes \<Rightarrow> wait" where
  "arrival xs = Wake (buffer_put xs)"

lemma wait_event_arrival:
  assumes "buffer_ready b" and "buffer_contents b = []" and "xs \<noteq> []" and "length xs < buf_size b"
  shows "wait_event (arrival xs # ws) b = Ret (False, buffer_store b xs, ws)"
proof -
  have "buf_pread b = buf_pwrite b" "buf_error b = 0"
    using assms(1,2) buffer_empty_iff [of b] by (simp_all add: buffer_ready_def)
  then have "wait_event (arrival xs # ws) b = wait_event ws (buffer_store b xs)"
    using assms by (subst wait_event.simps) (simp add: arrival_def buffer_put_store)
  also have "\<dots> = Ret (False, buffer_store b xs, ws)"
    using assms by (intro wait_event_data) (simp_all add: buffer_ready_store buffer_store_correct buffer_ready_def)
  finally show ?thesis .
qed

lemma loop_waits:
  assumes "wait_event ws b = Ret (False, b', ws')" and "wait_event ws' b' = Ret (False, b', ws')"
  shows "buffer_read_loop n False cap count b ws out todo =
    (if n \<noteq> 0 \<and> todo = 0 then Ret (int count, out, b, ws) else buffer_read_loop n False cap count b' ws' out todo)"
  using assms by (cases n) (simp_all add: buffer_read_loop.simps(2))

lemma take_drop_split:
  assumes "m \<le> t" and "m \<le> length xs"
  shows "take m xs @ take (t - m) (drop m xs @ ys) = take t (xs @ ys)"
    "drop (t - m) (drop m xs @ ys) = drop t (xs @ ys)"
proof -
  have "take t (xs @ ys) = take m (xs @ ys) @ take (t - m) (drop m (xs @ ys))"
    using take_add [of m "t - m" "xs @ ys"] assms(1) by simp
  then show "take m xs @ take (t - m) (drop m xs @ ys) = take t (xs @ ys)" using assms by simp
  have "drop (t - m) (drop m (xs @ ys)) = drop t (xs @ ys)" using assms(1) by (simp only: drop_drop) simp
  then show "drop (t - m) (drop m xs @ ys) = drop t (xs @ ys)" using assms(2) by simp
qed

lemma blocking_loop:
  assumes "buffer_ready b" and "length out + todo \<le> cap"
    and "todo \<le> length (buffer_contents b @ concat xss)"
    and "\<forall>xs\<in>set xss. xs \<noteq> [] \<and> length xs < buf_size b" and "todo < n"
  shows "\<exists>b' yss. buffer_read_loop n False cap count b (map arrival xss) out todo =
      Ret (int count, out @ take todo (buffer_contents b @ concat xss), b', map arrival yss) \<and>
    buffer_ready b' \<and> buffer_contents b' @ concat yss = drop todo (buffer_contents b @ concat xss)"
  using assms
proof (induction n arbitrary: b xss out todo)
  case 0
  then show ?case by simp
next
  case (Suc n)
  have round: "\<exists>b' yss. buffer_read_loop (Suc n) False cap count b (map arrival xss) out todo =
      Ret (int count, out @ take todo (buffer_contents b @ concat xss), b', map arrival yss) \<and>
    buffer_ready b' \<and> buffer_contents b' @ concat yss = drop todo (buffer_contents b @ concat xss)"
    if r: "buffer_ready b" "buffer_contents b \<noteq> []" "todo \<le> length (buffer_contents b @ concat xss)"
      "\<forall>xs\<in>set xss. xs \<noteq> [] \<and> length xs < buf_size b" "todo \<noteq> 0" for b xss
  proof -
    define m where "m = min todo (length (buffer_contents b))"
    have m: "m \<le> length (buffer_contents b)" "m \<le> todo" "0 < m" using r(2,5) by (simp_all add: m_def)
    let ?b = "buffer_skip m b" and ?out = "out @ take m (buffer_contents b)"
    have b: "buffer_ready ?b" "buffer_contents ?b = drop m (buffer_contents b)" "buf_size ?b = buf_size b"
      using r(1) m(1) by (simp_all add: buffer_ready_skip buffer_skip_correct buffer_ready_def)
    have "\<exists>b' yss. buffer_read_loop n False cap count ?b (map arrival xss) ?out (todo - m) =
        Ret (int count, ?out @ take (todo - m) (buffer_contents ?b @ concat xss), b', map arrival yss) \<and>
      buffer_ready b' \<and> buffer_contents b' @ concat yss = drop (todo - m) (buffer_contents ?b @ concat xss)"
      using b r m Suc.prems(2,5) by (intro Suc.IH) simp_all
    moreover have "take m (buffer_contents b) @ take (todo - m) (drop m (buffer_contents b) @ concat xss) =
        take todo (buffer_contents b @ concat xss)"
      and "drop (todo - m) (drop m (buffer_contents b) @ concat xss) = drop todo (buffer_contents b @ concat xss)"
      using take_drop_split [OF m(2,1)] by blast+
    moreover have "buffer_read_loop (Suc n) False cap count b (map arrival xss) out todo =
        buffer_read_loop n False cap count ?b (map arrival xss) ?out (todo - m)"
      using r m Suc.prems(2) by (intro read_round) (simp_all add: m_def)
    ultimately show ?thesis by (simp add: b(2))
  qed
  show ?case
  proof (cases "todo = 0 \<or> buffer_contents b \<noteq> []")
    case True
    then show ?thesis
    proof (cases "todo = 0")
      case True
      then have "buffer_read_loop (Suc n) False cap count b (map arrival xss) out todo =
          Ret (int count, out, b, map arrival xss)"
        by (simp add: buffer_read_loop.simps(2))
      then show ?thesis using True Suc.prems(1) by auto
    qed (use round [OF Suc.prems(1) _ Suc.prems(3,4)] in blast)
  next
    case False
    with Suc.prems(3) obtain xs zss where xss: "xss = xs # zss" by (cases xss) auto
    have xs: "xs \<noteq> []" "length xs < buf_size b" using Suc.prems(4) xss by simp_all
    let ?b = "buffer_store b xs"
    have b: "buffer_ready ?b" "buffer_contents ?b = xs" "buf_size ?b = buf_size b"
      using Suc.prems(1) False xs by (simp_all add: buffer_ready_store buffer_store_correct buffer_ready_def)
    have w1: "wait_event (map arrival xss) b = Ret (False, ?b, map arrival zss)"
      using wait_event_arrival [OF Suc.prems(1) _ xs] False xss by simp
    have w2: "wait_event (map arrival zss) ?b = Ret (False, ?b, map arrival zss)"
      using b xs by (intro wait_event_data) simp_all
    have "buffer_read_loop (Suc n) False cap count b (map arrival xss) out todo =
        buffer_read_loop (Suc n) False cap count ?b (map arrival zss) out todo"
      using loop_waits [OF w1 w2, of "Suc n" cap count out todo] False by (simp only:) simp
    moreover have "\<exists>b' yss. buffer_read_loop (Suc n) False cap count ?b (map arrival zss) out todo =
        Ret (int count, out @ take todo (buffer_contents ?b @ concat zss), b', map arrival yss) \<and>
      buffer_ready b' \<and> buffer_contents b' @ concat yss = drop todo (buffer_contents ?b @ concat zss)"
      using b xs xss False Suc.prems(3,4) by (intro round) simp_all
    ultimately show ?thesis using b False xss by simp
  qed
qed

section \<open>Properties\<close>

text \<open>
  C4. The buffer of a demultiplexer device is a queue: through any sequence of writes that fit and
  reads of what is there, starting with an empty buffer, the bytes read followed by the bytes left
  are exactly the bytes written, in order, wherever the ring wraps.
\<close>

theorem dmxdev_buffer_fifo:
  assumes "buffer_ready b" and "buffer_contents b = []" and "fifo_fits (buf_size b - 1) 0 ops"
  shows "fst (fifo_run buffer_put buffer_get ops b) @
    buffer_contents (snd (fifo_run buffer_put buffer_get ops b)) = fifo_puts ops"
  using dmxbuf.run_order [of b ops] assms by simp

theorem dmxdev_buffer_fifo_witness:
  "fst (fifo_run buffer_put buffer_get [Put [1, 2, 3], Get 2, Put [4, 5], Get 3]
      \<lparr>buf_data = Some [0, 0, 0, 0], buf_size = 4, buf_pread = 0, buf_pwrite = 0, buf_error = 0\<rparr>) @
    buffer_contents (snd (fifo_run buffer_put buffer_get [Put [1, 2, 3], Get 2, Put [4, 5], Get 3]
      \<lparr>buf_data = Some [0, 0, 0, 0], buf_size = 4, buf_pread = 0, buf_pwrite = 0, buf_error = 0\<rparr>)) =
    [1, 2, 3, 4, 5]"
  using dmxdev_buffer_fifo [of "\<lparr>buf_data = Some [0, 0, 0, 0], buf_size = 4, buf_pread = 0, buf_pwrite = 0, buf_error = 0\<rparr>"
    "[Put [1, 2, 3], Get 2, Put [4, 5], Get 3]"]
  by (simp add: buffer_ready_def buffer_inv_def buffer_contents_def ring_contents_def)

text \<open>
  C22. A blocking read returns once enough data has arrived: when the contents of the buffer and the
  chunks that arrive while the reader sleeps hold at least the requested number of bytes, the call
  returns exactly that number and delivers the oldest bytes in order; the rest stays queued.
\<close>

theorem blocking_read_returns:
  assumes "buffer_ready b" and "count \<le> cap" and "count \<le> length (buffer_contents b @ concat xss)"
    and "\<forall>xs\<in>set xss. xs \<noteq> [] \<and> length xs < buf_size b"
  shows "\<exists>b' yss. dvb_dmxdev_buffer_read b False cap count (map arrival xss) =
      Ret (int count, take count (buffer_contents b @ concat xss), b', map arrival yss) \<and>
    buffer_ready b' \<and> buffer_contents b' @ concat yss = drop count (buffer_contents b @ concat xss)"
proof -
  have "buf_data b \<noteq> None" "buf_error b = 0" using assms(1) by (auto simp: buffer_ready_def buffer_inv_def)
  then have "dvb_dmxdev_buffer_read b False cap count (map arrival xss) =
      buffer_read_loop (Suc count) False cap count b (map arrival xss) [] count"
    unfolding dvb_dmxdev_buffer_read_def by (simp del: not_None_eq)
  then show ?thesis
    using blocking_loop [OF assms(1), of "[]" count cap xss "Suc count" count] assms(2-4) by simp
qed

theorem blocking_read_returns_witness:
  "\<exists>b' yss. dvb_dmxdev_buffer_read \<lparr>buf_data = Some [0, 0, 0, 0], buf_size = 4, buf_pread = 0, buf_pwrite = 0, buf_error = 0\<rparr>
      False 8 5 (map arrival [[1, 2, 3], [4, 5, 6]]) = Ret (5, [1, 2, 3, 4, 5], b', map arrival yss) \<and>
    buffer_ready b' \<and> buffer_contents b' @ concat yss = [6]"
  using blocking_read_returns [of "\<lparr>buf_data = Some [0, 0, 0, 0], buf_size = 4, buf_pread = 0, buf_pwrite = 0, buf_error = 0\<rparr>"
    5 8 "[[1, 2, 3], [4, 5, 6]]"]
  by (simp add: buffer_ready_def buffer_inv_def buffer_contents_def ring_contents_def)

end
