(* ===== verification/DVB_Dev.thy ===== *)
theory DVB_Dev
  imports DVB_Prelude
begin

text \<open>
  \<^verbatim>\<open>dvb-core/dvbdev.c\<close>: the registry of adapters and their devices, the mapping of minor numbers to
  devices, and the generic open and release routines; and \<^verbatim>\<open>dvb_usercopy\<close> of \<^verbatim>\<open>dvb_functions.c\<close>.

  An adapter is identified by its number, a device by the address \<open>dev_addr\<close> of its structure, which
  is an argument of the registration (\<^const>\<open>None\<close> when the allocation fails). The calls to devfs only
  publish names and are left out, as is the private copy of the file operations pointer in an open
  file. \<open>sig\<close> says whether a signal interrupts the wait for the registration lock; the lock itself is
  free before and after every call.

  The lemmas show that numbers handed out are free, that minor numbers identify devices, and that
  a registered device is found until it is unregistered.
\<close>

section \<open>The code\<close>

subsection \<open>The registry\<close>

record dvb_device =
  dev_addr :: nat
  dev_fops :: bool
  dev_type :: nat
  dev_id :: nat
  dev_readers :: int
  dev_writers :: int
  dev_users :: int
  kernel_ioctl :: bool
  dev_priv :: "nat option"

record dvb_adapter =
  adap_num :: nat
  adap_name :: string
  device_list :: "dvb_device list"

abbreviation DVB_DEVICE_FRONTEND :: nat where "DVB_DEVICE_FRONTEND \<equiv> 3"
abbreviation DVB_DEVICE_DEMUX :: nat where "DVB_DEVICE_DEMUX \<equiv> 4"
abbreviation DVB_DEVICE_DVR :: nat where "DVB_DEVICE_DVR \<equiv> 5"
abbreviation DVB_DEVICE_NET :: nat where "DVB_DEVICE_NET \<equiv> 7"
abbreviation DVB_MAX_IDS :: nat where "DVB_MAX_IDS \<equiv> 4"

text \<open>
  The minor number of a device. It is a natural number here; whether it fits the minor numbers of the
  kernel, which a fifth adapter exceeds where these have eight bits, is not part of the model.
\<close>

definition nums2minor :: "nat \<Rightarrow> nat \<Rightarrow> nat \<Rightarrow> nat" where
  "nums2minor num type ident = (push_bit 6 num OR push_bit 4 ident) OR type"

fun find_in_devices :: "nat \<Rightarrow> nat \<Rightarrow> dvb_device list \<Rightarrow> dvb_device option" where
  "find_in_devices minor num [] = None"
| "find_in_devices minor num (dev # devs) =
     (if nums2minor num (dev_type dev) (dev_id dev) = minor then Some dev else find_in_devices minor num devs)"

fun dvbdev_find_device :: "nat \<Rightarrow> dvb_adapter list \<Rightarrow> dvb_device option" where
  "dvbdev_find_device minor [] = None"
| "dvbdev_find_device minor (adap # adaps) =
     (case find_in_devices minor (adap_num adap) (device_list adap) of
        Some dev \<Rightarrow> Some dev | None \<Rightarrow> dvbdev_find_device minor adaps)"

text \<open>\<open>fopen\<close> is the open routine of the device found, if it has one.\<close>

definition dvb_device_open ::
  "nat \<Rightarrow> dvb_adapter list \<Rightarrow> (dvb_device \<Rightarrow> 's \<Rightarrow> int \<times> 's) option \<Rightarrow> 's \<Rightarrow> int \<times> 's" where
  "dvb_device_open minor adaps fopen s =
     (case dvbdev_find_device minor adaps of
        None \<Rightarrow> (- ENODEV, s)
      | Some dev \<Rightarrow>
          if dev_fops dev then (case fopen of None \<Rightarrow> (0, s) | Some f \<Rightarrow> f dev s) else (- ENODEV, s))"

fun get_free_id_from :: "nat \<Rightarrow> nat \<Rightarrow> nat \<Rightarrow> dvb_device list \<Rightarrow> int" where
  "get_free_id_from 0 ident type devs = - ENFILE"
| "get_free_id_from (Suc n) ident type devs =
     (if \<exists>dev\<in>set devs. dev_type dev = type \<and> dev_id dev = ident
      then get_free_id_from n (ident + 1) type devs else int ident)"

definition dvbdev_get_free_id :: "dvb_adapter \<Rightarrow> nat \<Rightarrow> int" where
  "dvbdev_get_free_id adap type = get_free_id_from DVB_MAX_IDS 0 type (device_list adap)"

definition update_adapter :: "nat \<Rightarrow> (dvb_adapter \<Rightarrow> dvb_adapter) \<Rightarrow> dvb_adapter list \<Rightarrow> dvb_adapter list" where
  "update_adapter num f adaps = map (\<lambda>a. if adap_num a = num then f a else a) adaps"

text \<open>
  The result carries the pointer stored at \<^verbatim>\<open>pdvbdev\<close>; when a signal interrupts the call, that
  pointer is not written and keeps the value \<open>old\<close>.
\<close>

definition dvb_register_device ::
  "bool \<Rightarrow> nat option \<Rightarrow> nat option \<Rightarrow> dvb_adapter \<Rightarrow> dvb_device \<Rightarrow> nat option \<Rightarrow> nat \<Rightarrow> dvb_adapter list \<Rightarrow>
   int \<times> nat option \<times> dvb_adapter list" where
  "dvb_register_device sig addr old adap template priv type adaps =
     (if sig then (- ERESTARTSYS, old, adaps)
      else
        let ident = dvbdev_get_free_id adap type
        in if ident < 0 then (- ENFILE, None, adaps)
           else
             case addr of
               None \<Rightarrow> (- ENOMEM, None, adaps)
             | Some a \<Rightarrow>
                 let dev = template\<lparr>dev_addr := a, dev_type := type, dev_id := nat ident, dev_priv := priv\<rparr>
                 in (0, Some a, update_adapter (adap_num adap)
                   (\<lambda>adap. adap\<lparr>device_list := device_list adap @ [dev]\<rparr>) adaps))"

definition dvb_unregister_device :: "nat option \<Rightarrow> dvb_adapter list \<Rightarrow> dvb_adapter list" where
  "dvb_unregister_device dvbdev adaps =
     (case dvbdev of
        None \<Rightarrow> adaps
      | Some a \<Rightarrow> map (\<lambda>adap. adap\<lparr>device_list := filter (\<lambda>d. dev_addr d \<noteq> a) (device_list adap)\<rparr>) adaps)"

text \<open>The search for a number ends after at most one round per adapter and one more.\<close>

fun free_num_from :: "nat \<Rightarrow> nat \<Rightarrow> dvb_adapter list \<Rightarrow> nat kres" where
  "free_num_from 0 num adaps = Hang"
| "free_num_from (Suc n) num adaps =
     (if \<exists>adap\<in>set adaps. adap_num adap = num then free_num_from n (num + 1) adaps else Ret num)"

definition dvbdev_get_free_adapter_num :: "dvb_adapter list \<Rightarrow> nat kres" where
  "dvbdev_get_free_adapter_num adaps = free_num_from (Suc (length adaps)) 0 adaps"

definition dvb_register_adapter ::
  "bool \<Rightarrow> bool \<Rightarrow> string \<Rightarrow> dvb_adapter list \<Rightarrow> (int \<times> dvb_adapter list) kres" where
  "dvb_register_adapter sig mem name adaps =
     (if sig then Ret (- ERESTARTSYS, adaps)
      else kbind (dvbdev_get_free_adapter_num adaps) (\<lambda>num.
        if \<not> mem then Ret (- ENOMEM, adaps)
        else Ret (int num, adaps @ [\<lparr>adap_num = num, adap_name = name, device_list = []\<rparr>])))"

definition dvb_unregister_adapter :: "bool \<Rightarrow> dvb_adapter \<Rightarrow> dvb_adapter list \<Rightarrow> int \<times> dvb_adapter list" where
  "dvb_unregister_adapter sig adap adaps =
     (if sig then (- ERESTARTSYS, adaps) else (0, filter (\<lambda>a. adap_num a \<noteq> adap_num adap) adaps))"

subsection \<open>Counting opens\<close>

datatype access = O_RDONLY | O_WRONLY | O_RDWR

definition dvb_generic_open :: "dvb_device option \<Rightarrow> access \<Rightarrow> int \<times> dvb_device option" where
  "dvb_generic_open dvbdev mode =
     (case dvbdev of
        None \<Rightarrow> (- ENODEV, None)
      | Some dev \<Rightarrow>
          if dev_users dev = 0 then (- EBUSY, Some dev)
          else if mode = O_RDONLY
          then
            if dev_readers dev = 0 then (- EBUSY, Some dev)
            else (0, Some (dev\<lparr>dev_readers := dev_readers dev - 1, dev_users := dev_users dev - 1\<rparr>))
          else
            if dev_writers dev = 0 then (- EBUSY, Some dev)
            else (0, Some (dev\<lparr>dev_writers := dev_writers dev - 1, dev_users := dev_users dev - 1\<rparr>)))"

definition dvb_generic_release :: "dvb_device option \<Rightarrow> access \<Rightarrow> int \<times> dvb_device option" where
  "dvb_generic_release dvbdev mode =
     (case dvbdev of
        None \<Rightarrow> (- ENODEV, None)
      | Some dev \<Rightarrow>
          let dev = (if mode = O_RDONLY then dev\<lparr>dev_readers := dev_readers dev + 1\<rparr>
            else dev\<lparr>dev_writers := dev_writers dev + 1\<rparr>)
          in (0, Some (dev\<lparr>dev_users := dev_users dev + 1\<rparr>)))"

subsection \<open>Arguments of ioctls\<close>

text \<open>
  \<^verbatim>\<open>dvb_usercopy\<close>: a command without direction passes the argument itself, every other one a kernel
  copy of \<open>sz\<close> bytes of the user memory, and the result of a command that reads goes back to the
  user. \<open>rd\<close> and \<open>wr\<close> say whether the user memory can be read and written, \<open>mem\<close> whether memory for a
  copy of more than 128 bytes can be allocated.
\<close>

datatype ioc_dir = IOC_NONE | IOC_READ | IOC_WRITE | IOC_READ_WRITE

datatype ioctl_arg = Direct nat | Copied bytes

abbreviation ENOIOCTLCMD :: int where "ENOIOCTLCMD \<equiv> 515"

definition dvb_usercopy ::
  "ioc_dir \<Rightarrow> nat \<Rightarrow> nat \<Rightarrow> bool \<Rightarrow> bool \<Rightarrow> bool \<Rightarrow> (ioctl_arg \<Rightarrow> 's \<Rightarrow> int \<times> bytes \<times> 's) \<Rightarrow> bytes \<Rightarrow> 's \<Rightarrow>
   int \<times> bytes \<times> 's" where
  "dvb_usercopy dir sz arg mem rd wr func user s =
     (if dir \<noteq> IOC_NONE \<and> sz > 128 \<and> \<not> mem then (- ENOMEM, user, s)
      else if dir \<noteq> IOC_NONE \<and> \<not> rd then (- EFAULT, user, s)
      else
        let parg = (if dir = IOC_NONE then Direct arg else Copied (take sz user));
            (err, out, s) = func parg s;
            err = (if err = - ENOIOCTLCMD then - EINVAL else err)
        in if err < 0 then (err, user, s)
           else if dir = IOC_READ \<or> dir = IOC_READ_WRITE
           then if wr then (err, blit user 0 (take sz out), s) else (- EFAULT, user, s)
           else (err, user, s))"

definition dvb_generic_ioctl ::
  "dvb_device option \<Rightarrow> ioc_dir \<Rightarrow> nat \<Rightarrow> nat \<Rightarrow> bool \<Rightarrow> bool \<Rightarrow> bool \<Rightarrow> (ioctl_arg \<Rightarrow> 's \<Rightarrow> int \<times> bytes \<times> 's) \<Rightarrow> bytes \<Rightarrow> 's \<Rightarrow>
   int \<times> bytes \<times> 's" where
  "dvb_generic_ioctl dvbdev dir sz arg mem rd wr func user s =
     (case dvbdev of
        None \<Rightarrow> (- ENODEV, user, s)
      | Some dev \<Rightarrow>
          if \<not> kernel_ioctl dev then (- EINVAL, user, s) else dvb_usercopy dir sz arg mem rd wr func user s)"

section \<open>Numbers handed out are free\<close>

lemma get_free_id_correct:
  assumes "get_free_id_from n ident type devs = r" and "0 \<le> r"
  shows "ident \<le> nat r \<and> nat r < ident + n \<and> (\<forall>dev\<in>set devs. \<not> (dev_type dev = type \<and> dev_id dev = nat r))"
  using assms by (induction n ident type devs rule: get_free_id_from.induct) (auto split: if_splits)

lemma get_free_id_complete:
  assumes "get_free_id_from n ident type devs < 0" and "ident \<le> k" and "k < ident + n"
  shows "\<exists>dev\<in>set devs. dev_type dev = type \<and> dev_id dev = k"
  using assms
proof (induction n ident type devs rule: get_free_id_from.induct)
  case (2 n ident type devs)
  then show ?case by (cases "k = ident") (auto split: if_splits)
qed simp

lemma free_num_correct:
  assumes "free_num_from n num adaps = Ret r"
  shows "num \<le> r \<and> (\<forall>adap\<in>set adaps. adap_num adap \<noteq> r)"
  using assms by (induction n num adaps rule: free_num_from.induct) (fastforce split: if_splits)+

lemma free_num_hang:
  assumes "\<nexists>r. free_num_from n num adaps = Ret r"
  shows "{num..<num + n} \<subseteq> adap_num ` set adaps"
  using assms
proof (induction n num adaps rule: free_num_from.induct)
  case (2 n num adaps)
  then have used: "num \<in> adap_num ` set adaps" by (auto split: if_splits)
  with "2.prems" have "{num + 1..<num + 1 + n} \<subseteq> adap_num ` set adaps"
    by (intro "2.IH") (auto split: if_splits)
  moreover have "{num..<num + Suc n} = insert num {num + 1..<num + 1 + n}" by auto
  ultimately show ?case using used by simp
qed simp

lemma free_num_returns: "\<exists>r. dvbdev_get_free_adapter_num adaps = Ret r"
proof (rule ccontr)
  assume "\<not> ?thesis"
  then have "{0..<Suc (length adaps)} \<subseteq> adap_num ` set adaps"
    unfolding dvbdev_get_free_adapter_num_def using free_num_hang [of "Suc (length adaps)" 0 adaps] by simp
  then have "card {0..<Suc (length adaps)} \<le> card (adap_num ` set adaps)" by (intro card_mono) simp_all
  also have "\<dots> \<le> length adaps" using card_image_le [of "set adaps" adap_num] card_length [of adaps] by simp
  finally show False by simp
qed

section \<open>Minor numbers identify devices\<close>

lemma small_bits: "x < 2 ^ k \<Longrightarrow> bit x n \<Longrightarrow> n < k" for x n k :: nat
  by (metis bit_take_bit_iff take_bit_nat_eq_self)

lemma nums2minor_sum:
  assumes "type < 16" and "ident < 4"
  shows "nums2minor num type ident = 64 * num + 16 * ident + type"
proof -
  have t: "n < 4" if "bit type n" for n using small_bits [of type 4 n] assms(1) that by simp
  have i: "n < 2" if "bit ident n" for n using small_bits [of ident 2 n] assms(2) that by simp
  have "push_bit 6 num AND push_bit 4 ident = 0"
    by (rule bit_eqI) (use i in \<open>fastforce simp: bit_and_iff bit_push_bit_iff\<close>)
  then have a: "push_bit 6 num OR push_bit 4 ident = push_bit 6 num + push_bit 4 ident"
    by (simp only: disjunctive_add_eq_or)
  have "(push_bit 6 num OR push_bit 4 ident) AND type = 0"
    by (rule bit_eqI) (use t in \<open>fastforce simp: bit_and_iff bit_or_iff bit_push_bit_iff\<close>)
  then have "nums2minor num type ident = push_bit 6 num + push_bit 4 ident + type"
    unfolding nums2minor_def using a by (simp only: disjunctive_add_eq_or [symmetric])
  then show ?thesis by (simp add: push_bit_eq_mult)
qed

lemma nums2minor_inject:
  assumes "type < 16" "ident < 4" "type' < 16" "ident' < 4"
  shows "nums2minor num type ident = nums2minor num' type' ident' \<longleftrightarrow> num = num' \<and> type = type' \<and> ident = ident'"
proof -
  have parts: "(64 * n + 16 * i + t) div 64 = n" "(64 * n + 16 * i + t) div 16 mod 4 = i" "(64 * n + 16 * i + t) mod 16 = t"
    if "t < 16" "i < 4" for n i t :: nat
  proof -
    have q: "64 * n + 16 * i + t = 16 * (4 * n + i) + t" by simp
    then have d: "(64 * n + 16 * i + t) div 16 = 4 * n + i" using that by simp
    then show "(64 * n + 16 * i + t) div 16 mod 4 = i" using that by simp
    have "(64 * n + 16 * i + t) div 64 = (64 * n + 16 * i + t) div 16 div 4" by (simp add: div_mult2_eq [symmetric])
    then show "(64 * n + 16 * i + t) div 64 = n" unfolding d using that by simp
    show "(64 * n + 16 * i + t) mod 16 = t" unfolding q mod_mult_self4 using that by simp
  qed
  show ?thesis
    unfolding nums2minor_sum [OF assms(1,2)] nums2minor_sum [OF assms(3,4)]
    using parts [OF assms(1,2), of num] parts [OF assms(3,4), of num'] by metis
qed

section \<open>The invariant of the registry\<close>

definition adapter_ok :: "dvb_adapter \<Rightarrow> bool" where
  "adapter_ok adap \<longleftrightarrow> (\<forall>d\<in>set (device_list adap). dev_type d < 16 \<and> dev_id d < DVB_MAX_IDS) \<and>
     distinct (map (\<lambda>d. (dev_type d, dev_id d)) (device_list adap))"

definition registry_ok :: "dvb_adapter list \<Rightarrow> bool" where
  "registry_ok adaps \<longleftrightarrow> (\<forall>adap\<in>set adaps. adapter_ok adap) \<and> distinct (map adap_num adaps)"

lemma find_in_devices_iff:
  assumes "adapter_ok \<lparr>adap_num = num, adap_name = name, device_list = devs\<rparr>" and "type < 16" "ident < DVB_MAX_IDS"
  shows "find_in_devices (nums2minor num' type ident) num devs = Some dev \<longleftrightarrow>
    num = num' \<and> dev \<in> set devs \<and> dev_type dev = type \<and> dev_id dev = ident"
  using assms
  by (induction devs) (auto simp: adapter_ok_def nums2minor_inject image_iff)

lemma find_device_in:
  assumes "registry_ok adaps" and "type < 16" "ident < DVB_MAX_IDS"
  shows "dvbdev_find_device (nums2minor num type ident) adaps = Some dev \<longleftrightarrow>
    (\<exists>adap\<in>set adaps. adap_num adap = num \<and> dev \<in> set (device_list adap) \<and> dev_type dev = type \<and> dev_id dev = ident)"
  using assms
proof (induction adaps)
  case (Cons adap adaps)
  have "adapter_ok \<lparr>adap_num = adap_num adap, adap_name = [], device_list = device_list adap\<rparr>"
    using Cons.prems(1) by (simp add: registry_ok_def adapter_ok_def)
  note here = find_in_devices_iff [OF this Cons.prems(2,3), of num]
  have IH: "dvbdev_find_device (nums2minor num type ident) adaps = Some dev \<longleftrightarrow>
    (\<exists>adap\<in>set adaps. adap_num adap = num \<and> dev \<in> set (device_list adap) \<and> dev_type dev = type \<and> dev_id dev = ident)"
    using Cons by (intro Cons.IH) (simp_all add: registry_ok_def)
  have only: "adap_num adap \<noteq> num" if "\<exists>adap\<in>set adaps. adap_num adap = num"
    using Cons.prems(1) that by (auto simp: registry_ok_def)
  have same: "d = dev" if "d \<in> set (device_list adap)" "dev \<in> set (device_list adap)" "dev_type d = dev_type dev" "dev_id d = dev_id dev" for d
    using Cons.prems(1) that by (auto simp: registry_ok_def adapter_ok_def distinct_map inj_on_def)
  show ?case
  proof (cases "find_in_devices (nums2minor num type ident) (adap_num adap) (device_list adap)")
    case None
    then show ?thesis using IH here [of dev] by auto
  next
    case (Some d)
    then show ?thesis using here [of d] only same by auto
  qed
qed simp

lemma registry_unregister_device: "registry_ok adaps \<Longrightarrow> registry_ok (dvb_unregister_device d adaps)"
  by (cases d) (auto simp: dvb_unregister_device_def registry_ok_def adapter_ok_def comp_def distinct_map_filter)

lemma registry_unregister_adapter: "registry_ok adaps \<Longrightarrow> registry_ok (snd (dvb_unregister_adapter sig adap adaps))"
  by (auto simp: dvb_unregister_adapter_def registry_ok_def distinct_map_filter)

lemma registry_register_adapter:
  assumes "registry_ok adaps"
  shows "\<exists>r adaps'. dvb_register_adapter sig mem name adaps = Ret (r, adaps') \<and> registry_ok adaps'"
proof -
  obtain num where num: "dvbdev_get_free_adapter_num adaps = Ret num" using free_num_returns by blast
  then have "\<forall>adap\<in>set adaps. adap_num adap \<noteq> num"
    unfolding dvbdev_get_free_adapter_num_def using free_num_correct by blast
  with assms have "registry_ok (adaps @ [\<lparr>adap_num = num, adap_name = name, device_list = []\<rparr>])"
    by (auto simp: registry_ok_def adapter_ok_def)
  with num assms show ?thesis by (simp add: dvb_register_adapter_def)
qed

lemma registry_register_device:
  assumes "registry_ok adaps" and "adap \<in> set adaps" and "type < 16"
    and "dvb_register_device sig addr old adap template priv type adaps = (0, p, adaps')"
  shows "registry_ok adaps' \<and>
    (\<exists>a dev. p = Some a \<and> dev_addr dev = a \<and> dev_type dev = type \<and> dev_priv dev = priv \<and> dev_id dev < DVB_MAX_IDS \<and>
      adaps' = update_adapter (adap_num adap) (\<lambda>b. b\<lparr>device_list := device_list b @ [dev]\<rparr>) adaps)"
proof -
  define r where "r = dvbdev_get_free_id adap type"
  have "0 \<le> r" using assms(4) by (auto simp: dvb_register_device_def r_def Let_def split: if_splits option.splits)
  then have free: "nat r < DVB_MAX_IDS" "\<forall>dev\<in>set (device_list adap). \<not> (dev_type dev = type \<and> dev_id dev = nat r)"
    using get_free_id_correct [of DVB_MAX_IDS 0 type "device_list adap" r] by (auto simp: r_def dvbdev_get_free_id_def)
  obtain a where a: "p = Some a"
    and upd: "adaps' = update_adapter (adap_num adap) (\<lambda>b. b\<lparr>device_list := device_list b @
      [template\<lparr>dev_addr := a, dev_type := type, dev_id := nat r, dev_priv := priv\<rparr>]\<rparr>) adaps"
    using assms(4) by (auto simp: dvb_register_device_def r_def Let_def split: if_splits option.splits)
  have only: "b = adap" if "b \<in> set adaps" "adap_num b = adap_num adap" for b
    using assms(1,2) that by (auto simp: registry_ok_def distinct_map inj_on_def)
  have "map adap_num adaps' = map adap_num adaps" unfolding upd update_adapter_def by simp
  then have "distinct (map adap_num adaps')" using assms(1) by (simp add: registry_ok_def)
  moreover have "\<forall>b\<in>set adaps'. adapter_ok b"
    using assms(1,3) free only unfolding upd update_adapter_def registry_ok_def
    by (fastforce simp: adapter_ok_def)
  ultimately have "registry_ok adaps'" by (simp add: registry_ok_def)
  moreover have "dev_id (template\<lparr>dev_addr := a, dev_type := type, dev_id := nat r, dev_priv := priv\<rparr>) < DVB_MAX_IDS"
    using free(1) by simp
  ultimately show ?thesis
    using a upd by (intro conjI exI [of _ a]
      exI [of _ "template\<lparr>dev_addr := a, dev_type := type, dev_id := nat r, dev_priv := priv\<rparr>"]) simp_all
qed

section \<open>Properties\<close>

text \<open>
  C20. A device that was registered is the one its minor number opens, and registering it does not
  change what any other minor number opens: numbers are never handed out twice.
\<close>

theorem registered_device_found:
  assumes "registry_ok adaps" and "adap \<in> set adaps" and "type < 16"
    and "dvb_register_device sig addr old adap template priv type adaps = (0, p, adaps')"
  shows "\<exists>dev. p = Some (dev_addr dev) \<and> dev_type dev = type \<and> dev_priv dev = priv \<and> registry_ok adaps' \<and>
    dvbdev_find_device (nums2minor (adap_num adap) type (dev_id dev)) adaps = None \<and>
    dvbdev_find_device (nums2minor (adap_num adap) type (dev_id dev)) adaps' = Some dev \<and>
    (\<forall>num t k d. t < 16 \<and> k < DVB_MAX_IDS \<and> dvbdev_find_device (nums2minor num t k) adaps = Some d \<longrightarrow>
      dvbdev_find_device (nums2minor num t k) adaps' = Some d)"
proof -
  obtain dev where dev: "p = Some (dev_addr dev)" "dev_type dev = type" "dev_priv dev = priv" "dev_id dev < DVB_MAX_IDS"
    and ok: "registry_ok adaps'"
    and upd: "adaps' = update_adapter (adap_num adap) (\<lambda>b. b\<lparr>device_list := device_list b @ [dev]\<rparr>) adaps"
    using registry_register_device [OF assms] by blast
  let ?new = "adap\<lparr>device_list := device_list adap @ [dev]\<rparr>"
  have new: "?new \<in> set adaps'" using assms(2) by (force simp: upd update_adapter_def)
  then have found: "dvbdev_find_device (nums2minor (adap_num adap) type (dev_id dev)) adaps' = Some dev"
    unfolding find_device_in [OF ok assms(3) dev(4)] using dev(2) by (intro bexI [of _ ?new]) simp_all
  have "adapter_ok ?new" using ok new by (simp add: registry_ok_def)
  then have "(type, dev_id dev) \<notin> (\<lambda>d. (dev_type d, dev_id d)) ` set (device_list adap)"
    using dev(2) by (auto simp: adapter_ok_def)
  moreover have "b = adap" if "b \<in> set adaps" "adap_num b = adap_num adap" for b
    using assms(1,2) that by (auto simp: registry_ok_def distinct_map inj_on_def)
  ultimately have "dvbdev_find_device (nums2minor (adap_num adap) type (dev_id dev)) adaps \<noteq> Some d" for d
    unfolding find_device_in [OF assms(1,3) dev(4)] by force
  then have none: "dvbdev_find_device (nums2minor (adap_num adap) type (dev_id dev)) adaps = None" by blast
  have kept: "\<exists>b'\<in>set adaps'. adap_num b' = adap_num b \<and> set (device_list b) \<subseteq> set (device_list b')" if "b \<in> set adaps" for b
  proof -
    let ?b = "if adap_num b = adap_num adap then b\<lparr>device_list := device_list b @ [dev]\<rparr> else b"
    have "?b \<in> set adaps'" unfolding upd update_adapter_def using that by auto
    then show ?thesis by (rule bexI [rotated]) auto
  qed
  have old: "dvbdev_find_device (nums2minor num t k) adaps' = Some d"
    if "t < 16" "k < DVB_MAX_IDS" "dvbdev_find_device (nums2minor num t k) adaps = Some d" for num t k d
    using that(3) kept unfolding find_device_in [OF assms(1) that(1,2)] find_device_in [OF ok that(1,2)] by blast
  show ?thesis using dev ok none found old by blast
qed

theorem registered_device_found_witness:
  "\<exists>adaps'. dvb_register_device False (Some 7) None \<lparr>adap_num = 0, adap_name = [], device_list = []\<rparr>
      \<lparr>dev_addr = 0, dev_fops = True, dev_type = 0, dev_id = 0, dev_readers = 1, dev_writers = 1, dev_users = 1,
        kernel_ioctl = False, dev_priv = None\<rparr> (Some 3) 4 [\<lparr>adap_num = 0, adap_name = [], device_list = []\<rparr>] =
      (0, Some 7, adaps') \<and>
    (\<exists>dev ident. dvbdev_find_device (nums2minor 0 4 ident) adaps' = Some dev \<and> dev_addr dev = 7)"
proof -
  let ?adap = "\<lparr>adap_num = 0, adap_name = [], device_list = []\<rparr>"
  let ?t = "\<lparr>dev_addr = 0, dev_fops = True, dev_type = 0, dev_id = 0, dev_readers = 1, dev_writers = 1, dev_users = 1,
        kernel_ioctl = False, dev_priv = None\<rparr>"
  have "get_free_id_from 4 0 4 [] = 0" by (simp add: eval_nat_numeral)
  then obtain adaps' where r: "dvb_register_device False (Some 7) None ?adap ?t (Some 3) 4 [?adap] = (0, Some 7, adaps')"
    by (simp add: dvb_register_device_def dvbdev_get_free_id_def Let_def)
  have "registry_ok [?adap]" "?adap \<in> set [?adap]" "(4 :: nat) < 16" by (simp_all add: registry_ok_def adapter_ok_def)
  from registered_device_found [OF this r] r show ?thesis by fastforce
qed

text \<open>
  The generic open and release routines keep an exact account: a successful open takes one user
  and one reader or writer, a refused one (exactly when the device has no user slot, or none of that
  kind, left) changes nothing, and the release of the same file gives back what the open took.
\<close>

theorem generic_open_release:
  "case dvb_generic_open (Some dev) mode of (r, d) \<Rightarrow>
     (r = - EBUSY \<and> d = Some dev \<and>
       (dev_users dev = 0 \<or> (if mode = O_RDONLY then dev_readers dev else dev_writers dev) = 0)) \<or>
     (r = 0 \<and> dvb_generic_release d mode = (0, Some dev) \<and> dev_users dev \<noteq> 0 \<and>
       (if mode = O_RDONLY then dev_readers dev else dev_writers dev) \<noteq> 0 \<and>
       (\<exists>e. d = Some e \<and> dev_users e = dev_users dev - 1 \<and>
         dev_readers e + dev_writers e = dev_readers dev + dev_writers dev - 1))"
  by (auto simp: dvb_generic_open_def dvb_generic_release_def Let_def)

end
