(* ===== verification/DVB_Dmxdev.thy ===== *)
theory DVB_Dmxdev
  imports DVB_Feeds DVB_Dmxdev_Buffer DVB_Dev
begin

text \<open>
  \<^verbatim>\<open>dvb-core/dmxdev.c\<close>: the devices through which applications set up filters and read sections, PES
  data and transport streams.

  The state is the structure \<^verbatim>\<open>struct dmxdev\<close> with its array of filters, the demultiplexer it
  drives, and the list \<open>sys_sigs\<close> that says for each of the following interruptible waits whether a
  signal interrupts it (none when the list has ended). The callbacks of the device are registered in
  the demultiplexer, whose type variable is instantiated by the device structure itself; \<open>dd_hw\<close> is the
  state of the driver below. Pointers to filters of the device are indices. The variants of the
  unions \<^verbatim>\<open>params\<close>, \<^verbatim>\<open>feed\<close> and \<^verbatim>\<open>filter\<close> are read only according to the type of a filter: the parameters
  are two fields, the feed is one index. An empty array stands for the NULL pointer, and \<open>vm\<close> says
  for which sizes \<^verbatim>\<open>vmalloc\<close> succeeds. Spin locks and wait queues are left out, semaphores are kept.
\<close>

section \<open>The data\<close>

datatype dmxdev_type = DMXDEV_TYPE_NONE | DMXDEV_TYPE_SEC | DMXDEV_TYPE_PES

datatype dmxdev_state =
  DMXDEV_STATE_FREE | DMXDEV_STATE_ALLOCATED | DMXDEV_STATE_SET | DMXDEV_STATE_GO
| DMXDEV_STATE_DONE | DMXDEV_STATE_TIMEDOUT

primrec dmxdev_state_num :: "dmxdev_state \<Rightarrow> nat" where
  "dmxdev_state_num DMXDEV_STATE_FREE = 0"
| "dmxdev_state_num DMXDEV_STATE_ALLOCATED = 1"
| "dmxdev_state_num DMXDEV_STATE_SET = 2"
| "dmxdev_state_num DMXDEV_STATE_GO = 3"
| "dmxdev_state_num DMXDEV_STATE_DONE = 4"
| "dmxdev_state_num DMXDEV_STATE_TIMEDOUT = 5"

lemma dmxdev_state_num_inject: "dmxdev_state_num a = dmxdev_state_num b \<longleftrightarrow> a = b"
  by (cases a; cases b) simp_all

instantiation dmxdev_state :: linorder
begin

definition less_eq_dmxdev_state :: "dmxdev_state \<Rightarrow> dmxdev_state \<Rightarrow> bool" where
  "less_eq_dmxdev_state a b \<longleftrightarrow> dmxdev_state_num a \<le> dmxdev_state_num b"

definition less_dmxdev_state :: "dmxdev_state \<Rightarrow> dmxdev_state \<Rightarrow> bool" where
  "less_dmxdev_state a b \<longleftrightarrow> dmxdev_state_num a < dmxdev_state_num b"

instance
  by standard (auto simp: less_eq_dmxdev_state_def less_dmxdev_state_def dmxdev_state_num_inject)

end

lemmas dmxdev_state_order = less_eq_dmxdev_state_def less_dmxdev_state_def

datatype dmx_output = DMX_OUT_DECODER | DMX_OUT_TAP | DMX_OUT_TS_TAP

datatype dmx_input = DMX_IN_FRONTEND | DMX_IN_DVR

record dmx_filter_t =
  flt_filter :: bytes
  flt_mask :: bytes
  flt_mode :: bytes

record dmx_sct_filter_params =
  sct_pid :: nat
  sct_filter :: dmx_filter_t
  sct_timeout :: u32
  sct_flags :: u32

record dmx_pes_filter_params =
  pes_pid :: nat
  pes_input :: dmx_input
  pes_output :: dmx_output
  pes_pes_type :: int
  pes_flags :: u32

abbreviation DMX_FILTER_SIZE :: nat where "DMX_FILTER_SIZE \<equiv> 16"
abbreviation DMX_PES_OTHER :: int where "DMX_PES_OTHER \<equiv> 20"
abbreviation DMX_CHECK_CRC :: u32 where "DMX_CHECK_CRC \<equiv> 1"
abbreviation DMX_ONESHOT :: u32 where "DMX_ONESHOT \<equiv> 2"
abbreviation DMX_IMMEDIATE_START :: u32 where "DMX_IMMEDIATE_START \<equiv> 4"
abbreviation DVR_BUFFER_SIZE :: nat where "DVR_BUFFER_SIZE \<equiv> 10 * 188 * 1024"
abbreviation HZ :: u32 where "HZ \<equiv> 100"

record dmxdev_filter =
  df_sec_filter :: "nat option"
  df_feed :: "nat option"
  df_sec :: dmx_sct_filter_params
  df_pes :: dmx_pes_filter_params
  df_type :: dmxdev_type
  df_state :: dmxdev_state
  df_buffer :: dmxdev_buffer
  df_mutex :: bool
  df_timer :: "nat option"
  df_todo :: int
  df_secheader :: bytes
  df_pid :: nat

record dmxdev_dvr =
  dvr_state :: dmxdev_state
  dvr_data :: "bytes option"

record 'h dmxdev =
  dd_dvbdev :: "nat option"
  dd_dvr_dvbdev :: "nat option"
  dd_filter :: "dmxdev_filter list"
  dd_dvr :: "dmxdev_dvr list"
  dd_filternum :: nat
  dd_duplex :: bool
  dvr_orig_fe :: "dmx_frontend option"
  dvr_buffer :: dmxdev_buffer
  dd_mutex :: bool
  dd_hw :: 'h

record 'h dmxsys =
  sys_dev :: "'h dmxdev"
  sys_demux :: "'h dmxdev dvb_demux"
  sys_sigs :: "bool list"

type_synonym ('r, 'h) sysop = "'h dmxsys \<Rightarrow> ('r \<times> 'h dmxsys) kres"

section \<open>Access to the state\<close>

definition flt :: "'h dmxsys \<Rightarrow> nat \<Rightarrow> dmxdev_filter" where
  "flt s i = dd_filter (sys_dev s) ! i"

definition upd_dev :: "('h dmxdev \<Rightarrow> 'h dmxdev) \<Rightarrow> 'h dmxsys \<Rightarrow> 'h dmxsys" where
  "upd_dev g s = s\<lparr>sys_dev := g (sys_dev s)\<rparr>"

definition dev_upd_flt :: "nat \<Rightarrow> (dmxdev_filter \<Rightarrow> dmxdev_filter) \<Rightarrow> 'h dmxdev \<Rightarrow> 'h dmxdev" where
  "dev_upd_flt i g d = d\<lparr>dd_filter := (dd_filter d)[i := g (dd_filter d ! i)]\<rparr>"

definition upd_flt :: "nat \<Rightarrow> (dmxdev_filter \<Rightarrow> dmxdev_filter) \<Rightarrow> 'h dmxsys \<Rightarrow> 'h dmxsys" where
  "upd_flt i g s = upd_dev (dev_upd_flt i g) s"

definition next_sig :: "'h dmxsys \<Rightarrow> bool" where
  "next_sig s = (sys_sigs s \<noteq> [] \<and> hd (sys_sigs s))"

definition pop_sig :: "'h dmxsys \<Rightarrow> 'h dmxsys" where
  "pop_sig s = s\<lparr>sys_sigs := tl (sys_sigs s)\<rparr>"

text \<open>A call into the demultiplexer, without and with a call of the driver below it.\<close>

definition dmx_call ::
  "(bool \<Rightarrow> 'h dmxdev dvb_demux \<Rightarrow> ('r \<times> 'h dmxdev dvb_demux) kres) \<Rightarrow> ('r, 'h) sysop" where
  "dmx_call f s =
     kbind (f (next_sig s) (sys_demux s)) (\<lambda>(r, d). Ret (r, (pop_sig s)\<lparr>sys_demux := d\<rparr>))"

definition dmx_call_hw ::
  "(bool \<Rightarrow> 'h dmxdev dvb_demux \<Rightarrow> 'h dmxdev \<Rightarrow> (('r \<times> 'h dmxdev) \<times> 'h dmxdev dvb_demux) kres) \<Rightarrow> ('r, 'h) sysop" where
  "dmx_call_hw f s =
     kbind (f (next_sig s) (sys_demux s) (sys_dev s)) (\<lambda>((r, u), d). Ret (r, (pop_sig s)\<lparr>sys_demux := d, sys_dev := u\<rparr>))"

text \<open>The two semaphores.\<close>

definition dev_locked :: "'r \<Rightarrow> ('r, 'h) sysop \<Rightarrow> ('r, 'h) sysop" where
  "dev_locked interrupted body s =
     (let sig = next_sig s; s = pop_sig s
      in if sig then Ret (interrupted, s)
         else if dd_mutex (sys_dev s) then Hang
         else kbind (body (upd_dev (\<lambda>d. d\<lparr>dd_mutex := True\<rparr>) s)) (\<lambda>(r, s).
           Ret (r, upd_dev (\<lambda>d. d\<lparr>dd_mutex := False\<rparr>) s)))"

definition filter_locked :: "nat \<Rightarrow> 'r \<Rightarrow> ('r, 'h) sysop \<Rightarrow> ('r, 'h) sysop" where
  "filter_locked i interrupted body s =
     (let sig = next_sig s; s = pop_sig s
      in if sig then Ret (interrupted, s)
         else if df_mutex (flt s i) then Hang
         else kbind (body (upd_flt i (\<lambda>f. f\<lparr>df_mutex := True\<rparr>) s)) (\<lambda>(r, s).
           Ret (r, upd_flt i (\<lambda>f. f\<lparr>df_mutex := False\<rparr>) s)))"

section \<open>The code\<close>

subsection \<open>The DVR device\<close>

definition get_fe :: "'u dvb_demux \<Rightarrow> dmx_frontend_source \<Rightarrow> dmx_frontend option" where
  "get_fe demux type =
     (case dvbdmx_get_frontends demux of
        None \<Rightarrow> None
      | Some fes \<Rightarrow> find (\<lambda>fe. fe_source fe = type) fes)"

definition dvb_dmxdev_dvr_state_set :: "dmxdev_state \<Rightarrow> dmxdev_dvr \<Rightarrow> dmxdev_dvr" where
  "dvb_dmxdev_dvr_state_set st d = d\<lparr>dvr_state := st\<rparr>"

definition vmalloc :: "(nat \<Rightarrow> bool) \<Rightarrow> nat \<Rightarrow> bytes option" where
  "vmalloc vm n = (if vm n then Some (replicate n 0) else None)"

definition dvb_dvr_open :: "(nat \<Rightarrow> bool) \<Rightarrow> access \<Rightarrow> (int, 'h) sysop" where
  "dvb_dvr_open vm mode =
     dev_locked (- ERESTARTSYS) (\<lambda>s.
       if mode = O_RDWR \<and> \<not> dd_duplex (sys_dev s) then Ret (- EOPNOTSUPP, s)
       else if mode = O_RDONLY
       then
         let b = dvb_dmxdev_buffer_init\<lparr>buf_size := DVR_BUFFER_SIZE, buf_data := vmalloc vm DVR_BUFFER_SIZE\<rparr>;
             s = upd_dev (\<lambda>d. d\<lparr>dvr_buffer := b\<rparr>) s
         in if buf_data b = None then Ret (- ENOMEM, s) else Ret (0, s)
       else if mode = O_WRONLY
       then
         let s = upd_dev (\<lambda>d. d\<lparr>dvr_orig_fe := demux_frontend (sys_demux s)\<rparr>) s
         in case get_fe (sys_demux s) DMX_MEMORY_FE of
              None \<Rightarrow> Ret (- EINVAL, s)
            | Some front \<Rightarrow>
                kbind (dmx_call dvbdmx_disconnect_frontend s) (\<lambda>(_, s).
                  kbind (dmx_call (\<lambda>sig d. dvbdmx_connect_frontend sig d (Some front)) s) (\<lambda>(_, s). Ret (0, s)))
       else Ret (0, s))"

definition dvb_dvr_release :: "access \<Rightarrow> (int, 'h) sysop" where
  "dvb_dvr_release mode =
     dev_locked (- ERESTARTSYS) (\<lambda>s.
       if mode = O_WRONLY
       then
         kbind (dmx_call dvbdmx_disconnect_frontend s) (\<lambda>(_, s).
           kbind (dmx_call (\<lambda>sig d. dvbdmx_connect_frontend sig d (dvr_orig_fe (sys_dev s))) s) (\<lambda>(_, s). Ret (0, s)))
       else if mode = O_RDONLY
       then Ret (0, upd_dev (\<lambda>d. d\<lparr>dvr_buffer := (dvr_buffer d)\<lparr>buf_data := None\<rparr>\<rparr>) s)
       else Ret (0, s))"

text \<open>\<open>pending\<close>: a signal is pending when the demultiplexer has processed the data.\<close>

definition dvb_dvr_write :: "access \<Rightarrow> bytes \<Rightarrow> bool \<Rightarrow> (int, 'h) sysop" where
  "dvb_dvr_write mode buf pending s =
     (if mode \<noteq> O_WRONLY then Ret (- EINVAL, s)
      else dev_locked (- ERESTARTSYS) (dmx_call_hw (\<lambda>sig d u. dvbdmx_write sig pending d buf u)) s)"

definition dvb_dvr_read :: "bool \<Rightarrow> nat \<Rightarrow> nat \<Rightarrow> wait list \<Rightarrow> (int \<times> bytes, 'h) sysop" where
  "dvb_dvr_read nonblock cap count ws s =
     kbind (dvb_dmxdev_buffer_read (dvr_buffer (sys_dev s)) nonblock cap count ws) (\<lambda>(ret, out, b, ws).
       Ret ((ret, out), upd_dev (\<lambda>d. d\<lparr>dvr_buffer := b\<rparr>) s))"

subsection \<open>Buffers, time-outs and callbacks of a filter\<close>

definition dvb_dmxdev_filter_state_set :: "nat \<Rightarrow> dmxdev_state \<Rightarrow> 'h dmxsys \<Rightarrow> 'h dmxsys" where
  "dvb_dmxdev_filter_state_set i st s = upd_flt i (\<lambda>f. f\<lparr>df_state := st\<rparr>) s"

definition upd_buf :: "nat \<Rightarrow> (dmxdev_buffer \<Rightarrow> dmxdev_buffer) \<Rightarrow> 'h dmxsys \<Rightarrow> 'h dmxsys" where
  "upd_buf i g s = upd_flt i (\<lambda>f. f\<lparr>df_buffer := g (df_buffer f)\<rparr>) s"

definition dvb_dmxdev_set_buffer_size :: "(nat \<Rightarrow> bool) \<Rightarrow> nat \<Rightarrow> nat \<Rightarrow> (int, 'h) sysop" where
  "dvb_dmxdev_set_buffer_size vm i sz s =
     (if buf_size (df_buffer (flt s i)) = sz then Ret (0, s)
      else if df_state (flt s i) \<ge> DMXDEV_STATE_GO then Ret (- EBUSY, s)
      else
        let s = upd_buf i (\<lambda>b. b\<lparr>buf_data := None, buf_size := sz, buf_pread := 0, buf_pwrite := 0\<rparr>) s
        in if sz = 0 then Ret (0, s)
           else
             case vmalloc vm sz of
               None \<Rightarrow> Ret (- ENOMEM, s)
             | Some mem \<Rightarrow> Ret (0, upd_buf i (\<lambda>b. b\<lparr>buf_data := Some mem\<rparr>) s))"

definition dvb_dmxdev_filter_timeout :: "nat \<Rightarrow> 'h dmxsys \<Rightarrow> 'h dmxsys" where
  "dvb_dmxdev_filter_timeout i s =
     (let s = upd_buf i (\<lambda>b. b\<lparr>buf_error := - ETIMEDOUT\<rparr>) s
      in dvb_dmxdev_filter_state_set i DMXDEV_STATE_TIMEDOUT s)"

text \<open>The timer of a filter is the number of ticks until it expires.\<close>

definition dvb_dmxdev_filter_timer :: "nat \<Rightarrow> 'h dmxsys \<Rightarrow> 'h dmxsys" where
  "dvb_dmxdev_filter_timer i s =
     (let s = upd_flt i (\<lambda>f. f\<lparr>df_timer := None\<rparr>) s; timeout = sct_timeout (df_sec (flt s i))
      in if timeout \<noteq> 0
         then upd_flt i (\<lambda>f. f\<lparr>df_timer := Some (1 + unat ((HZ div 2 + HZ * timeout) div 1000))\<rparr>) s
         else s)"

definition callback_write :: "dmxdev_buffer \<Rightarrow> bytes \<Rightarrow> bytes \<Rightarrow> dmxdev_buffer kres" where
  "callback_write b buffer1 buffer2 =
     kbind (dvb_dmxdev_buffer_write b buffer1) (\<lambda>(ret, b).
       kbind (if ret = int (length buffer1) then dvb_dmxdev_buffer_write b buffer2 else Ret (ret, b)) (\<lambda>(ret, b).
         Ret (if ret < 0 then b\<lparr>buf_pwrite := buf_pread b, buf_error := - EOVERFLOW\<rparr> else b)))"

definition dvb_dmxdev_section_callback ::
  "bytes \<Rightarrow> bytes \<Rightarrow> nat option \<Rightarrow> 'h dmxdev \<Rightarrow> (int \<times> 'h dmxdev) kres" where
  "dvb_dmxdev_section_callback buffer1 buffer2 priv d =
     (case priv of
        None \<Rightarrow> Oops
      | Some i \<Rightarrow>
          let f = dd_filter d ! i
          in if buf_error (df_buffer f) \<noteq> 0 then Ret (0, d)
             else if df_state f \<noteq> DMXDEV_STATE_GO then Ret (0, d)
             else kbind (callback_write (df_buffer f) buffer1 buffer2) (\<lambda>b.
               let d = dev_upd_flt i (\<lambda>f. f\<lparr>df_timer := None, df_buffer := b\<rparr>) d
               in if sct_flags (df_sec f) AND DMX_ONESHOT \<noteq> 0
                  then Ret (0, dev_upd_flt i (\<lambda>f. f\<lparr>df_state := DMXDEV_STATE_DONE\<rparr>) d)
                  else Ret (0, d)))"

definition dvb_dmxdev_ts_callback ::
  "bytes \<Rightarrow> bytes \<Rightarrow> nat option \<Rightarrow> 'h dmxdev \<Rightarrow> (int \<times> 'h dmxdev) kres" where
  "dvb_dmxdev_ts_callback buffer1 buffer2 priv d =
     (case priv of
        None \<Rightarrow> Oops
      | Some i \<Rightarrow>
          let out = pes_output (df_pes (dd_filter d ! i))
          in if out = DMX_OUT_DECODER then Ret (0, d)
             else
               let tap = (out = DMX_OUT_TAP); b = (if tap then df_buffer (dd_filter d ! i) else dvr_buffer d)
               in if buf_error b \<noteq> 0 then Ret (0, d)
                  else kbind (callback_write b buffer1 buffer2) (\<lambda>b.
                    Ret (0, if tap then dev_upd_flt i (\<lambda>f. f\<lparr>df_buffer := b\<rparr>) d else d\<lparr>dvr_buffer := b\<rparr>)))"

text \<open>
  The functions registered in the demultiplexer. The type of callbacks there has no faults, so a call
  that faults is taken as one that does nothing; results about what a callback delivers therefore
  show that it returns (\<open>section_callback_returns\<close> for the sections of this device).
\<close>

definition total_cb :: "(bytes \<Rightarrow> bytes \<Rightarrow> nat option \<Rightarrow> 'u \<Rightarrow> (int \<times> 'u) kres) \<Rightarrow> 'u feed_cb" where
  "total_cb f b1 b2 priv u = (case f b1 b2 priv u of Ret r \<Rightarrow> r | _ \<Rightarrow> (0, u))"

subsection \<open>Starting and stopping feeds\<close>

definition dvb_dmxdev_feed_stop :: "nat \<Rightarrow> (int, 'h) sysop" where
  "dvb_dmxdev_feed_stop i s =
     (let s = dvb_dmxdev_filter_state_set i DMXDEV_STATE_SET s
      in case df_type (flt s i) of
           DMXDEV_TYPE_SEC \<Rightarrow>
             let s = upd_flt i (\<lambda>f. f\<lparr>df_timer := None\<rparr>) s
             in (case df_feed (flt s i) of
                   None \<Rightarrow> Oops
                 | Some fd \<Rightarrow>
                     kbind (dmx_call_hw (\<lambda>sig d u. dmx_section_feed_stop_filtering sig d fd u) s) (\<lambda>(_, s). Ret (0, s)))
         | DMXDEV_TYPE_PES \<Rightarrow>
             (case df_feed (flt s i) of
                None \<Rightarrow> Oops
              | Some fd \<Rightarrow>
                  kbind (dmx_call_hw (\<lambda>sig d u. dmx_ts_feed_stop_filtering sig d fd u) s) (\<lambda>(_, s). Ret (0, s)))
         | DMXDEV_TYPE_NONE \<Rightarrow> Ret (- EINVAL, s))"

definition dvb_dmxdev_feed_start :: "nat \<Rightarrow> (int, 'h) sysop" where
  "dvb_dmxdev_feed_start i s =
     (let s = dvb_dmxdev_filter_state_set i DMXDEV_STATE_GO s
      in case df_type (flt s i) of
           DMXDEV_TYPE_SEC \<Rightarrow>
             (case df_feed (flt s i) of
                None \<Rightarrow> Oops
              | Some fd \<Rightarrow> dmx_call_hw (\<lambda>sig d u. dmx_section_feed_start_filtering sig d fd u) s)
         | DMXDEV_TYPE_PES \<Rightarrow>
             (case df_feed (flt s i) of
                None \<Rightarrow> Oops
              | Some fd \<Rightarrow> dmx_call_hw (\<lambda>sig d u. dmx_ts_feed_start_filtering sig d fd u) s)
         | DMXDEV_TYPE_NONE \<Rightarrow> Ret (- EINVAL, s))"

text \<open>The loop that looks for an active section filter with a PID.\<close>

definition find_active_sec :: "nat \<Rightarrow> dmxdev_filter list \<Rightarrow> nat" where
  "find_active_sec pid fs =
     first_index (\<lambda>f. df_state f \<ge> DMXDEV_STATE_GO \<and> df_type f = DMXDEV_TYPE_SEC \<and> df_pid f = pid) fs"

definition dvb_dmxdev_feed_restart :: "nat \<Rightarrow> (int, 'h) sysop" where
  "dvb_dmxdev_feed_restart i s =
     (let pid = sct_pid (df_sec (flt s i)); fs = dd_filter (sys_dev s); j = find_active_sec pid fs
      in if j < length fs
         then kbind (dvb_dmxdev_feed_start j s) (\<lambda>(_, s). Ret (0, s))
         else
           case df_feed (flt s i) of
             None \<Rightarrow> Oops
           | Some fd \<Rightarrow> kbind (dmx_call (\<lambda>sig d. dvbdmx_release_section_feed sig d fd) s) (\<lambda>(_, s). Ret (0, s)))"

text \<open>
  Releasing a filter of the demultiplexer inside the section case of the stop routine; the routine
  called may wait twice, so it is given the next two signals, the second of which it ignores when the
  feed does not run.
\<close>

definition release_sec_filter :: "nat \<Rightarrow> nat \<Rightarrow> (int, 'h) sysop" where
  "release_sec_filter fd sf s =
     (let sig = next_sig s; s = pop_sig s
      in dmx_call_hw (\<lambda>sig2 d u. dmx_section_feed_release_filter sig sig2 d fd sf u) s)"

definition dvb_dmxdev_filter_stop :: "nat \<Rightarrow> (int, 'h) sysop" where
  "dvb_dmxdev_filter_stop i s =
     (if df_state (flt s i) < DMXDEV_STATE_GO then Ret (0, s)
      else
        let flush = (\<lambda>s. Ret (0, upd_buf i (\<lambda>b. b\<lparr>buf_pread := 0, buf_pwrite := 0\<rparr>) s))
        in case df_type (flt s i) of
             DMXDEV_TYPE_SEC \<Rightarrow>
               (case df_feed (flt s i) of
                  None \<Rightarrow> flush s
                | Some fd \<Rightarrow>
                    kbind (dvb_dmxdev_feed_stop i s) (\<lambda>(_, s).
                    kbind
                      (case df_sec_filter (flt s i) of
                         None \<Rightarrow> Ret (0, s) | Some sf \<Rightarrow> release_sec_filter fd sf s) (\<lambda>(_, s).
                    kbind (dvb_dmxdev_feed_restart i s) (\<lambda>(_, s).
                    flush (upd_flt i (\<lambda>f. f\<lparr>df_feed := None\<rparr>) s)))))
           | DMXDEV_TYPE_PES \<Rightarrow>
               (case df_feed (flt s i) of
                  None \<Rightarrow> flush s
                | Some fd \<Rightarrow>
                    kbind (dvb_dmxdev_feed_stop i s) (\<lambda>(_, s).
                    kbind (dmx_call (\<lambda>sig d. dvbdmx_release_ts_feed sig d fd) s) (\<lambda>(_, s).
                    flush (upd_flt i (\<lambda>f. f\<lparr>df_feed := None\<rparr>) s))))
           | DMXDEV_TYPE_NONE \<Rightarrow>
               Ret (if df_state (flt s i) = DMXDEV_STATE_ALLOCATED then 0 else - EINVAL, s))"

definition dvb_dmxdev_filter_reset :: "nat \<Rightarrow> 'h dmxsys \<Rightarrow> 'h dmxsys" where
  "dvb_dmxdev_filter_reset i s =
     (if df_state (flt s i) < DMXDEV_STATE_SET then s
      else dvb_dmxdev_filter_state_set i DMXDEV_STATE_ALLOCATED
        (upd_flt i (\<lambda>f. f\<lparr>df_type := DMXDEV_TYPE_NONE, df_pid := 0xffff\<rparr>) s))"

subsection \<open>Starting a filter\<close>

text \<open>The section filter of the demultiplexer, filled in from the parameters of the application.\<close>

definition fill_secfilter :: "nat \<Rightarrow> dmx_filter_t \<Rightarrow> dvb_demux_filter \<Rightarrow> dvb_demux_filter kres" where
  "fill_secfilter i p g =
     kbind (memcpy (filter_value g) 3 (flt_filter p) 1 (DMX_FILTER_SIZE - 1)) (\<lambda>v.
     kbind (memcpy (filter_mask g) 3 (flt_mask p) 1 (DMX_FILTER_SIZE - 1)) (\<lambda>m.
     kbind (memcpy (filter_mode g) 3 (flt_mode p) 1 (DMX_FILTER_SIZE - 1)) (\<lambda>n.
       Ret (g\<lparr>filter_priv := Some i, filter_value := v[0 := flt_filter p ! 0],
         filter_mask := m[0 := flt_mask p ! 0, 1 := 0, 2 := 0], filter_mode := n[0 := flt_mode p ! 0]\<rparr>))))"

definition start_sec_filter :: "nat \<Rightarrow> nat \<Rightarrow> (int, 'h) sysop" where
  "start_sec_filter i fd s =
     kbind (dmx_call (\<lambda>sig d. dmx_section_feed_allocate_filter sig d fd) s) (\<lambda>((ret, sf), s).
       let s = upd_flt i (\<lambda>f. f\<lparr>df_sec_filter := sf\<rparr>) s
       in if ret < 0
          then
            kbind (dvb_dmxdev_feed_restart i s) (\<lambda>(_, s).
            kbind (dmx_call_hw (\<lambda>sig d u. dmx_section_feed_start_filtering sig d fd u) s) (\<lambda>(_, s). Ret (ret, s)))
          else
            case sf of
              None \<Rightarrow> Oops
            | Some j \<Rightarrow>
                kbind (fill_secfilter i (sct_filter (df_sec (flt s i))) (filters (sys_demux s) ! j)) (\<lambda>g.
                  let s = s\<lparr>sys_demux := set_filter j g (sys_demux s)\<rparr>; s = upd_flt i (\<lambda>f. f\<lparr>df_todo := 0\<rparr>) s
                  in kbind (dmx_call_hw (\<lambda>sig d u. dmx_section_feed_start_filtering sig d fd u) s) (\<lambda>(ret, s).
                    if ret < 0 then Ret (ret, s)
                    else
                      let s = dvb_dmxdev_filter_timer i s
                      in Ret (0, dvb_dmxdev_filter_state_set i DMXDEV_STATE_GO s))))"

definition start_sec :: "nat \<Rightarrow> (int, 'h) sysop" where
  "start_sec i s =
     (let para = df_sec (flt s i); fs = dd_filter (sys_dev s);
          s = upd_flt i (\<lambda>f. f\<lparr>df_sec_filter := None, df_feed := None\<rparr>) s;
          j = find_active_sec (sct_pid para) (dd_filter (sys_dev s));
          s = (if j < length fs then upd_flt i (\<lambda>f. f\<lparr>df_feed := df_feed (flt s j)\<rparr>) s else s)
      in case df_feed (flt s i) of
           None \<Rightarrow>
             kbind (dmx_call (\<lambda>sig d. dvbdmx_allocate_section_feed sig d (total_cb dvb_dmxdev_section_callback)) s) (\<lambda>((ret, fd), s).
               let s = upd_flt i (\<lambda>f. f\<lparr>df_feed := fd\<rparr>) s
               in if ret < 0 then Ret (ret, s)
                  else
                    case fd of
                      None \<Rightarrow> Oops
                    | Some fd \<Rightarrow>
                        kbind (dmx_call (\<lambda>sig d. dmx_section_feed_set sig d fd (sct_pid para) 32768 False
                          (sct_flags para AND DMX_CHECK_CRC \<noteq> 0)) s) (\<lambda>(ret, s).
                          if ret < 0 then kbind (dvb_dmxdev_feed_restart i s) (\<lambda>(_, s). Ret (ret, s))
                          else start_sec_filter i fd s))
         | Some fd \<Rightarrow>
             kbind (dvb_dmxdev_feed_stop i s) (\<lambda>(_, s). start_sec_filter i fd s))"

definition pes_ts_type :: "dmx_pes_filter_params \<Rightarrow> int" where
  "pes_ts_type para =
     (let t = (if pes_pes_type para < DMX_PES_OTHER then TS_DECODER else 0);
          t = (if pes_output para = DMX_OUT_TS_TAP then t OR TS_PACKET else t)
      in if pes_output para = DMX_OUT_TAP then t OR (TS_PAYLOAD_ONLY OR TS_PACKET) else t)"

definition start_pes :: "nat \<Rightarrow> (int, 'h) sysop" where
  "start_pes i s =
     (let s = upd_flt i (\<lambda>f. f\<lparr>df_feed := None\<rparr>) s; para = df_pes (flt s i)
      in kbind (dmx_call (\<lambda>sig d. dvbdmx_allocate_ts_feed sig d (total_cb dvb_dmxdev_ts_callback)) s) (\<lambda>((ret, fd), s).
        let s = upd_flt i (\<lambda>f. f\<lparr>df_feed := fd\<rparr>) s
        in if ret < 0 then Ret (ret, s)
           else
             case fd of
               None \<Rightarrow> Oops
             | Some fd \<Rightarrow>
                 let s = s\<lparr>sys_demux := set_feed fd ((feeds (sys_demux s) ! fd)\<lparr>feed_priv := Some i\<rparr>) (sys_demux s)\<rparr>
                 in kbind (dmx_call (\<lambda>sig d. dmx_ts_feed_set sig d fd (pes_pid para) (pes_ts_type para)
                     (nat (pes_pes_type para)) 188 32768 False 0) s) (\<lambda>(ret, s).
                   if ret < 0
                   then kbind (dmx_call (\<lambda>sig d. dvbdmx_release_ts_feed sig d fd) s) (\<lambda>(_, s). Ret (ret, s))
                   else kbind (dmx_call_hw (\<lambda>sig d u. dmx_ts_feed_start_filtering sig d fd u) s) (\<lambda>(ret, s).
                     if ret < 0 then Ret (ret, s)
                     else Ret (0, dvb_dmxdev_filter_state_set i DMXDEV_STATE_GO s)))))"

definition dvb_dmxdev_filter_start :: "(nat \<Rightarrow> bool) \<Rightarrow> nat \<Rightarrow> (int, 'h) sysop" where
  "dvb_dmxdev_filter_start vm i s =
     (if df_state (flt s i) < DMXDEV_STATE_SET then Ret (- EINVAL, s)
      else
        kbind (if df_state (flt s i) \<ge> DMXDEV_STATE_GO then dvb_dmxdev_filter_stop i s else Ret (0, s)) (\<lambda>(_, s).
          let b = df_buffer (flt s i);
              s = (if buf_data b = None then upd_buf i (\<lambda>b. b\<lparr>buf_data := vmalloc vm (buf_size b)\<rparr>) s else s)
          in if buf_data (df_buffer (flt s i)) = None then Ret (- ENOMEM, s)
             else
               let s = upd_buf i (\<lambda>b. b\<lparr>buf_pread := 0, buf_pwrite := 0\<rparr>) s
               in case df_type (flt s i) of
                    DMXDEV_TYPE_SEC \<Rightarrow> start_sec i s
                  | DMXDEV_TYPE_PES \<Rightarrow> start_pes i s
                  | DMXDEV_TYPE_NONE \<Rightarrow> Ret (- EINVAL, s)))"

subsection \<open>Opening, closing and setting up a filter\<close>

definition dvb_demux_open :: "(int \<times> nat option, 'h) sysop" where
  "dvb_demux_open s =
     (if dd_filter (sys_dev s) = [] then Ret ((- EINVAL, None), s)
      else dev_locked (- ERESTARTSYS, None) (\<lambda>s.
        let fs = dd_filter (sys_dev s); i = first_index (\<lambda>f. df_state f = DMXDEV_STATE_FREE) fs
        in if i = length fs then Ret ((- EMFILE, None), s)
           else
             let s = upd_flt i (\<lambda>f. f\<lparr>df_mutex := False, df_buffer := dvb_dmxdev_buffer_init,
                   df_type := DMXDEV_TYPE_NONE\<rparr>) s;
                 s = dvb_dmxdev_filter_state_set i DMXDEV_STATE_ALLOCATED s
             in Ret ((0, Some i), upd_flt i (\<lambda>f. f\<lparr>df_feed := None, df_timer := None\<rparr>) s)) s)"

definition dvb_dmxdev_filter_free :: "nat \<Rightarrow> (int, 'h) sysop" where
  "dvb_dmxdev_filter_free i =
     dev_locked (- ERESTARTSYS) (filter_locked i (- ERESTARTSYS) (\<lambda>s.
       kbind (dvb_dmxdev_filter_stop i s) (\<lambda>(_, s).
         let s = dvb_dmxdev_filter_reset i s; s = upd_buf i (\<lambda>b. b\<lparr>buf_data := None\<rparr>) s
         in Ret (0, dvb_dmxdev_filter_state_set i DMXDEV_STATE_FREE s))))"

definition invert_mode :: "dmx_filter_t \<Rightarrow> dmx_filter_t" where
  "invert_mode p =
     p\<lparr>flt_mode := map (\<lambda>k. if k < DMX_FILTER_SIZE then flt_mode p ! k XOR 0xff else flt_mode p ! k) [0..<length (flt_mode p)]\<rparr>"

definition dvb_dmxdev_filter_set :: "(nat \<Rightarrow> bool) \<Rightarrow> nat \<Rightarrow> dmx_sct_filter_params \<Rightarrow> (int, 'h) sysop" where
  "dvb_dmxdev_filter_set vm i params s =
     kbind (dvb_dmxdev_filter_stop i s) (\<lambda>(_, s).
       let s = upd_flt i (\<lambda>f. f\<lparr>df_type := DMXDEV_TYPE_SEC, df_pid := sct_pid params,
             df_sec := params\<lparr>sct_filter := invert_mode (sct_filter params)\<rparr>\<rparr>) s;
           s = dvb_dmxdev_filter_state_set i DMXDEV_STATE_SET s
       in if sct_flags params AND DMX_IMMEDIATE_START \<noteq> 0 then dvb_dmxdev_filter_start vm i s else Ret (0, s))"

definition dvb_dmxdev_pes_filter_set :: "(nat \<Rightarrow> bool) \<Rightarrow> nat \<Rightarrow> dmx_pes_filter_params \<Rightarrow> (int, 'h) sysop" where
  "dvb_dmxdev_pes_filter_set vm i params s =
     kbind (dvb_dmxdev_filter_stop i s) (\<lambda>(_, s).
       if pes_pes_type params > DMX_PES_OTHER \<or> pes_pes_type params < 0 then Ret (- EINVAL, s)
       else
         let s = upd_flt i (\<lambda>f. f\<lparr>df_type := DMXDEV_TYPE_PES, df_pid := pes_pid params, df_pes := params\<rparr>) s;
             s = dvb_dmxdev_filter_state_set i DMXDEV_STATE_SET s
         in if pes_flags params AND DMX_IMMEDIATE_START \<noteq> 0 then dvb_dmxdev_filter_start vm i s else Ret (0, s))"

subsection \<open>Reading\<close>

text \<open>The second part of the read: the body of a section, behind the \<open>done\<close> bytes of its header.\<close>

definition read_sec_rest ::
  "dmxdev_filter \<Rightarrow> bool \<Rightarrow> nat \<Rightarrow> int \<Rightarrow> bytes \<Rightarrow> nat \<Rightarrow> wait list \<Rightarrow> (int \<times> bytes \<times> dmxdev_filter) kres" where
  "read_sec_rest dfil nonblock cap done out count ws =
     (let count = (if int count > df_todo dfil then nat (df_todo dfil) else count)
      in kbind (dvb_dmxdev_buffer_read (df_buffer dfil) nonblock (cap - length out) count ws) (\<lambda>(result, xs, b, ws).
        let dfil = dfil\<lparr>df_buffer := b\<rparr>
        in if result < 0 then Ret (result, out @ xs, dfil)
           else Ret (result + done, out @ xs, dfil\<lparr>df_todo := df_todo dfil - result\<rparr>)))"

definition dvb_dmxdev_read_sec ::
  "dmxdev_filter \<Rightarrow> bool \<Rightarrow> nat \<Rightarrow> nat \<Rightarrow> wait list \<Rightarrow> (int \<times> bytes \<times> dmxdev_filter) kres" where
  "dvb_dmxdev_read_sec dfil nonblock cap count ws =
     (if df_todo dfil \<le> 0
      then
        let hcount = nat (3 + df_todo dfil); hcount = (if hcount > count then count else hcount)
        in kbind (dvb_dmxdev_buffer_read (df_buffer dfil) nonblock cap hcount ws) (\<lambda>(result, xs, b, ws).
          let dfil = dfil\<lparr>df_buffer := b\<rparr>
          in if result < 0 then Ret (result, xs, dfil\<lparr>df_todo := 0\<rparr>)
             else kbind (memcpy (df_secheader dfil) (nat (- df_todo dfil)) xs 0 (nat result)) (\<lambda>h.
               let count = count - nat result;
                   dfil = dfil\<lparr>df_secheader := h, df_todo := df_todo dfil - result\<rparr>
               in if df_todo dfil > - 3 then Ret (result, xs, dfil)
                  else
                    let dfil = dfil\<lparr>df_todo := (push_bit 8 (uint (h ! 1)) OR uint (h ! 2)) AND 0xfff\<rparr>
                    in if count = 0 then Ret (result, xs, dfil) else read_sec_rest dfil nonblock cap result xs count ws))
      else read_sec_rest dfil nonblock cap 0 [] count ws)"

definition dvb_demux_read :: "nat \<Rightarrow> bool \<Rightarrow> nat \<Rightarrow> nat \<Rightarrow> wait list \<Rightarrow> (int \<times> bytes, 'h) sysop" where
  "dvb_demux_read i nonblock cap count ws =
     filter_locked i (- ERESTARTSYS, []) (\<lambda>s.
       if df_type (flt s i) = DMXDEV_TYPE_SEC
       then kbind (dvb_dmxdev_read_sec (flt s i) nonblock cap count ws) (\<lambda>(ret, out, f).
         Ret ((ret, out), upd_flt i (\<lambda>_. f) s))
       else kbind (dvb_dmxdev_buffer_read (df_buffer (flt s i)) nonblock cap count ws) (\<lambda>(ret, out, b, ws).
         Ret ((ret, out), upd_buf i (\<lambda>_. b) s)))"

subsection \<open>Commands and polling\<close>

datatype dmx_cmd =
  DMX_START | DMX_STOP | DMX_SET_FILTER dmx_sct_filter_params | DMX_SET_PES_FILTER dmx_pes_filter_params
| DMX_SET_BUFFER_SIZE nat | DMX_GET_EVENT | DMX_GET_PES_PIDS | DMX_GET_STC nat | DMX_OTHER_CMD

datatype dmx_reply = No_reply | Pes_pids "nat list" | Stc nat nat

text \<open>\<open>get_stc\<close> is the hook of the driver; it returns the result, the clock value and its base.\<close>

definition dvb_demux_do_ioctl ::
  "(nat \<Rightarrow> bool) \<Rightarrow> (nat \<Rightarrow> int \<times> nat \<times> nat) option \<Rightarrow> nat \<Rightarrow> dmx_cmd \<Rightarrow> (int \<times> dmx_reply, 'h) sysop" where
  "dvb_demux_do_ioctl vm get_stc i cmd =
     dev_locked (- ERESTARTSYS, No_reply) (\<lambda>s.
       let locked = (\<lambda>body. kbind (filter_locked i (- ERESTARTSYS) body s) (\<lambda>(ret, s). Ret ((ret, No_reply), s)))
       in case cmd of
            DMX_START \<Rightarrow>
              locked (\<lambda>s. if df_state (flt s i) < DMXDEV_STATE_SET then Ret (- EINVAL, s) else dvb_dmxdev_filter_start vm i s)
          | DMX_STOP \<Rightarrow> locked (dvb_dmxdev_filter_stop i)
          | DMX_SET_FILTER p \<Rightarrow> locked (dvb_dmxdev_filter_set vm i p)
          | DMX_SET_PES_FILTER p \<Rightarrow> locked (dvb_dmxdev_pes_filter_set vm i p)
          | DMX_SET_BUFFER_SIZE n \<Rightarrow> locked (dvb_dmxdev_set_buffer_size vm i n)
          | DMX_GET_EVENT \<Rightarrow> Ret ((0, No_reply), s)
          | DMX_GET_PES_PIDS \<Rightarrow> Ret ((0, Pes_pids (snd (dvbdmx_get_pes_pids (sys_demux s)))), s)
          | DMX_GET_STC num \<Rightarrow>
              (case get_stc of
                 None \<Rightarrow> Ret ((- EINVAL, No_reply), s)
               | Some f \<Rightarrow> let (ret, stc, base) = f num in Ret ((ret, Stc stc base), s))
          | DMX_OTHER_CMD \<Rightarrow> Ret ((- EINVAL, No_reply), s))"

abbreviation POLLIN :: int where "POLLIN \<equiv> 0x1"
abbreviation POLLPRI :: int where "POLLPRI \<equiv> 0x2"
abbreviation POLLOUT :: int where "POLLOUT \<equiv> 0x4"
abbreviation POLLERR :: int where "POLLERR \<equiv> 0x8"
abbreviation POLLRDNORM :: int where "POLLRDNORM \<equiv> 0x40"
abbreviation POLLWRNORM :: int where "POLLWRNORM \<equiv> 0x100"

definition dvb_demux_poll :: "nat option \<Rightarrow> 'h dmxsys \<Rightarrow> int" where
  "dvb_demux_poll fil s =
     (case fil of
        None \<Rightarrow> - EINVAL
      | Some i \<Rightarrow>
          let f = flt s i
          in if df_state f \<noteq> DMXDEV_STATE_GO \<and> df_state f \<noteq> DMXDEV_STATE_DONE \<and> df_state f \<noteq> DMXDEV_STATE_TIMEDOUT
             then 0
             else
               let mask = 0;
                   mask = (if buf_error (df_buffer f) \<noteq> 0 then mask OR (((POLLIN OR POLLRDNORM) OR POLLPRI) OR POLLERR) else mask)
               in if buf_pread (df_buffer f) \<noteq> buf_pwrite (df_buffer f)
                  then mask OR ((POLLIN OR POLLRDNORM) OR POLLPRI) else mask)"

definition dvb_demux_release :: "nat \<Rightarrow> (int, 'h) sysop" where
  "dvb_demux_release i = dvb_dmxdev_filter_free i"

definition dvb_dvr_do_ioctl :: "dmx_cmd \<Rightarrow> (int, 'h) sysop" where
  "dvb_dvr_do_ioctl cmd =
     dev_locked (- ERESTARTSYS) (\<lambda>s. Ret (case cmd of DMX_SET_BUFFER_SIZE n \<Rightarrow> 0 | _ \<Rightarrow> - EINVAL, s))"

definition dvb_dvr_poll :: "access \<Rightarrow> 'h dmxsys \<Rightarrow> int" where
  "dvb_dvr_poll mode s =
     (let b = dvr_buffer (sys_dev s)
      in if mode = O_RDONLY
         then
           let mask = (if buf_error b \<noteq> 0 then ((POLLIN OR POLLRDNORM) OR POLLPRI) OR POLLERR else 0)
           in if buf_pread b \<noteq> buf_pwrite b then mask OR ((POLLIN OR POLLRDNORM) OR POLLPRI) else mask
         else (POLLOUT OR POLLWRNORM) OR POLLPRI)"

subsection \<open>Initialisation\<close>

definition dvbdev_template :: dvb_device where
  "dvbdev_template = \<lparr>dev_addr = 0, dev_fops = True, dev_type = 0, dev_id = 0, dev_readers = 0, dev_writers = 1,
     dev_users = 1, kernel_ioctl = False, dev_priv = None\<rparr>"

text \<open>
  \<open>raw_filter\<close> and \<open>raw_dvr\<close> are the contents of the two allocated arrays, \<^const>\<open>None\<close> when an allocation
  fails; \<open>a1\<close> and \<open>a2\<close> are the addresses of the two device structures, \<open>self\<close> is the device itself. The
  results of the two registrations are ignored. The adapter is a pointer: the second registration sees
  the device the first one added.
\<close>

definition adapter_now :: "dvb_adapter list \<Rightarrow> dvb_adapter \<Rightarrow> dvb_adapter" where
  "adapter_now adaps adap = (case find (\<lambda>a. adap_num a = adap_num adap) adaps of Some a \<Rightarrow> a | None \<Rightarrow> adap)"

definition dvb_dmxdev_init ::
  "dmxdev_filter list option \<Rightarrow> dmxdev_dvr list option \<Rightarrow> nat option \<Rightarrow> nat option \<Rightarrow> nat \<Rightarrow> dvb_adapter \<Rightarrow>
   dvb_adapter list \<Rightarrow> 'h dmxsys \<Rightarrow> int \<times> dvb_adapter list \<times> 'h dmxsys" where
  "dvb_dmxdev_init raw_filter raw_dvr a1 a2 self adap adaps s =
     (let (r, demux) = dvbdmx_open (sys_demux s); s = s\<lparr>sys_demux := demux\<rparr>
      in if r < 0 then (- EUSERS, adaps, s)
         else
           case raw_filter of
             None \<Rightarrow> (- ENOMEM, adaps, upd_dev (\<lambda>d. d\<lparr>dd_filter := []\<rparr>) s)
           | Some fs \<Rightarrow>
               case raw_dvr of
                 None \<Rightarrow> (- ENOMEM, adaps, upd_dev (\<lambda>d. d\<lparr>dd_filter := [], dd_dvr := []\<rparr>) s)
               | Some ds \<Rightarrow>
                   let s = upd_dev (\<lambda>d. d\<lparr>dd_mutex := False,
                         dd_filter := map (\<lambda>f. f\<lparr>df_buffer := (df_buffer f)\<lparr>buf_data := None\<rparr>, df_state := DMXDEV_STATE_FREE\<rparr>) fs,
                         dd_dvr := map (\<lambda>v. dvb_dmxdev_dvr_state_set DMXDEV_STATE_FREE (v\<lparr>dvr_data := None\<rparr>)) ds\<rparr>) s;
                       (r1, p1, adaps) = dvb_register_device (next_sig s) a1 (dd_dvbdev (sys_dev s)) adap
                         dvbdev_template (Some self) DVB_DEVICE_DEMUX adaps;
                       s = upd_dev (\<lambda>d. d\<lparr>dd_dvbdev := p1\<rparr>) (pop_sig s);
                       (r2, p2, adaps) = dvb_register_device (next_sig s) a2 (dd_dvr_dvbdev (sys_dev s)) (adapter_now adaps adap)
                         dvbdev_template (Some self) DVB_DEVICE_DVR adaps;
                       s = upd_dev (\<lambda>d. d\<lparr>dd_dvr_dvbdev := p2, dvr_buffer := dvb_dmxdev_buffer_init\<rparr>) (pop_sig s)
                   in (0, adaps, s))"

definition dvb_dmxdev_release :: "dvb_adapter list \<Rightarrow> 'h dmxsys \<Rightarrow> dvb_adapter list \<times> 'h dmxsys" where
  "dvb_dmxdev_release adaps s =
     (let adaps = dvb_unregister_device (dd_dvbdev (sys_dev s)) adaps;
          adaps = dvb_unregister_device (dd_dvr_dvbdev (sys_dev s)) adaps;
          s = upd_dev (\<lambda>d. d\<lparr>dd_filter := [], dd_dvr := []\<rparr>) s
      in (adaps, s\<lparr>sys_demux := snd (dvbdmx_close (sys_demux s))\<rparr>))"

end
