(* ===== verification/DVB_Dmxdev_Read.thy ===== *)
theory DVB_Dmxdev_Read
  imports DVB_Dmxdev DVB_Reassembly
begin

text \<open>
  From the demultiplexer to the reader of a section filter: what the callback leaves in the buffer of
  a filter, and what the reads of an application get out of it. The reads return sections one by
  one, however the application divides them, and a section that arrives in transport packets can be
  read as it was sent.
\<close>

section \<open>The callback of sections\<close>

lemma callback_write_fits:
  assumes "buffer_ready b" and "length (buffer_contents b) + length b1 + length b2 < buf_size b"
  shows "\<exists>b'. callback_write b b1 b2 = Ret b' \<and> buffer_ready b' \<and> buf_size b' = buf_size b \<and>
    buffer_contents b' = buffer_contents b @ b1 @ b2"
proof -
  have inv: "buffer_inv b" "buf_error b = 0" using assms(1) by (simp_all add: buffer_ready_def)
  have 1: "length (buffer_contents b) + length b1 < buf_size b" using assms(2) by simp
  let ?b = "buffer_store b b1"
  have s1: "buffer_inv ?b" "buffer_contents ?b = buffer_contents b @ b1" "buf_size ?b = buf_size b" "buf_error ?b = 0"
    using buffer_store_correct [OF inv(1) 1] inv(2) by simp_all
  have 2: "length (buffer_contents ?b) + length b2 < buf_size ?b" using assms(2) s1 by simp
  have "callback_write b b1 b2 = Ret (buffer_store ?b b2)"
    using buffer_write_store [OF inv(1) 1] buffer_write_store [OF s1(1) 2] by (simp add: callback_write_def)
  then show ?thesis
    using buffer_store_correct [OF s1(1) 2] s1 by (simp add: buffer_ready_def)
qed

lemma callback_write_overflow:
  assumes "buffer_ready b" and "buf_size b \<le> length (buffer_contents b) + length b1 + length b2" and "b1 \<noteq> [] \<or> b2 \<noteq> []"
  shows "\<exists>b'. callback_write b b1 b2 = Ret b' \<and> buffer_inv b' \<and> buf_size b' = buf_size b \<and>
    buffer_contents b' = [] \<and> buf_error b' = - EOVERFLOW"
proof -
  have inv: "buffer_inv b" "buf_error b = 0" using assms(1) by (simp_all add: buffer_ready_def)
  have drained: "buffer_inv (c\<lparr>buf_pwrite := buf_pread c, buf_error := e\<rparr>)"
    "buffer_contents (c\<lparr>buf_pwrite := buf_pread c, buf_error := e\<rparr>) = []" if "buffer_inv c" for c e
    using that by (auto simp: buffer_inv_def buffer_contents_def ring_contents_def)
  show ?thesis
  proof (cases "length (buffer_contents b) + length b1 < buf_size b")
    case True
    let ?b = "buffer_store b b1"
    have s: "buffer_inv ?b" "buffer_contents ?b = buffer_contents b @ b1" "buf_size ?b = buf_size b"
      using buffer_store_correct [OF inv(1) True] by simp_all
    moreover have "b2 \<noteq> []" using True assms(2) by auto
    ultimately have "dvb_dmxdev_buffer_write ?b b2 = Ret (- 1, ?b)"
      using assms(2) by (intro buffer_write_full) simp_all
    then show ?thesis
      using buffer_write_store [OF inv(1) True] drained [OF s(1)] s(3) by (simp add: callback_write_def)
  next
    case False
    then have "b1 \<noteq> []" using buffer_bound [OF inv(1)] by auto
    then have "dvb_dmxdev_buffer_write b b1 = Ret (- 1, b)"
      using False inv by (intro buffer_write_full) simp_all
    then show ?thesis using drained [OF inv(1)] by (simp add: callback_write_def)
  qed
qed

lemma callback_write_no_data: "buf_data b = None \<Longrightarrow> callback_write b b1 b2 = Ret b"
  by (simp add: callback_write_def dvb_dmxdev_buffer_write_def Let_def)

definition buffers_valid :: "'h dmxdev \<Rightarrow> bool" where
  "buffers_valid d \<longleftrightarrow> (\<forall>f\<in>set (dd_filter d). buf_data (df_buffer f) = None \<or> buffer_inv (df_buffer f))"

lemma callback_write_returns:
  assumes "buf_data b = None \<or> buffer_inv b" and "buf_error b = 0"
  shows "\<exists>b'. callback_write b b1 b2 = Ret b' \<and> (buf_data b' = None \<or> buffer_inv b')"
proof (cases "buf_data b = None")
  case True
  then show ?thesis by (simp add: callback_write_no_data)
next
  case False
  with assms have r: "buffer_ready b" by (simp add: buffer_ready_def)
  consider "length (buffer_contents b) + length b1 + length b2 < buf_size b"
    | "buf_size b \<le> length (buffer_contents b) + length b1 + length b2" "b1 \<noteq> [] \<or> b2 \<noteq> []"
    using buffer_bound [of b] r by (force simp: buffer_ready_def)
  then show ?thesis
    using callback_write_fits [OF r] callback_write_overflow [OF r]
    by cases (fastforce simp: buffer_ready_def)+
qed

lemma section_callback_returns:
  assumes "buffers_valid d" and "i < length (dd_filter d)"
  shows "\<exists>d'. dvb_dmxdev_section_callback b1 b2 (Some i) d = Ret (0, d') \<and> buffers_valid d' \<and>
    length (dd_filter d') = length (dd_filter d) \<and> (\<forall>j. j \<noteq> i \<longrightarrow> dd_filter d' ! j = dd_filter d ! j)"
proof -
  let ?f = "dd_filter d ! i"
  have v: "buf_data (df_buffer ?f) = None \<or> buffer_inv (df_buffer ?f)"
    using assms by (simp add: buffers_valid_def)
  show ?thesis
  proof (cases "buf_error (df_buffer ?f) = 0 \<and> df_state ?f = DMXDEV_STATE_GO")
    case True
    with v obtain b' where b': "callback_write (df_buffer ?f) b1 b2 = Ret b'" "buf_data b' = None \<or> buffer_inv b'"
      using callback_write_returns by blast
    have upd: "buffers_valid (dev_upd_flt i g d)" if "df_buffer (g ?f) = b'" for g
      using assms b'(2) that set_update_subset_insert [of "dd_filter d" i "g ?f"]
      by (auto simp: buffers_valid_def dev_upd_flt_def)
    have "buffers_valid (dev_upd_flt i (\<lambda>f. f\<lparr>df_timer := None, df_buffer := b'\<rparr>) d)"
      "buffers_valid (dev_upd_flt i (\<lambda>f. f\<lparr>df_state := DMXDEV_STATE_DONE\<rparr>)
        (dev_upd_flt i (\<lambda>f. f\<lparr>df_timer := None, df_buffer := b'\<rparr>) d))"
    proof -
      show "buffers_valid (dev_upd_flt i (\<lambda>f. f\<lparr>df_timer := None, df_buffer := b'\<rparr>) d)" by (rule upd) simp
      have "buffers_valid (dev_upd_flt i (\<lambda>f. f\<lparr>df_timer := None, df_buffer := b', df_state := DMXDEV_STATE_DONE\<rparr>) d)"
        by (rule upd) simp
      then show "buffers_valid (dev_upd_flt i (\<lambda>f. f\<lparr>df_state := DMXDEV_STATE_DONE\<rparr>)
          (dev_upd_flt i (\<lambda>f. f\<lparr>df_timer := None, df_buffer := b'\<rparr>) d))"
        using assms(2) by (simp add: dev_upd_flt_def)
    qed
    then show ?thesis
      using True b'(1) by (simp add: dvb_dmxdev_section_callback_def Let_def dev_upd_flt_def)
  next
    case False
    then show ?thesis using assms(1) by (auto simp: dvb_dmxdev_section_callback_def Let_def)
  qed
qed

section \<open>Reading sections one by one\<close>

text \<open>
  A filter whose reader has consumed \<open>p\<close> bytes of section \<open>S\<close>, while the bytes \<open>rest\<close> wait behind it.
\<close>

definition well_framed :: "bytes \<Rightarrow> bool" where
  "well_framed S \<longleftrightarrow> 3 < length S \<and> length S = 3 + nat ((push_bit 8 (uint (S ! 1)) OR uint (S ! 2)) AND 0xfff)"

definition reading_at :: "bytes \<Rightarrow> nat \<Rightarrow> bytes \<Rightarrow> dmxdev_filter \<Rightarrow> bool" where
  "reading_at S p rest f \<longleftrightarrow> p \<le> length S \<and> buffer_ready (df_buffer f) \<and> length (df_secheader f) = 3 \<and>
     buffer_contents (df_buffer f) = drop p S @ rest \<and>
     (if p < 3 then df_todo f = - int p \<and> take p (df_secheader f) = take p S
      else df_todo f = int (length S) - int p)"

lemma read_exact:
  assumes "buffer_ready b" and "buffer_contents b = xs @ ys" and "n \<le> length xs" and "n \<le> cap" and "xs @ ys \<noteq> []"
  shows "dvb_dmxdev_buffer_read b nb cap n ws = Ret (int n, take n xs, buffer_skip n b, ws)"
    "buffer_ready (buffer_skip n b)" "buffer_contents (buffer_skip n b) = drop n xs @ ys"
proof -
  have "dvb_dmxdev_buffer_read b nb cap n ws = Ret (int n, take n (buffer_contents b), buffer_skip n b, ws)"
    using assms by (intro buffer_read_available) auto
  then show "dvb_dmxdev_buffer_read b nb cap n ws = Ret (int n, take n xs, buffer_skip n b, ws)"
    using assms(2,3) by simp
  show "buffer_ready (buffer_skip n b)" "buffer_contents (buffer_skip n b) = drop n xs @ ys"
    using assms by (simp_all add: buffer_ready_skip buffer_skip_correct buffer_ready_def)
qed

lemma read_rest_step:
  assumes "reading_at S p rest f" and "3 \<le> p" and "p < length S" and "n = min count (length S - p)"
    and "length out + n \<le> cap"
  shows "\<exists>f'. read_sec_rest f nb cap done out count ws = Ret (int n + done, out @ take n (drop p S), f') \<and>
    reading_at S (p + n) rest f'"
proof -
  have r: "buffer_ready (df_buffer f)" "buffer_contents (df_buffer f) = drop p S @ rest" "df_todo f = int (length S) - int p"
    "length (df_secheader f) = 3"
    using assms(1,2) by (simp_all add: reading_at_def)
  have c: "(if int count > df_todo f then nat (df_todo f) else count) = n" using r(3) assms(3,4) by auto
  have n: "n \<le> length (drop p S)" "n \<le> cap - length out" "drop p S @ rest \<noteq> []" using assms(3-5) by auto
  note step = read_exact [OF r(1,2) n]
  have "read_sec_rest f nb cap done out count ws = Ret (int n + done, out @ take n (drop p S),
      f\<lparr>df_buffer := buffer_skip n (df_buffer f), df_todo := df_todo f - int n\<rparr>)"
    unfolding read_sec_rest_def Let_def c step(1) by simp
  moreover have "reading_at S (p + n) rest (f\<lparr>df_buffer := buffer_skip n (df_buffer f), df_todo := df_todo f - int n\<rparr>)"
    using step(2,3) r assms(2-4) by (simp add: reading_at_def add.commute)
  ultimately show ?thesis by blast
qed

lemma read_header_step:
  assumes "reading_at S p rest f" and "p < 3" and "well_framed S" and "count \<noteq> 0" and "n = min count (length S - p)" and "n \<le> cap"
  shows "\<exists>f'. dvb_dmxdev_read_sec f nb cap count ws = Ret (int n, take n (drop p S), f') \<and> reading_at S (p + n) rest f'"
proof -
  define h where "h = min count (3 - p)"
  have S: "3 < length S" "length S = 3 + nat ((push_bit 8 (uint (S ! 1)) OR uint (S ! 2)) AND 0xfff)"
    using assms(3) unfolding well_framed_def by blast+
  have r: "buffer_ready (df_buffer f)" "buffer_contents (df_buffer f) = drop p S @ rest" "df_todo f = - int p"
    "take p (df_secheader f) = take p S" "length (df_secheader f) = 3"
    using assms(1,2) by (simp_all add: reading_at_def)
  have h: "h \<le> 3 - p" "h \<le> count" "h \<le> n" "p + h \<le> 3" "0 < h" using S(1) assms(2,4,5) by (auto simp: h_def)
  have hc: "(if nat (3 + df_todo f) > count then count else nat (3 + df_todo f)) = h"
    using r(3) assms(2) by (auto simp: h_def)
  have hn: "h \<le> length (drop p S)" "h \<le> cap" "drop p S @ rest \<noteq> []" using h S(1) assms(2,6) by auto
  note step = read_exact [OF r(1,2) hn]
  let ?hd = "blit (df_secheader f) p (take h (drop p S))"
  let ?f = "f\<lparr>df_buffer := buffer_skip h (df_buffer f), df_secheader := ?hd, df_todo := - int p - int h\<rparr>"
  have hd: "memcpy (df_secheader f) (nat (- df_todo f)) (take h (drop p S)) 0 (nat (int h)) = Ret ?hd"
    using h(4) hn(1) r(3,5) by (simp add: memcpy_def)
  have hd_take: "take (p + h) ?hd = take (p + h) S" "length ?hd = 3"
  proof -
    have len: "length (take h (drop p S)) = h" using hn(1) by simp
    then show "length ?hd = 3" using h(4) r(5) by simp
    have "take (p + length (take h (drop p S))) ?hd = take p (df_secheader f) @ take h (drop p S)"
      using h(4) r(5) len by (intro take_blit_end) simp
    then show "take (p + h) ?hd = take (p + h) S" unfolding len r(4) by (simp add: take_add)
  qed
  have neg: "df_todo f \<le> 0" using r(3) by simp
  show ?thesis
  proof (cases "p + h < 3")
    case True
    then have "n = h" using S(1) assms(5) by (auto simp: h_def)
    then have "dvb_dmxdev_read_sec f nb cap count ws = Ret (int n, take n (drop p S), ?f)"
      unfolding dvb_dmxdev_read_sec_def Let_def hc if_P [OF neg] step(1) using hd True r(3) by simp
    moreover have "reading_at S (p + n) rest ?f"
      using True \<open>n = h\<close> step(2,3) hd_take S(1) by (simp add: reading_at_def add.commute)
    ultimately show ?thesis by blast
  next
    case False
    then have ph: "p + h = 3" "int p + int h = 3" using h(4) by simp_all
    have bytes: "?hd ! k = S ! k" if "k < 3" for k
      using hd_take(1) that unfolding ph by (metis nth_take)
    define g where "g = ?f\<lparr>df_todo := (push_bit 8 (uint (?hd ! 1)) OR uint (?hd ! 2)) AND 0xfff\<rparr>"
    have todo: "(push_bit 8 (uint (?hd ! 1)) OR uint (?hd ! 2)) AND 0xfff = int (length S) - 3"
      using S(2) bytes [of 1] bytes [of 2] by simp
    have g: "reading_at S (p + h) rest g"
      using step(2,3) hd_take(2) ph S(1) unfolding g_def todo reading_at_def by (simp add: add.commute)
    have red: "dvb_dmxdev_read_sec f nb cap count ws =
        (if count - h = 0 then Ret (int h, take h (drop p S), g) else read_sec_rest g nb cap (int h) (take h (drop p S)) (count - h) ws)"
      unfolding dvb_dmxdev_read_sec_def Let_def hc if_P [OF neg] step(1) g_def
      using hd ph r(3) by simp
    show ?thesis
    proof (cases "count - h = 0")
      case True
      then have "n = h" using h assms(5) by simp
      then show ?thesis using red True g by simp
    next
      case more: False
      let ?m = "min (count - h) (length S - (p + h))"
      have n: "n = h + ?m" using assms(5) ph h S(1) by auto
      have "3 \<le> p + h" "p + h < length S" "length (take h (drop p S)) + ?m \<le> cap"
        using ph S(1) n assms(6) hn(1) by simp_all
      from read_rest_step [OF g this(1,2) refl this(3), of nb "int h" ws]
      obtain f' where f': "read_sec_rest g nb cap (int h) (take h (drop p S)) (count - h) ws =
          Ret (int ?m + int h, take h (drop p S) @ take ?m (drop (p + h) S), f')" "reading_at S (p + h + ?m) rest f'"
        by blast
      moreover have "take h (drop p S) @ take ?m (drop (p + h) S) = take n (drop p S)"
        unfolding n by (simp add: take_add add.commute)
      ultimately show ?thesis using red more n by (auto simp: ac_simps)
    qed
  qed
qed

lemma read_sec_step:
  assumes "reading_at S p rest f" and "well_framed S" and "count \<noteq> 0" and "p < length S"
    and "n = min count (length S - p)" and "n \<le> cap"
  shows "\<exists>f'. dvb_dmxdev_read_sec f nb cap count ws = Ret (int n, take n (drop p S), f') \<and> reading_at S (p + n) rest f'"
proof (cases "p < 3")
  case True
  then show ?thesis using read_header_step assms by blast
next
  case False
  then have "0 < df_todo f" using assms(1,4) by (simp add: reading_at_def)
  then have "dvb_dmxdev_read_sec f nb cap count ws = read_sec_rest f nb cap 0 [] count ws"
    by (simp add: dvb_dmxdev_read_sec_def)
  then show ?thesis using read_rest_step [of S p rest f n count "[]" cap nb 0 ws] assms False by simp
qed

lemma reading_next:
  assumes "reading_at S (length S) (T @ rest) f" and "well_framed S"
  shows "reading_at T 0 rest f"
  using assms by (simp add: reading_at_def well_framed_def)

section \<open>From the packets to the reader\<close>

abbreviation sec_cb :: "'h dmxdev feed_cb" where
  "sec_cb \<equiv> total_cb dvb_dmxdev_section_callback"

lemma sec_cb_frame:
  assumes "buffers_valid d" and "j < length (dd_filter d)" and "j \<noteq> i"
  shows "\<exists>d'. sec_cb S [] (Some j) d = (0, d') \<and> buffers_valid d' \<and> length (dd_filter d') = length (dd_filter d) \<and>
    dd_filter d' ! i = dd_filter d ! i"
  using section_callback_returns [OF assms(1,2), of S "[]"] assms(3) by (auto simp: total_cb_def)

lemma offer_frame:
  assumes "buffers_valid d" and "\<forall>g\<in>set gs. \<exists>j<length (dd_filter d). filter_priv g = Some j \<and> j \<noteq> i"
  shows "\<exists>d'. offer sec_cb gs S d = (0, d') \<and> buffers_valid d' \<and> length (dd_filter d') = length (dd_filter d) \<and>
    dd_filter d' ! i = dd_filter d ! i"
  using assms
proof (induction gs arbitrary: d)
  case (Cons g gs)
  show ?case
  proof (cases "section_matches g S")
    case True
    obtain j where j: "j < length (dd_filter d)" "filter_priv g = Some j" "j \<noteq> i" using Cons.prems(2) by auto
    obtain d1 where d1: "sec_cb S [] (Some j) d = (0, d1)" "buffers_valid d1" "length (dd_filter d1) = length (dd_filter d)"
      "dd_filter d1 ! i = dd_filter d ! i"
      using sec_cb_frame [OF Cons.prems(1) j(1,3)] by blast
    then show ?thesis using Cons.IH [of d1] Cons.prems(2) True j by simp
  next
    case False
    then show ?thesis using Cons by simp
  qed
qed simp

lemma offer_append:
  "fst (offer cb gs S u) = 0 \<Longrightarrow> offer cb (gs @ hs) S u = offer cb hs S (snd (offer cb gs S u))"
  by (induction gs arbitrary: u) (auto simp: Let_def case_prod_unfold split: if_splits)

definition idle_sec_filter :: "dmxdev_filter \<Rightarrow> bool" where
  "idle_sec_filter f \<longleftrightarrow> df_type f = DMXDEV_TYPE_SEC \<and> df_state f = DMXDEV_STATE_GO \<and> df_todo f = 0 \<and>
     length (df_secheader f) = 3 \<and> buffer_ready (df_buffer f) \<and> buffer_contents (df_buffer f) = [] \<and> \<not> df_mutex f"

lemma sec_cb_delivers:
  assumes "buffers_valid d" and "i < length (dd_filter d)" and "idle_sec_filter (dd_filter d ! i)"
    and "length S < buf_size (df_buffer (dd_filter d ! i))"
  shows "\<exists>d'. sec_cb S [] (Some i) d = (0, d') \<and> buffers_valid d' \<and> length (dd_filter d') = length (dd_filter d) \<and>
    reading_at S 0 [] (dd_filter d' ! i) \<and> df_type (dd_filter d' ! i) = DMXDEV_TYPE_SEC \<and> \<not> df_mutex (dd_filter d' ! i)"
proof -
  let ?f = "dd_filter d ! i"
  have f: "buffer_ready (df_buffer ?f)" "buffer_contents (df_buffer ?f) = []" "df_state ?f = DMXDEV_STATE_GO"
    "df_todo ?f = 0" "length (df_secheader ?f) = 3" "df_type ?f = DMXDEV_TYPE_SEC" "\<not> df_mutex ?f"
    using assms(3) by (simp_all add: idle_sec_filter_def)
  obtain b where b: "callback_write (df_buffer ?f) S [] = Ret b" "buffer_ready b" "buffer_contents b = S"
    using callback_write_fits [OF f(1), of S "[]"] assms(4) f(2) by auto
  have "buf_error (df_buffer ?f) = 0" using f(1) by (simp add: buffer_ready_def)
  moreover obtain d' where "dvb_dmxdev_section_callback S [] (Some i) d = Ret (0, d')" "buffers_valid d'"
    "length (dd_filter d') = length (dd_filter d)"
    using section_callback_returns [OF assms(1,2)] by blast
  ultimately show ?thesis
    using b f assms(2)
    by (auto simp: total_cb_def dvb_dmxdev_section_callback_def Let_def dev_upd_flt_def reading_at_def split: if_splits)
qed

lemma offer_delivers:
  assumes "buffers_valid d" and "i < length (dd_filter d)" and "idle_sec_filter (dd_filter d ! i)"
    and "length S < buf_size (df_buffer (dd_filter d ! i))"
    and "gs = g1 @ g # g2" and "filter_priv g = Some i" and "section_matches g S"
    and "\<forall>h\<in>set g1 \<union> set g2. \<exists>j<length (dd_filter d). filter_priv h = Some j \<and> j \<noteq> i"
  shows "\<exists>d'. offer sec_cb gs S d = (0, d') \<and> i < length (dd_filter d') \<and> reading_at S 0 [] (dd_filter d' ! i) \<and>
    df_type (dd_filter d' ! i) = DMXDEV_TYPE_SEC \<and> \<not> df_mutex (dd_filter d' ! i)"
proof -
  obtain d1 where d1: "offer sec_cb g1 S d = (0, d1)" "buffers_valid d1" "length (dd_filter d1) = length (dd_filter d)"
    "dd_filter d1 ! i = dd_filter d ! i"
    using offer_frame [OF assms(1), of g1 i S] assms(8) by auto
  obtain d2 where d2: "sec_cb S [] (Some i) d1 = (0, d2)" "buffers_valid d2" "length (dd_filter d2) = length (dd_filter d)"
    "reading_at S 0 [] (dd_filter d2 ! i)" "df_type (dd_filter d2 ! i) = DMXDEV_TYPE_SEC" "\<not> df_mutex (dd_filter d2 ! i)"
    using sec_cb_delivers [OF d1(2), of i S] assms(2-4) d1(3,4) by auto
  obtain d3 where d3: "offer sec_cb g2 S d2 = (0, d3)" "length (dd_filter d3) = length (dd_filter d2)"
    "dd_filter d3 ! i = dd_filter d2 ! i"
    using offer_frame [OF d2(2), of g2 i S] assms(8) d2(3) by auto
  have "offer sec_cb gs S d = (0, d3)"
    unfolding assms(5) using d1(1) d2(1) d3(1) assms(6,7) by (simp add: offer_append)
  then show ?thesis using d2 d3 assms(2) by auto
qed

lemma demux_read_sec:
  assumes "sys_dev s = d" "sys_sigs s = []" "i < length (dd_filter d)" "df_type (dd_filter d ! i) = DMXDEV_TYPE_SEC"
    "\<not> df_mutex (dd_filter d ! i)" "reading_at S 0 rest (dd_filter d ! i)" "well_framed S"
    "length S \<le> count" "length S \<le> cap"
  shows "\<exists>s'. dvb_demux_read i nb cap count ws s = Ret ((int (length S), S), s') \<and>
    reading_at S (length S) rest (dd_filter (sys_dev s') ! i)"
proof -
  let ?f = "(dd_filter d ! i)\<lparr>df_mutex := True\<rparr>"
  have "reading_at S 0 rest ?f" using assms(6) by (simp add: reading_at_def)
  moreover have "count \<noteq> 0" "0 < length S" using assms(7,8) by (auto simp: well_framed_def)
  ultimately obtain f' where f': "dvb_dmxdev_read_sec ?f nb cap count ws = Ret (int (length S), S, f')"
    "reading_at S (length S) rest f'"
    using read_sec_step [of S 0 rest ?f count "length S" cap nb ws] assms(7-9) by auto
  show ?thesis
    using assms f' by (simp add: dvb_demux_read_def filter_locked_def next_sig_def pop_sig_def flt_def upd_flt_def
      upd_dev_def dev_upd_flt_def Let_def reading_at_def)
qed

lemma packets_reach_reader:
  assumes "packetised pkts S" "length S \<le> 4096" "length (secbuf feed) = 4096" "secbufp feed = 0"
    "feed_type feed = DMX_TYPE_SEC" "running (filters demux) is feed" "\<forall>k\<in>set is. covers (filters demux ! k) S"
    "section_valid (check_crc feed) S" "cb_sec feed = sec_cb" "well_framed S"
    and "buffers_valid d" "i < length (dd_filter d)" "idle_sec_filter (dd_filter d ! i)"
    "length S < buf_size (df_buffer (dd_filter d ! i))"
    and "map ((!) (filters demux)) is = g1 @ g # g2" "filter_priv g = Some i" "section_matches g S"
    "\<forall>h\<in>set g1 \<union> set g2. \<exists>j<length (dd_filter d). filter_priv h = Some j \<and> j \<noteq> i"
    and "length S \<le> count" "length S \<le> cap"
  shows "\<exists>feed' d'. feed_packets demux k feed pkts d = Ret (feed', d') \<and>
    (\<forall>s. sys_dev s = d' \<and> sys_sigs s = [] \<longrightarrow>
      (\<exists>s'. dvb_demux_read i nb cap count ws s = Ret ((int (length S), S), s')))"
proof -
  obtain feed' d' where f: "feed_packets demux k feed pkts d = Ret (feed', d')"
    "section_done (filters demux) is S feed d feed' d'"
    using packetised_done [OF assms(1-7)] by blast
  then have d': "d' = snd (offer sec_cb (g1 @ g # g2) S d)"
    using assms(8,9,15) by (simp add: section_done_def)
  have "i < length (dd_filter d') \<and> reading_at S 0 [] (dd_filter d' ! i) \<and> df_type (dd_filter d' ! i) = DMXDEV_TYPE_SEC \<and>
      \<not> df_mutex (dd_filter d' ! i)"
    using offer_delivers [OF assms(11-14) refl assms(16-18)] d' by auto
  then have "\<exists>s'. dvb_demux_read i nb cap count ws s = Ret ((int (length S), S), s')" if "sys_dev s = d'" "sys_sigs s = []" for s
    using demux_read_sec [OF that] assms(10,19,20) by blast
  with f(1) show ?thesis by blast
qed

section \<open>Properties\<close>

text \<open>
  C21. Reads of a section filter respect the boundaries of sections, whatever sizes the application
  asks for: when the reader stands at byte \<open>p\<close> of a section, a read delivers the next bytes of this
  section, at most up to its end, and nothing of the following one; after the last byte the reader
  stands at the first byte of the next section.
\<close>

theorem section_read_framing:
  assumes "reading_at S p (T @ rest) f" and "well_framed S" and "p < length S" and "0 < count" and "count \<le> cap"
  shows "\<exists>f' n. n = min count (length S - p) \<and>
    dvb_dmxdev_read_sec f nb cap count ws = Ret (int n, take n (drop p S), f') \<and>
    (if p + n < length S then reading_at S (p + n) (T @ rest) f' else reading_at T 0 rest f')"
proof -
  let ?n = "min count (length S - p)"
  have "count \<noteq> 0" "?n \<le> cap" using assms(4,5) by simp_all
  then obtain f' where f': "dvb_dmxdev_read_sec f nb cap count ws = Ret (int ?n, take ?n (drop p S), f')"
    "reading_at S (p + ?n) (T @ rest) f'"
    using read_sec_step [OF assms(1,2) _ assms(3) refl, of count cap nb ws] by blast
  have "reading_at T 0 rest f'" if "\<not> p + ?n < length S"
  proof -
    have "p + ?n = length S" using that assms(3) by simp
    then show ?thesis using f'(2) reading_next [OF _ assms(2)] by simp
  qed
  with f' show ?thesis by (metis (mono_tags, lifting))
qed

definition demo_dmxdev_filter :: "bytes \<Rightarrow> dmxdev_filter" where
  "demo_dmxdev_filter cells = \<lparr>df_sec_filter = Some 0, df_feed = Some 0,
     df_sec = \<lparr>sct_pid = 0x11, sct_filter = \<lparr>flt_filter = 2 # replicate 15 0, flt_mask = 0xff # replicate 15 0,
       flt_mode = replicate 16 0\<rparr>, sct_timeout = 0, sct_flags = 0\<rparr>,
     df_pes = \<lparr>pes_pid = 0, pes_input = DMX_IN_FRONTEND, pes_output = DMX_OUT_TAP, pes_pes_type = 20, pes_flags = 0\<rparr>,
     df_type = DMXDEV_TYPE_SEC, df_state = DMXDEV_STATE_GO,
     df_buffer = \<lparr>buf_data = Some (cells @ replicate 248 0), buf_size = length cells + 248, buf_pread = 0,
       buf_pwrite = length cells, buf_error = 0\<rparr>,
     df_mutex = False, df_timer = None, df_todo = 0, df_secheader = [0, 0, 0], df_pid = 0x11\<rparr>"

lemma demo_filter_ready:
  "buffer_ready (df_buffer (demo_dmxdev_filter cells))" "buffer_contents (df_buffer (demo_dmxdev_filter cells)) = cells"
  by (simp_all add: demo_dmxdev_filter_def buffer_ready_def buffer_inv_def buffer_contents_def ring_contents_def)

theorem section_read_framing_witness:
  "\<exists>f'. dvb_dmxdev_read_sec (demo_dmxdev_filter ([2, 0, 2, 7, 8] @ [2, 0, 1, 9])) True 100 100 [] =
      Ret (5, [2, 0, 2, 7, 8], f') \<and> reading_at [2, 0, 1, 9] 0 [] f'"
proof -
  have "reading_at [2, 0, 2, 7, 8] 0 ([2, 0, 1, 9] @ []) (demo_dmxdev_filter ([2, 0, 2, 7, 8] @ [2, 0, 1, 9]))"
    unfolding reading_at_def using demo_filter_ready [of "[2, 0, 2, 7, 8] @ [2, 0, 1, 9]"]
    by (simp add: demo_dmxdev_filter_def)
  moreover have "well_framed [2, 0, 2, 7, 8]" by (simp add: well_framed_def)
  ultimately show ?thesis using section_read_framing [of "[2, 0, 2, 7, 8]" 0 "[2, 0, 1, 9]" "[]" _ 100 100 True "[]"] by fastforce
qed

text \<open>
  From the air to the application: when the transport packets of a section pass a running
  section feed, a read of any device filter that runs, is idle and whose section filter matches
  returns exactly that section.
\<close>

theorem packets_to_reader:
  assumes "packetised pkts S" "length S \<le> 4096" "length (secbuf feed) = 4096" "secbufp feed = 0"
    "feed_type feed = DMX_TYPE_SEC" "running (filters demux) is feed" "\<forall>k\<in>set is. covers (filters demux ! k) S"
    "section_valid (check_crc feed) S" "cb_sec feed = sec_cb" "well_framed S"
    and "buffers_valid d" "i < length (dd_filter d)" "idle_sec_filter (dd_filter d ! i)"
    "length S < buf_size (df_buffer (dd_filter d ! i))"
    and "map ((!) (filters demux)) is = g1 @ g # g2" "filter_priv g = Some i" "section_matches g S"
    "\<forall>h\<in>set g1 \<union> set g2. \<exists>j<length (dd_filter d). filter_priv h = Some j \<and> j \<noteq> i"
    and "length S \<le> count" "length S \<le> cap"
  shows "\<exists>feed' d'. feed_packets demux k feed pkts d = Ret (feed', d') \<and>
    (\<forall>s. sys_dev s = d' \<and> sys_sigs s = [] \<longrightarrow>
      (\<exists>s'. dvb_demux_read i nb cap count ws s = Ret ((int (length S), S), s')))"
  using assms by (rule packets_reach_reader)

definition demo_dev :: "unit dmxdev" where
  "demo_dev = \<lparr>dd_dvbdev = None, dd_dvr_dvbdev = None, dd_filter = [demo_dmxdev_filter []], dd_dvr = [], dd_filternum = 1,
     dd_duplex = False, dvr_orig_fe = None, dvr_buffer = dvb_dmxdev_buffer_init, dd_mutex = False, dd_hw = ()\<rparr>"

definition dev_feed :: "unit dmxdev dvb_demux_feed" where
  "dev_feed =
     \<lparr>is_filtering = True, feed_priv = None, check_crc = True, crc_val = 0, secbuf = replicate 4096 0,
      secbufp = 0, seclen = 0, cb_ts = sec_cb, cb_sec = sec_cb, feed_type = DMX_TYPE_SEC,
      feed_state = DMX_STATE_GO, feed_pid = 0, feed_buffer_size = 0, feed_descramble = False,
      feed_timeout = 0, feed_filter = Some 0, cb_length = 0, ts_type = 0, feed_pes_type = 0,
      feed_cc = 0, peslen = 0\<rparr>"

definition dev_demux :: "unit dmxdev dvb_demux" where
  "dev_demux =
     \<lparr>filters = [demo_filter 0xff 0 None, demo_filter 0xff 0 None], feeds = [dev_feed, dev_feed], dmx_users = 0,
      demux_users = 0, frontend_list = [], demux_frontend = None, pesfilter = replicate 20 None,
      demux_pids = replicate 20 0xffff, playing = False, recording = False, feed_list = [0],
      tsbuf = replicate 204 0, tsbufp = 0, demux_mutex = False, start_feed = Some (\<lambda>i f u. (0, u)),
      stop_feed = Some (\<lambda>i f u. (0, u)), write_to_decoder = None\<rparr>"

theorem packets_to_reader_witness:
  "\<exists>feed' d'. feed_packets dev_demux 0 dev_feed
      [ts_packet True 0 (0 # [2, 0, 197] @ replicate 180 7),
       ts_packet False 1 (replicate 17 7 @ replicate 167 0xff)] demo_dev = Ret (feed', d') \<and>
    (\<exists>s'. dvb_demux_read 0 True 4096 4096 [] \<lparr>sys_dev = d', sys_demux = dev_demux, sys_sigs = []\<rparr> =
      Ret ((200, [2, 0, 197] @ replicate 197 7), s'))"
proof -
  let ?pkts = "[ts_packet True 0 (0 # [2, 0, 197] @ replicate 180 7),
       ts_packet False 1 (replicate 17 7 @ replicate 167 0xff)]"
  let ?S = "[2, 0, 197] @ replicate 197 7 :: bytes"
  have pk: "packetised ?pkts ?S"
    by (simp add: ts_packet_def pkt_payload_def payload_def pkt_start_def pkt_cc_def section_length_def)
  have feed: "length (secbuf dev_feed) = 4096" "secbufp dev_feed = 0" "feed_type dev_feed = DMX_TYPE_SEC"
    "running (filters dev_demux) [0] dev_feed" "cb_sec dev_feed = sec_cb"
    by (simp_all add: dev_feed_def dev_demux_def running_def demo_filter_def)
  have cov: "\<forall>k\<in>set [0]. covers (filters dev_demux ! k) ?S" by (intro ballI covers_long) simp
  have valid: "section_valid (check_crc dev_feed) ?S" by (simp add: section_valid_def dev_feed_def)
  have dev: "buffers_valid demo_dev" "0 < length (dd_filter demo_dev)" "idle_sec_filter (dd_filter demo_dev ! 0)"
    "length ?S < buf_size (df_buffer (dd_filter demo_dev ! 0))"
    using demo_filter_ready [of "[]"]
    by (simp_all add: demo_dev_def buffers_valid_def idle_sec_filter_def buffer_ready_def) (simp_all add: demo_dmxdev_filter_def)
  have flt: "map ((!) (filters dev_demux)) [0] = [] @ demo_filter 0xff 0 None # []" "filter_priv (demo_filter 0xff 0 None) = Some 0"
    by (simp_all add: dev_demux_def) (simp add: demo_filter_def)
  have m: "section_matches (demo_filter 0xff 0 None) ?S" by (simp add: demo_section_matches)
  have wf: "well_framed ?S" "length ?S \<le> 4096" by (simp_all add: well_framed_def)
  obtain feed' d' where r: "feed_packets dev_demux 0 dev_feed ?pkts demo_dev = Ret (feed', d')"
    and rd: "\<forall>s. sys_dev s = d' \<and> sys_sigs s = [] \<longrightarrow>
      (\<exists>s'. dvb_demux_read 0 True 4096 4096 [] s = Ret ((int (length ?S), ?S), s'))"
    using packets_to_reader [OF pk wf(2) feed(1-4) cov valid feed(5) wf(1) dev flt m _ wf(2,2), of 0 True "[]"] by auto
  then show ?thesis using rd [rule_format, of "\<lparr>sys_dev = d', sys_demux = dev_demux, sys_sigs = []\<rparr>"] by auto
qed

text \<open>
  C34. A section that does not fit is reported, not cut: the callback then empties the buffer, and
  the next read returns the overflow error once, after which the filter works again.
\<close>

theorem overflow_reported_once:
  assumes "buffer_ready b" and "buf_size b \<le> length (buffer_contents b) + length S" and "S \<noteq> []"
  shows "\<exists>b' b''. callback_write b S [] = Ret b' \<and>
    dvb_dmxdev_buffer_read b' nb cap count ws = Ret (- EOVERFLOW, [], b'', ws) \<and>
    buffer_ready b'' \<and> buffer_contents b'' = [] \<and> buf_size b'' = buf_size b"
proof -
  obtain b' where b': "callback_write b S [] = Ret b'" "buffer_inv b'" "buf_size b' = buf_size b"
    "buffer_contents b' = []" "buf_error b' = - EOVERFLOW"
    using callback_write_overflow [OF assms(1), of S "[]"] assms(2,3) by auto
  let ?b = "b'\<lparr>buf_pwrite := buf_pread b', buf_error := 0\<rparr>"
  have "buf_data b' \<noteq> None" using b'(2) by (auto simp: buffer_inv_def)
  then have "dvb_dmxdev_buffer_read b' nb cap count ws = Ret (- EOVERFLOW, [], ?b, ws)"
    using b'(5) by (simp add: dvb_dmxdev_buffer_read_def)
  moreover have "buffer_ready ?b" "buffer_contents ?b = []"
    using b'(2) by (auto simp: buffer_ready_def buffer_inv_def buffer_contents_def ring_contents_def)
  ultimately show ?thesis using b'(1,3) by auto
qed

theorem overflow_reported_once_witness:
  "\<exists>b' b''. callback_write (df_buffer (demo_dmxdev_filter [1, 2])) (replicate 300 7) [] = Ret b' \<and>
    dvb_dmxdev_buffer_read b' True 10 10 [] = Ret (- EOVERFLOW, [], b'', []) \<and> buffer_contents b'' = []"
proof -
  have "buf_size (df_buffer (demo_dmxdev_filter [1, 2])) = 250" by (simp add: demo_dmxdev_filter_def)
  then show ?thesis
    using overflow_reported_once [of "df_buffer (demo_dmxdev_filter [1, 2])" "replicate 300 7" True 10 10 "[]"]
      demo_filter_ready [of "[1, 2]"] by auto
qed

text \<open>
  A section without a body is lost: a non-blocking read of a filter whose buffer holds just the
  three bytes of such a section consumes them and then reports that there is nothing to read.
\<close>

theorem empty_section_lost:
  assumes "buffer_ready (df_buffer f)" and "buffer_contents (df_buffer f) = [a, b, c]"
    and "(push_bit 8 (uint b) OR uint c) AND 0xfff = 0"
    and "df_todo f = 0" and "length (df_secheader f) = 3" and "3 < count" and "3 \<le> cap"
  shows "\<exists>f' out. dvb_dmxdev_read_sec f True cap count ws = Ret (- EWOULDBLOCK, out, f') \<and>
    buffer_contents (df_buffer f') = []"
proof -
  have "dvb_dmxdev_buffer_read (df_buffer f) True cap 3 ws = Ret (3, [a, b, c], buffer_skip 3 (df_buffer f), ws)"
    and b: "buffer_ready (buffer_skip 3 (df_buffer f))" "buffer_contents (buffer_skip 3 (df_buffer f)) = []"
    using read_exact [OF assms(1), of "[a, b, c]" "[]" 3 cap] assms(2,7) by simp_all
  moreover have "dvb_dmxdev_buffer_read (buffer_skip 3 (df_buffer f)) True n 0 ws = Ret (- EWOULDBLOCK, [], buffer_skip 3 (df_buffer f), ws)" for n
  proof -
    let ?b = "buffer_skip 3 (df_buffer f)"
    have "buf_data ?b \<noteq> None" "buf_error ?b = 0" "buf_pwrite ?b = buf_pread ?b"
      using b buffer_empty_iff [of ?b] by (auto simp: buffer_ready_def buffer_inv_def)
    then show ?thesis by (simp add: dvb_dmxdev_buffer_read_def)
  qed
  moreover have "blit (df_secheader f) 0 [a, b, c] = [a, b, c]" using assms(5) by (simp add: blit_def)
  ultimately show ?thesis
    using assms(3-6) by (simp add: dvb_dmxdev_read_sec_def read_sec_rest_def memcpy_def Let_def)
qed

theorem empty_section_lost_witness:
  "\<exists>f' out. dvb_dmxdev_read_sec (demo_dmxdev_filter [2, 0, 0]) True 100 100 [] = Ret (- EWOULDBLOCK, out, f') \<and>
    buffer_contents (df_buffer f') = []"
  using demo_filter_ready [of "[2, 0, 0]"]
  by (intro empty_section_lost [of _ 2 0 0]) (simp_all add: demo_dmxdev_filter_def)

end
