(* ===== verification/DVB_Dmxdev_Control.thy ===== *)
theory DVB_Dmxdev_Control
  imports DVB_Dmxdev_Read DVB_Feeds_Inv
begin

text \<open>
  Setting up, starting and stopping the filters of a demultiplexer device: what the parameters of an
  application mean for the sections it gets, what a successful start establishes, and the paths on
  which the device keeps resources or revives a filter that was done.
\<close>

section \<open>From the parameters to the section filter\<close>

text \<open>Byte \<open>k\<close> of the parameters is compared with byte \<open>filter_pos k\<close> of a section: the two length bytes are skipped.\<close>

definition filter_pos :: "nat \<Rightarrow> nat" where
  "filter_pos k = (if k = 0 then 0 else k + 2)"

definition user_match :: "dmx_filter_t \<Rightarrow> bytes \<Rightarrow> bool" where
  "user_match p S \<longleftrightarrow>
     (\<forall>k<DMX_FILTER_SIZE. \<forall>n<8. bit (flt_mask p ! k) n \<and> \<not> bit (flt_mode p ! k) n \<longrightarrow>
       bit (flt_filter p ! k) n = bit (S ! filter_pos k) n) \<and>
     ((\<exists>k<DMX_FILTER_SIZE. \<exists>n<8. bit (flt_mask p ! k) n \<and> bit (flt_mode p ! k) n) \<longrightarrow>
      (\<exists>k<DMX_FILTER_SIZE. \<exists>n<8. bit (flt_mask p ! k) n \<and> bit (flt_mode p ! k) n \<and>
        bit (flt_filter p ! k) n \<noteq> bit (S ! filter_pos k) n))"

definition filter_sizes :: "dmx_filter_t \<Rightarrow> dvb_demux_filter \<Rightarrow> bool" where
  "filter_sizes p g \<longleftrightarrow> length (flt_filter p) = 16 \<and> length (flt_mask p) = 16 \<and> length (flt_mode p) = 16 \<and>
     length (filter_value g) = 18 \<and> length (filter_mask g) = 18 \<and> length (filter_mode g) = 18"

lemma filter_pos_cases:
  assumes "j < 18"
  shows "j = 1 \<or> j = 2 \<or> (\<exists>k<16. j = filter_pos k)"
proof (cases "j \<le> 2")
  case True
  then consider "j = 0" | "j = 1" | "j = 2" by linarith
  then show ?thesis by cases (auto simp: filter_pos_def)
next
  case False
  then have "j = filter_pos (j - 2)" "j - 2 < 16" using assms by (auto simp: filter_pos_def)
  then show ?thesis by blast
qed

lemma filter_pos_less: "k < 16 \<Longrightarrow> filter_pos k < 18"
  by (simp add: filter_pos_def)

lemma copied_byte:
  assumes "length v = 18" "length xs = 16" "k < 16"
  shows "(blit v 3 (take 15 (drop 1 xs)))[0 := xs ! 0] ! filter_pos k = xs ! k"
  using assms by (auto simp: filter_pos_def nth_blit nth_list_update)

lemma all_pos:
  assumes "\<not> P 1" "\<not> P 2"
  shows "(\<exists>j<18. P j) \<longleftrightarrow> (\<exists>k<16. P (filter_pos k))"
  using assms filter_pos_cases filter_pos_less by metis

lemma bit_invert: "n < 8 \<Longrightarrow> bit (m XOR 0xff) n \<longleftrightarrow> \<not> bit m n" for m :: u8
proof -
  assume n: "n < 8"
  have "(0xff :: u8) = NOT 0" by simp
  then show ?thesis using n by (simp only: bit_xor_iff bit_not_iff) (simp add: possible_bit_word)
qed

lemma fill_secfilter_match:
  assumes "filter_sizes p g"
  shows "\<exists>g'. fill_secfilter i (invert_mode p) g = Ret g' \<and> filter_priv g' = Some i \<and>
    filter_next g' = filter_next g \<and> filter_feed g' = filter_feed g \<and> filter_state g' = filter_state g \<and>
    (\<forall>S. section_matches (prepare_filter g') S \<longleftrightarrow> user_match p S)"
proof -
  have len: "length (flt_filter p) = 16" "length (flt_mask p) = 16" "length (flt_mode p) = 16"
    "length (filter_value g) = 18" "length (filter_mask g) = 18" "length (filter_mode g) = 18"
    using assms by (simp_all add: filter_sizes_def)
  let ?mode = "flt_mode (invert_mode p)"
  have mode: "length ?mode = 16" "\<And>k. k < 16 \<Longrightarrow> ?mode ! k = flt_mode p ! k XOR 0xff"
    using len by (simp_all add: invert_mode_def)
  let ?g = "g\<lparr>filter_priv := Some i, filter_value := (blit (filter_value g) 3 (take 15 (drop 1 (flt_filter p))))[0 := flt_filter p ! 0],
      filter_mask := (blit (filter_mask g) 3 (take 15 (drop 1 (flt_mask p))))[0 := flt_mask p ! 0, 1 := 0, 2 := 0],
      filter_mode := (blit (filter_mode g) 3 (take 15 (drop 1 ?mode)))[0 := ?mode ! 0]\<rparr>"
  have keep: "flt_filter (invert_mode p) = flt_filter p" "flt_mask (invert_mode p) = flt_mask p" by (simp_all add: invert_mode_def)
  have fill: "fill_secfilter i (invert_mode p) g = Ret ?g"
    using len mode(1) by (simp add: fill_secfilter_def memcpy_def keep)
  have v: "filter_value ?g ! filter_pos k = flt_filter p ! k" "filter_mode ?g ! filter_pos k = ?mode ! k" if "k < 16" for k
    using copied_byte [OF len(4,1) that] copied_byte [OF len(6) mode(1) that] by simp_all
  have m: "filter_mask ?g ! filter_pos k = flt_mask p ! k" if "k < 16" for k
  proof -
    have "filter_pos k \<noteq> 1" "filter_pos k \<noteq> 2" by (auto simp: filter_pos_def)
    then show ?thesis using copied_byte [OF len(5,2) that] by simp
  qed
  have m0: "filter_mask ?g ! 1 = 0" "filter_mask ?g ! 2 = 0" using len(5) by simp_all
  have "section_matches (prepare_filter ?g) S \<longleftrightarrow> user_match p S" for S
  proof -
    let ?pos = "\<lambda>j. \<exists>n<8. bit (filter_mask ?g ! j) n \<and> bit (filter_mode ?g ! j) n \<and> bit (filter_value ?g ! j) n \<noteq> bit (S ! j) n"
    let ?neg = "\<lambda>j. \<exists>n<8. bit (filter_mask ?g ! j) n \<and> \<not> bit (filter_mode ?g ! j) n"
    let ?dif = "\<lambda>j. \<exists>n<8. bit (filter_mask ?g ! j) n \<and> \<not> bit (filter_mode ?g ! j) n \<and> bit (filter_value ?g ! j) n \<noteq> bit (S ! j) n"
    have "section_matches (prepare_filter ?g) S \<longleftrightarrow> \<not> (\<exists>j<18. ?pos j) \<and> ((\<exists>j<18. ?neg j) \<longrightarrow> (\<exists>j<18. ?dif j))"
      unfolding prepared_filter_bits by blast
    also have "\<dots> \<longleftrightarrow> \<not> (\<exists>k<16. ?pos (filter_pos k)) \<and> ((\<exists>k<16. ?neg (filter_pos k)) \<longrightarrow> (\<exists>k<16. ?dif (filter_pos k)))"
      using all_pos [of ?pos] all_pos [of ?neg] all_pos [of ?dif] m0 by simp
    also have "\<dots> \<longleftrightarrow> user_match p S"
    proof -
      have "?pos (filter_pos k) \<longleftrightarrow> (\<exists>n<8. bit (flt_mask p ! k) n \<and> \<not> bit (flt_mode p ! k) n \<and> bit (flt_filter p ! k) n \<noteq> bit (S ! filter_pos k) n)"
        "?neg (filter_pos k) \<longleftrightarrow> (\<exists>n<8. bit (flt_mask p ! k) n \<and> bit (flt_mode p ! k) n)"
        "?dif (filter_pos k) \<longleftrightarrow> (\<exists>n<8. bit (flt_mask p ! k) n \<and> bit (flt_mode p ! k) n \<and> bit (flt_filter p ! k) n \<noteq> bit (S ! filter_pos k) n)"
        if "k < 16" for k
        unfolding v(1) [OF that] v(2) [OF that] m [OF that] mode(2) [OF that] using bit_invert by blast+
      then show ?thesis unfolding user_match_def by (simp cong: conj_cong) blast
    qed
    finally show ?thesis .
  qed
  then show ?thesis using fill by auto
qed

section \<open>The calls of a successful start\<close>

text \<open>What a call into the demultiplexer leaves alone.\<close>

definition same_outside :: "'u dvb_demux \<Rightarrow> 'u dvb_demux \<Rightarrow> bool" where
  "same_outside d d' \<longleftrightarrow> start_feed d' = start_feed d \<and> stop_feed d' = stop_feed d \<and> \<not> demux_mutex d'"

lemma allocate_feed_ok:
  assumes "\<not> demux_mutex d" and "first_index (\<lambda>f. feed_state f = DMX_STATE_FREE) (feeds d) = fd" and "fd < length (feeds d)"
  shows "\<exists>d' f. dvbdmx_allocate_section_feed False d cb = Ret ((0, Some fd), d') \<and> same_outside d d' \<and>
    filters d' = filters d \<and> feed_list d' = feed_list d \<and> feeds d' = (feeds d)[fd := f] \<and>
    feed_type f = DMX_TYPE_SEC \<and> cb_sec f = cb \<and> feed_filter f = None \<and> \<not> is_filtering f \<and> secbuf f = secbuf (feeds d ! fd)"
  using assms
  by (auto simp: dvbdmx_allocate_section_feed_def demux_locked_def dvb_dmx_feed_alloc_def same_outside_def Let_def)

lemma feed_set_ok:
  assumes "\<not> demux_mutex d" and "pid \<le> 0x1fff"
  shows "\<exists>d'. dmx_section_feed_set False d fd pid sz False crc = Ret (0, d') \<and> same_outside d d' \<and>
    filters d' = filters d \<and> fd \<in> set (feed_list d') \<and>
    feeds d' = (feeds d)[fd := (feeds d ! fd)\<lparr>feed_pid := pid, feed_buffer_size := sz, feed_descramble := False,
      check_crc := crc, feed_state := DMX_STATE_READY\<rparr>]"
  using assms
  by (auto simp: dmx_section_feed_set_def demux_locked_def dvb_demux_feed_add_def dvb_demux_feed_find_def same_outside_def Let_def)

lemma allocate_filter_ok:
  assumes "\<not> demux_mutex d" and "first_index (\<lambda>f. filter_state f = DMX_STATE_FREE) (filters d) = j" and "j < length (filters d)"
  shows "\<exists>d' g. dmx_section_feed_allocate_filter False d fd = Ret ((0, Some j), d') \<and> same_outside d d' \<and>
    feed_list d' = feed_list d \<and> feeds d' = (feeds d)[fd := (feeds d ! fd)\<lparr>feed_filter := Some j\<rparr>] \<and>
    filters d' = (filters d)[j := g] \<and> filter_next g = feed_filter (feeds d ! fd) \<and>
    filter_value g = filter_value (filters d ! j) \<and> filter_mask g = filter_mask (filters d ! j) \<and> filter_mode g = filter_mode (filters d ! j)"
  using assms
  by (auto simp: dmx_section_feed_allocate_filter_def demux_locked_def dvb_dmx_filter_alloc_def same_outside_def Let_def)

lemma start_filtering_ok:
  assumes "\<not> demux_mutex d" and "fd < length (feeds d)" and "\<not> is_filtering (feeds d ! fd)" and "feed_filter (feeds d ! fd) = Some j"
    and "j < length (filters d)" and "filter_next (filters d ! j) = None" and "start_feed d = Some hook"
    and "\<forall>f. 0 \<le> fst (hook fd f u) \<and> snd (hook fd f u) = u'"
  shows "\<exists>d'. dmx_section_feed_start_filtering False d fd u = Ret ((0, u'), d') \<and> same_outside d d' \<and>
    feed_list d' = feed_list d \<and> filters d' = (filters d)[j := prepare_filter (filters d ! j)] \<and>
    feeds d' = (feeds d)[fd := (feeds d ! fd)\<lparr>secbufp := 0, seclen := 0, is_filtering := True, feed_state := DMX_STATE_GO\<rparr>]"
proof -
  have "filter_next (prepare_filter (filters d ! j)) = None" using assms(6) by (simp add: prepare_filter_def Let_def)
  then show ?thesis
    using assms
    by (simp add: dmx_section_feed_start_filtering_def demux_locked_def prepare_secfilters_def same_outside_def Let_def
      case_prod_unfold not_less [symmetric] del: not_less)
qed

text \<open>A feed of the demultiplexer that serves device filter \<open>i\<close> with the parameters \<open>p\<close>.\<close>

definition serves :: "'h dmxdev dvb_demux \<Rightarrow> nat \<Rightarrow> nat \<Rightarrow> bool \<Rightarrow> nat \<Rightarrow> dmx_filter_t \<Rightarrow> bool" where
  "serves d fd pid crc i p \<longleftrightarrow> fd \<in> set (feed_list d) \<and> feed_pid (feeds d ! fd) = pid \<and>
     feed_type (feeds d ! fd) = DMX_TYPE_SEC \<and> cb_sec (feeds d ! fd) = total_cb dvb_dmxdev_section_callback \<and>
     secbufp (feeds d ! fd) = 0 \<and> length (secbuf (feeds d ! fd)) = 4096 \<and> check_crc (feeds d ! fd) = crc \<and>
     (\<exists>j. running (filters d) [j] (feeds d ! fd) \<and> filter_priv (filters d ! j) = Some i \<and>
       (\<forall>S. section_matches (filters d ! j) S \<longleftrightarrow> user_match p S))"

text \<open>A driver that accepts the feed and touches only its own state.\<close>

definition driver_accepts :: "'h dmxdev dvb_demux \<Rightarrow> nat \<Rightarrow> ('h \<Rightarrow> 'h) \<Rightarrow> bool" where
  "driver_accepts d fd h \<longleftrightarrow> (\<exists>hook. start_feed d = Some hook \<and>
     (\<forall>f u. 0 \<le> fst (hook fd f u) \<and> snd (hook fd f u) = u\<lparr>dd_hw := h (dd_hw u)\<rparr>))"

lemmas sys_access = flt_def upd_flt_def upd_dev_def dev_upd_flt_def next_sig_def pop_sig_def dmx_call_def dmx_call_hw_def
  dvb_dmxdev_filter_state_set_def upd_buf_def

lemma filter_timer_dev:
  assumes "i < length (dd_filter (sys_dev s))"
  shows "\<exists>t. dvb_dmxdev_filter_timer i s =
    s\<lparr>sys_dev := (sys_dev s)\<lparr>dd_filter := (dd_filter (sys_dev s))[i := (dd_filter (sys_dev s) ! i)\<lparr>df_timer := t\<rparr>]\<rparr>\<rparr>"
  using assms by (auto simp: dvb_dmxdev_filter_timer_def sys_access Let_def)

lemma start_sec_filter_ok:
  assumes s: "sys_sigs s = []" "sys_dev s = u" "sys_demux s = d" "i < length (dd_filter u)"
    and d: "\<not> demux_mutex d" "fd < length (feeds d)" "fd \<in> set (feed_list d)" "\<not> is_filtering (feeds d ! fd)"
      "feed_filter (feeds d ! fd) = None" "feed_type (feeds d ! fd) = DMX_TYPE_SEC"
      "cb_sec (feeds d ! fd) = total_cb dvb_dmxdev_section_callback" "feed_pid (feeds d ! fd) = pid" "length (secbuf (feeds d ! fd)) = 4096" "check_crc (feeds d ! fd) = crc"
    and j: "first_index (\<lambda>f. filter_state f = DMX_STATE_FREE) (filters d) = j" "j < length (filters d)"
    and p: "sct_filter (df_sec (dd_filter u ! i)) = invert_mode p" "filter_sizes p (filters d ! j)"
    and h: "driver_accepts d fd h"
  shows "\<exists>s' f'. start_sec_filter i fd s = Ret (0, s') \<and> sys_sigs s' = [] \<and> serves (sys_demux s') fd pid crc i p \<and>
    sys_dev s' = u\<lparr>dd_hw := h (dd_hw u), dd_filter := (dd_filter u)[i := f']\<rparr> \<and>
    df_state f' = DMXDEV_STATE_GO \<and> df_feed f' = df_feed (dd_filter u ! i) \<and> df_buffer f' = df_buffer (dd_filter u ! i) \<and>
    df_mutex f' = df_mutex (dd_filter u ! i) \<and> df_type f' = df_type (dd_filter u ! i) \<and>
    df_todo f' = 0 \<and> df_secheader f' = df_secheader (dd_filter u ! i) \<and> df_sec f' = df_sec (dd_filter u ! i)"
proof -
  obtain d1 g where a: "dmx_section_feed_allocate_filter False d fd = Ret ((0, Some j), d1)" "same_outside d d1"
    "feed_list d1 = feed_list d" "feeds d1 = (feeds d)[fd := (feeds d ! fd)\<lparr>feed_filter := Some j\<rparr>]"
    "filters d1 = (filters d)[j := g]" "filter_next g = None"
    "filter_value g = filter_value (filters d ! j)" "filter_mask g = filter_mask (filters d ! j)" "filter_mode g = filter_mode (filters d ! j)"
    using allocate_filter_ok [OF d(1) j, of fd] d(5) by auto
  then have "filter_sizes p g" using p(2) by (simp add: filter_sizes_def)
  then obtain g' where g': "fill_secfilter i (invert_mode p) g = Ret g'" "filter_priv g' = Some i" "filter_next g' = None"
    "\<forall>S. section_matches (prepare_filter g') S \<longleftrightarrow> user_match p S"
    using fill_secfilter_match [of p g i] a(6) by auto
  let ?u = "u\<lparr>dd_filter := (dd_filter u)[i := (dd_filter u ! i)\<lparr>df_sec_filter := Some j, df_todo := 0\<rparr>]\<rparr>"
  let ?d = "set_filter j g' d1"
  obtain hook where hook: "start_feed d = Some hook"
    "\<And>f u. 0 \<le> fst (hook fd f u)" "\<And>f u. snd (hook fd f u) = u\<lparr>dd_hw := h (dd_hw u)\<rparr>"
    using h by (auto simp: driver_accepts_def)
  have pre: "\<not> demux_mutex ?d" "fd < length (feeds ?d)" "\<not> is_filtering (feeds ?d ! fd)" "feed_filter (feeds ?d ! fd) = Some j"
    "j < length (filters ?d)" "filter_next (filters ?d ! j) = None" "start_feed ?d = Some hook"
    using a d j g'(3) hook(1) by (simp_all add: same_outside_def)
  have "\<forall>f. 0 \<le> fst (hook fd f ?u) \<and> snd (hook fd f ?u) = ?u\<lparr>dd_hw := h (dd_hw ?u)\<rparr>" using hook(2,3) by blast
  from start_filtering_ok [OF pre this]
  obtain d2 where d2: "dmx_section_feed_start_filtering False ?d fd ?u = Ret ((0, ?u\<lparr>dd_hw := h (dd_hw ?u)\<rparr>), d2)"
    "same_outside ?d d2" "feed_list d2 = feed_list ?d" "filters d2 = (filters ?d)[j := prepare_filter (filters ?d ! j)]"
    "feeds d2 = (feeds ?d)[fd := (feeds ?d ! fd)\<lparr>secbufp := 0, seclen := 0, is_filtering := True, feed_state := DMX_STATE_GO\<rparr>]"
    by blast
  let ?f = "\<lambda>t. (dd_filter u ! i)\<lparr>df_sec_filter := Some j, df_todo := 0, df_timer := t, df_state := DMXDEV_STATE_GO\<rparr>"
  have run: "\<exists>t. start_sec_filter i fd s = Ret (0, s\<lparr>sys_demux := d2, sys_dev := u\<lparr>dd_hw := h (dd_hw u), dd_filter := (dd_filter u)[i := ?f t]\<rparr>\<rparr>)"
  proof -
    have c: "dmx_call (\<lambda>sig d. dmx_section_feed_allocate_filter sig d fd) s = Ret ((0, Some j), s\<lparr>sys_demux := d1\<rparr>)"
      using s a(1) by (simp add: dmx_call_def next_sig_def pop_sig_def)
    have g: "filters d1 ! j = g" using a(5) j(2) by simp
    let ?s = "s\<lparr>sys_demux := ?d, sys_dev := ?u\<rparr>"
    let ?s2 = "s\<lparr>sys_demux := d2, sys_dev := ?u\<lparr>dd_hw := h (dd_hw ?u)\<rparr>\<rparr>"
    have st: "dmx_call_hw (\<lambda>sig d u. dmx_section_feed_start_filtering sig d fd u) ?s = Ret (0, ?s2)"
      using s(1) d2(1) by (simp add: dmx_call_hw_def next_sig_def pop_sig_def)
    have u1: "upd_flt i (\<lambda>f. f\<lparr>df_todo := 0\<rparr>) ((upd_flt i (\<lambda>f. f\<lparr>df_sec_filter := Some j\<rparr>) (s\<lparr>sys_demux := d1\<rparr>))\<lparr>sys_demux := ?d\<rparr>) = ?s"
      using s by (simp add: upd_flt_def upd_dev_def dev_upd_flt_def)
    have "start_sec_filter i fd s = Ret (0, dvb_dmxdev_filter_state_set i DMXDEV_STATE_GO (dvb_dmxdev_filter_timer i ?s2))"
      using s p(1) g'(1) g st u1 unfolding start_sec_filter_def c by (simp add: Let_def flt_def upd_flt_def upd_dev_def dev_upd_flt_def)
    moreover obtain t where "dvb_dmxdev_filter_timer i ?s2 =
        ?s2\<lparr>sys_dev := (sys_dev ?s2)\<lparr>dd_filter := (dd_filter (sys_dev ?s2))[i := (dd_filter (sys_dev ?s2) ! i)\<lparr>df_timer := t\<rparr>]\<rparr>\<rparr>"
      using filter_timer_dev [of i ?s2] s(4) by auto
    ultimately show ?thesis using s(4) by (intro exI [of _ t]) (simp add: sys_access)
  qed
  have "serves d2 fd pid crc i p"
  proof -
    have f: "feeds d2 ! fd = (feeds d ! fd)\<lparr>feed_filter := Some j, secbufp := 0, seclen := 0, is_filtering := True, feed_state := DMX_STATE_GO\<rparr>"
      using d2(5) a(4) d(2) by simp
    have "filters d2 ! j = prepare_filter g'" "j < length (filters d2)" using d2(4) a(5) j(2) by simp_all
    moreover have "filter_next (prepare_filter g') = None" "filter_priv (prepare_filter g') = Some i"
      using g'(2,3) by (simp_all add: prepare_filter_def Let_def)
    ultimately have "running (filters d2) [j] (feeds d2 ! fd)" "filter_priv (filters d2 ! j) = Some i"
      "\<forall>S. section_matches (filters d2 ! j) S \<longleftrightarrow> user_match p S"
      using f g'(4) by (simp_all add: running_def)
    then show ?thesis unfolding serves_def using d(3,6-10) d2(3) a(3) f by auto
  qed
  with run s(1) show ?thesis by fastforce
qed

definition pid_unused :: "nat \<Rightarrow> dmxdev_filter list \<Rightarrow> bool" where
  "pid_unused pid fs \<longleftrightarrow> (\<forall>f\<in>set fs. \<not> (DMXDEV_STATE_GO \<le> df_state f \<and> df_type f = DMXDEV_TYPE_SEC \<and> df_pid f = pid))"

lemma pid_unused_find: "pid_unused pid fs \<Longrightarrow> find_active_sec pid fs = length fs"
  unfolding find_active_sec_def first_index_none by (simp add: pid_unused_def)

lemma pid_unused_update:
  "pid_unused pid fs \<Longrightarrow> df_state f < DMXDEV_STATE_GO \<Longrightarrow> pid_unused pid (fs[i := f])"
  using set_update_subset_insert [of fs i f] unfolding pid_unused_def by (auto simp: dmxdev_state_order)

lemma start_sec_ok:
  assumes s: "sys_sigs s = []" "sys_dev s = u" "sys_demux s = d" "i < length (dd_filter u)"
    and f: "df_state (dd_filter u ! i) < DMXDEV_STATE_GO" "df_sec (dd_filter u ! i) = para" "pid_unused (sct_pid para) (dd_filter u)"
      "sct_filter para = invert_mode p" "sct_pid para \<le> 0x1fff"
    and d: "\<not> demux_mutex d" "first_index (\<lambda>f. feed_state f = DMX_STATE_FREE) (feeds d) = fd" "fd < length (feeds d)"
      "first_index (\<lambda>f. filter_state f = DMX_STATE_FREE) (filters d) = j" "j < length (filters d)" "filter_sizes p (filters d ! j)"
      "length (secbuf (feeds d ! fd)) = 4096"
    and h: "driver_accepts d fd h"
  shows "\<exists>s' f'. start_sec i s = Ret (0, s') \<and> sys_sigs s' = [] \<and> serves (sys_demux s') fd (sct_pid para) (sct_flags para AND DMX_CHECK_CRC \<noteq> 0) i p \<and>
    sys_dev s' = u\<lparr>dd_hw := h (dd_hw u), dd_filter := (dd_filter u)[i := f']\<rparr> \<and>
    df_state f' = DMXDEV_STATE_GO \<and> df_feed f' = Some fd \<and> df_buffer f' = df_buffer (dd_filter u ! i) \<and>
    df_mutex f' = df_mutex (dd_filter u ! i) \<and> df_type f' = df_type (dd_filter u ! i) \<and>
    df_todo f' = 0 \<and> df_secheader f' = df_secheader (dd_filter u ! i) \<and> df_sec f' = df_sec (dd_filter u ! i)"
proof -
  let ?cb = "total_cb dvb_dmxdev_section_callback"
  let ?v = "u\<lparr>dd_filter := (dd_filter u)[i := (dd_filter u ! i)\<lparr>df_sec_filter := None, df_feed := None\<rparr>]\<rparr>"
  let ?u = "u\<lparr>dd_filter := (dd_filter u)[i := (dd_filter u ! i)\<lparr>df_sec_filter := None, df_feed := Some fd\<rparr>]\<rparr>"
  have none: "find_active_sec (sct_pid para) (dd_filter ?v) = length (dd_filter u)"
    using pid_unused_find [OF pid_unused_update [OF f(3), of "(dd_filter u ! i)\<lparr>df_sec_filter := None, df_feed := None\<rparr>" i]] f(1) by simp
  obtain d1 g where a: "dvbdmx_allocate_section_feed False d ?cb = Ret ((0, Some fd), d1)" "same_outside d d1"
    "filters d1 = filters d" "feed_list d1 = feed_list d" "feeds d1 = (feeds d)[fd := g]" "feed_type g = DMX_TYPE_SEC"
    "cb_sec g = ?cb" "feed_filter g = None" "\<not> is_filtering g" "secbuf g = secbuf (feeds d ! fd)"
    using allocate_feed_ok [OF d(1-3), of ?cb] by blast
  let ?crc = "sct_flags para AND DMX_CHECK_CRC \<noteq> 0"
  obtain d2 where b: "dmx_section_feed_set False d1 fd (sct_pid para) 32768 False ?crc = Ret (0, d2)" "same_outside d1 d2"
    "filters d2 = filters d1" "fd \<in> set (feed_list d2)"
    "feeds d2 = (feeds d1)[fd := (feeds d1 ! fd)\<lparr>feed_pid := sct_pid para, feed_buffer_size := 32768, feed_descramble := False,
      check_crc := ?crc, feed_state := DMX_STATE_READY\<rparr>]"
    using feed_set_ok [of d1 "sct_pid para" fd 32768 ?crc] f(5) a(2) by (auto simp: same_outside_def)
  let ?s = "s\<lparr>sys_dev := ?u, sys_sigs := [], sys_demux := d2\<rparr>"
  have red: "start_sec i s = start_sec_filter i fd ?s"
    using s f(2) none a(1) b(1) by (simp add: start_sec_def sys_access Let_def)
  have "driver_accepts d2 fd h" using h a(2) b(2) by (simp add: driver_accepts_def same_outside_def)
  then have "\<exists>s' f'. start_sec_filter i fd ?s = Ret (0, s') \<and> sys_sigs s' = [] \<and> serves (sys_demux s') fd (sct_pid para) (sct_flags para AND DMX_CHECK_CRC \<noteq> 0) i p \<and>
      sys_dev s' = ?u\<lparr>dd_hw := h (dd_hw ?u), dd_filter := (dd_filter ?u)[i := f']\<rparr> \<and>
      df_state f' = DMXDEV_STATE_GO \<and> df_feed f' = df_feed (dd_filter ?u ! i) \<and> df_buffer f' = df_buffer (dd_filter ?u ! i) \<and>
      df_mutex f' = df_mutex (dd_filter ?u ! i) \<and> df_type f' = df_type (dd_filter ?u ! i) \<and>
    df_todo f' = 0 \<and> df_secheader f' = df_secheader (dd_filter ?u ! i) \<and> df_sec f' = df_sec (dd_filter ?u ! i)"
    using s f a b d by (intro start_sec_filter_ok) (simp_all add: same_outside_def)
  then show ?thesis unfolding red using s(4) by auto
qed

definition buffer_usable :: "(nat \<Rightarrow> bool) \<Rightarrow> dmxdev_buffer \<Rightarrow> bool" where
  "buffer_usable vm b \<longleftrightarrow> (case buf_data b of None \<Rightarrow> vm (buf_size b) | Some m \<Rightarrow> length m = buf_size b) \<and>
     0 < buf_size b \<and> buf_error b = 0"

definition startable :: "(nat \<Rightarrow> bool) \<Rightarrow> nat \<Rightarrow> dmx_sct_filter_params \<Rightarrow> nat \<Rightarrow> nat \<Rightarrow> ('h \<Rightarrow> 'h) \<Rightarrow> 'h dmxsys \<Rightarrow> bool" where
  "startable vm i params fd j h s \<longleftrightarrow>
     sys_sigs s = [] \<and> i < length (dd_filter (sys_dev s)) \<and>
     df_state (flt s i) \<in> {DMXDEV_STATE_ALLOCATED, DMXDEV_STATE_SET} \<and>
     buffer_usable vm (df_buffer (flt s i)) \<and>
     pid_unused (sct_pid params) (dd_filter (sys_dev s)) \<and> sct_pid params \<le> 0x1fff \<and>
     \<not> demux_mutex (sys_demux s) \<and>
     first_index (\<lambda>f. feed_state f = DMX_STATE_FREE) (feeds (sys_demux s)) = fd \<and> fd < length (feeds (sys_demux s)) \<and>
     first_index (\<lambda>f. filter_state f = DMX_STATE_FREE) (filters (sys_demux s)) = j \<and> j < length (filters (sys_demux s)) \<and>
     length (secbuf (feeds (sys_demux s) ! fd)) = 4096 \<and>
     filter_sizes (sct_filter params) (filters (sys_demux s) ! j) \<and> driver_accepts (sys_demux s) fd h"

lemma set_filter_start_ok:
  assumes "startable vm i params fd j h s" and "sct_flags params AND DMX_IMMEDIATE_START \<noteq> 0"
  shows "\<exists>s' f'. dvb_dmxdev_filter_set vm i params s = Ret (0, s') \<and>
    serves (sys_demux s') fd (sct_pid params) (sct_flags params AND DMX_CHECK_CRC \<noteq> 0) i (sct_filter params) \<and>
    sys_dev s' = (sys_dev s)\<lparr>dd_hw := h (dd_hw (sys_dev s)), dd_filter := (dd_filter (sys_dev s))[i := f']\<rparr> \<and>
    df_state f' = DMXDEV_STATE_GO \<and> df_feed f' = Some fd \<and> df_type f' = DMXDEV_TYPE_SEC \<and> df_mutex f' = df_mutex (flt s i) \<and>
    df_todo f' = 0 \<and> df_secheader f' = df_secheader (flt s i) \<and> buf_size (df_buffer f') = buf_size (df_buffer (flt s i)) \<and>
    buffer_ready (df_buffer f') \<and> buffer_contents (df_buffer f') = [] \<and> sct_flags (df_sec f') = sct_flags params"
proof -
  let ?u = "sys_dev s" and ?f = "dd_filter (sys_dev s) ! i"
  have st: "sys_sigs s = []" "i < length (dd_filter ?u)" "df_state ?f \<in> {DMXDEV_STATE_ALLOCATED, DMXDEV_STATE_SET}"
    "buffer_usable vm (df_buffer ?f)" "pid_unused (sct_pid params) (dd_filter ?u)"
    using assms(1) by (simp_all add: startable_def flt_def)
  define para where "para = params\<lparr>sct_filter := invert_mode (sct_filter params)\<rparr>"
  define f1 where "f1 = ?f\<lparr>df_type := DMXDEV_TYPE_SEC, df_pid := sct_pid params, df_sec := para, df_state := DMXDEV_STATE_SET\<rparr>"
  define b where "b = (if buf_data (df_buffer ?f) = None then (df_buffer ?f)\<lparr>buf_data := vmalloc vm (buf_size (df_buffer ?f))\<rparr>
    else df_buffer ?f)\<lparr>buf_pread := 0, buf_pwrite := 0\<rparr>"
  let ?s = "s\<lparr>sys_dev := ?u\<lparr>dd_filter := (dd_filter ?u)[i := f1\<lparr>df_buffer := b\<rparr>]\<rparr>\<rparr>"
  have low: "df_state ?f < DMXDEV_STATE_GO" using st(3) by (auto simp: dmxdev_state_order)
  have data: "buf_data b \<noteq> None" using st(4) by (auto simp: b_def vmalloc_def buffer_usable_def split: option.splits)
  have red: "dvb_dmxdev_filter_set vm i params s = start_sec i ?s"
    using st(1,2,4) low assms(2) data
    by (cases "buf_data (df_buffer ?f)")
      (auto simp: dvb_dmxdev_filter_set_def dvb_dmxdev_filter_stop_def dvb_dmxdev_filter_start_def sys_access Let_def
        f1_def para_def b_def vmalloc_def dmxdev_state_order buffer_usable_def)
  have "\<exists>s' f'. start_sec i ?s = Ret (0, s') \<and> sys_sigs s' = [] \<and> serves (sys_demux s') fd (sct_pid para) (sct_flags para AND DMX_CHECK_CRC \<noteq> 0) i (sct_filter params) \<and>
    sys_dev s' = (sys_dev ?s)\<lparr>dd_hw := h (dd_hw (sys_dev ?s)), dd_filter := (dd_filter (sys_dev ?s))[i := f']\<rparr> \<and>
    df_state f' = DMXDEV_STATE_GO \<and> df_feed f' = Some fd \<and> df_buffer f' = df_buffer (dd_filter (sys_dev ?s) ! i) \<and>
    df_mutex f' = df_mutex (dd_filter (sys_dev ?s) ! i) \<and> df_type f' = df_type (dd_filter (sys_dev ?s) ! i) \<and>
    df_todo f' = 0 \<and> df_secheader f' = df_secheader (dd_filter (sys_dev ?s) ! i) \<and> df_sec f' = df_sec (dd_filter (sys_dev ?s) ! i)"
  proof (rule start_sec_ok [OF _ refl refl])
    show "pid_unused (sct_pid para) (dd_filter (sys_dev ?s))"
      using pid_unused_update [OF st(5), of "f1\<lparr>df_buffer := b\<rparr>" i] by (simp add: f1_def para_def dmxdev_state_order)
  qed (use assms(1) in \<open>auto simp: startable_def f1_def para_def dmxdev_state_order\<close>)
  then obtain s' f' where f': "start_sec i ?s = Ret (0, s')"
    "serves (sys_demux s') fd (sct_pid para) (sct_flags para AND DMX_CHECK_CRC \<noteq> 0) i (sct_filter params)"
    "sys_dev s' = (sys_dev ?s)\<lparr>dd_hw := h (dd_hw (sys_dev ?s)), dd_filter := (dd_filter (sys_dev ?s))[i := f']\<rparr>"
    "df_state f' = DMXDEV_STATE_GO" "df_feed f' = Some fd" "df_buffer f' = df_buffer (dd_filter (sys_dev ?s) ! i)"
    "df_mutex f' = df_mutex (dd_filter (sys_dev ?s) ! i)" "df_type f' = df_type (dd_filter (sys_dev ?s) ! i)" "df_todo f' = 0"
    "df_secheader f' = df_secheader (dd_filter (sys_dev ?s) ! i)" "df_sec f' = df_sec (dd_filter (sys_dev ?s) ! i)"
    by blast
  have "buffer_contents b = []" using data by (auto simp: buffer_contents_def b_def ring_contents_def split: option.splits)
  moreover have "buffer_ready b" "buf_size b = buf_size (df_buffer ?f)"
    using st(4) by (auto simp: buffer_ready_def buffer_inv_def b_def vmalloc_def buffer_usable_def split: option.splits)
  ultimately show ?thesis
    unfolding red using st(2) f' by (intro exI [of _ s'] exI [of _ f']) (simp add: f1_def para_def flt_def)
qed

lemma startable_locked:
  assumes "startable vm i params fd j h s"
  shows "startable vm i params fd j h (upd_flt i (\<lambda>f. f\<lparr>df_mutex := True\<rparr>) (upd_dev (\<lambda>d. d\<lparr>dd_mutex := True\<rparr>) s))"
proof -
  have "df_state (flt s i) < DMXDEV_STATE_GO" "pid_unused (sct_pid params) (dd_filter (sys_dev s))"
    using assms by (auto simp: startable_def dmxdev_state_order)
  then have "pid_unused (sct_pid params) ((dd_filter (sys_dev s))[i := (flt s i)\<lparr>df_mutex := True\<rparr>])"
    by (intro pid_unused_update) simp_all
  then show ?thesis using assms by (simp add: startable_def flt_def upd_flt_def upd_dev_def dev_upd_flt_def)
qed

section \<open>What the driver below must not touch\<close>

definition driver_frame :: "'h dmxdev dvb_demux \<Rightarrow> bool" where
  "driver_frame d \<longleftrightarrow>
     (\<forall>hook fd f u. start_feed d = Some hook \<or> stop_feed d = Some hook \<longrightarrow> dd_filter (snd (hook fd f u)) = dd_filter u)"

lemma driver_frame_hooks:
  "start_feed d' = start_feed d \<Longrightarrow> stop_feed d' = stop_feed d \<Longrightarrow> driver_frame d' = driver_frame d"
  by (simp add: driver_frame_def)

lemma hook_frame:
  assumes "driver_frame d" and "start_feed d = Some hook \<or> stop_feed d = Some hook" and "hook fd f u = (q, u')"
  shows "dd_filter u' = dd_filter u"
  using assms by (metis driver_frame_def snd_conv)

lemma stop_filtering_result:
  assumes "dmx_section_feed_stop_filtering sig d fd u = Ret ((r, u'), d')"
  shows "start_feed d' = start_feed d \<and> stop_feed d' = stop_feed d \<and>
    (u' = u \<or> (\<exists>hook f q. stop_feed d = Some hook \<and> hook fd f u = (q, u')))"
proof (cases "sig \<or> demux_mutex d")
  case True
  then show ?thesis using assms by (auto simp: dmx_section_feed_stop_filtering_def demux_locked_def split: if_splits)
next
  case False
  then show ?thesis
    using assms
    by (cases "stop_feed d") (auto simp: dmx_section_feed_stop_filtering_def demux_locked_def Let_def case_prod_unfold)
qed

lemma start_filtering_result:
  assumes "dmx_section_feed_start_filtering sig d fd u = Ret ((r, u'), d')"
  shows "start_feed d' = start_feed d \<and> stop_feed d' = stop_feed d \<and>
    (u' = u \<or> (\<exists>hook f q. start_feed d = Some hook \<and> hook fd f u = (q, u')))"
proof -
  let ?f = "feeds d ! fd"
  consider "sig \<or> demux_mutex d \<or> is_filtering ?f \<or> feed_filter ?f = None \<or> start_feed d = None"
    | hook where "\<not> sig" "\<not> demux_mutex d" "\<not> is_filtering ?f" "feed_filter ?f \<noteq> None" "start_feed d = Some hook"
    by fastforce
  then show ?thesis
  proof cases
    case 1
    then show ?thesis
      using assms by (auto simp: dmx_section_feed_start_filtering_def demux_locked_def Let_def split: if_splits option.splits)
  next
    case 2
    let ?d = "set_feed fd (?f\<lparr>secbufp := 0, seclen := 0\<rparr>) (d\<lparr>demux_mutex := True\<rparr>)"
    obtain d1 where d1: "prepare_secfilters ?d fd = Ret d1"
      using assms 2 by (cases "prepare_secfilters ?d fd") (simp_all add: dmx_section_feed_start_filtering_def demux_locked_def Let_def)
    have "start_feed d1 = start_feed d" "stop_feed d1 = stop_feed d"
      using d1 by (auto simp: prepare_secfilters_def kbind_eq_Ret_iff split: option.splits)
    moreover obtain q v where "hook fd (?f\<lparr>secbufp := 0, seclen := 0\<rparr>) u = (q, v)" by fastforce
    ultimately show ?thesis
      using assms 2 d1 by (auto simp: dmx_section_feed_start_filtering_def demux_locked_def Let_def split: if_splits)
  qed
qed

lemma stop_filtering_frame:
  "dmx_section_feed_stop_filtering sig d fd u = Ret ((r, u'), d') \<Longrightarrow> driver_frame d \<Longrightarrow>
   dd_filter u' = dd_filter u \<and> driver_frame d'"
  using stop_filtering_result [of sig d fd u r u' d'] hook_frame [of d] driver_frame_hooks [of d' d] by blast

lemma start_filtering_frame:
  "dmx_section_feed_start_filtering sig d fd u = Ret ((r, u'), d') \<Longrightarrow> driver_frame d \<Longrightarrow>
   dd_filter u' = dd_filter u \<and> driver_frame d'"
  using start_filtering_result [of sig d fd u r u' d'] hook_frame [of d] driver_frame_hooks [of d' d] by blast

lemma release_filter_frame:
  assumes "dmx_section_feed_release_filter sig sig2 d fd sf u = Ret ((r, u'), d')" and "driver_frame d"
  shows "dd_filter u' = dd_filter u \<and> driver_frame d'"
proof (cases "sig \<or> demux_mutex d \<or> filter_feed (filters d ! sf) \<noteq> Some fd")
  case True
  then show ?thesis using assms
    by (auto simp: dmx_section_feed_release_filter_def demux_locked_def driver_frame_def split: if_splits)
next
  case False
  let ?d = "d\<lparr>demux_mutex := True\<rparr>"
  have fr: "driver_frame ?d" using assms(2) by (simp add: driver_frame_def)
  from False assms(1) obtain r1 u1 d1 where
    1: "(if is_filtering (feeds ?d ! fd) then dmx_section_feed_stop_filtering sig2 ?d fd u else Ret ((0, u), ?d)) = Ret ((r1, u1), d1)"
    and 2: "u' = u1" "start_feed d' = start_feed d1" "stop_feed d' = stop_feed d1"
    by (auto simp: dmx_section_feed_release_filter_def demux_locked_def kbind_eq_Ret_iff Let_def split: if_splits)
  have "dd_filter u1 = dd_filter u \<and> driver_frame d1"
    using 1 fr stop_filtering_frame [of sig2 ?d fd u r1 u1 d1] by (auto split: if_splits)
  then show ?thesis using 2 driver_frame_hooks by metis
qed

section \<open>Stopping one of several filters on a PID\<close>

lemma dmx_call_hw_frame:
  assumes "dmx_call_hw f s = Ret (r, s')"
    and "\<And>sig r u d. f sig (sys_demux s) (sys_dev s) = Ret ((r, u), d) \<Longrightarrow> dd_filter u = dd_filter (sys_dev s) \<and> driver_frame d"
  shows "dd_filter (sys_dev s') = dd_filter (sys_dev s) \<and> driver_frame (sys_demux s')"
  using assms by (auto simp: dmx_call_hw_def kbind_eq_Ret_iff pop_sig_def)

lemma filters_upd [simp]:
  "dd_filter (sys_dev (upd_flt i g s)) = (dd_filter (sys_dev s))[i := g (dd_filter (sys_dev s) ! i)]"
  "sys_demux (upd_flt i g s) = sys_demux s" "sys_demux (pop_sig s) = sys_demux s" "sys_dev (pop_sig s) = sys_dev s"
  by (simp_all add: upd_flt_def upd_dev_def dev_upd_flt_def pop_sig_def)

lemma feed_stop_filters:
  assumes "dvb_dmxdev_feed_stop i s = Ret (r, s')" and "driver_frame (sys_demux s)" and "df_type (flt s i) = DMXDEV_TYPE_SEC"
    and "i < length (dd_filter (sys_dev s))"
  shows "dd_filter (sys_dev s') = (dd_filter (sys_dev s))[i := (flt s i)\<lparr>df_state := DMXDEV_STATE_SET, df_timer := None\<rparr>] \<and>
    driver_frame (sys_demux s')"
proof -
  let ?s = "upd_flt i (\<lambda>f. f\<lparr>df_timer := None\<rparr>) (upd_flt i (\<lambda>f. f\<lparr>df_state := DMXDEV_STATE_SET\<rparr>) s)"
  from assms(1,3,4) obtain fd r1 where
    "dmx_call_hw (\<lambda>sig d u. dmx_section_feed_stop_filtering sig d fd u) ?s = Ret (r1, s')"
    by (auto simp: dvb_dmxdev_feed_stop_def dvb_dmxdev_filter_state_set_def flt_def Let_def kbind_eq_Ret_iff split: option.splits)
  then have "dd_filter (sys_dev s') = dd_filter (sys_dev ?s) \<and> driver_frame (sys_demux s')"
    using assms(2) by (elim dmx_call_hw_frame) (auto dest: stop_filtering_frame)
  then show ?thesis using assms(4) by (simp add: flt_def)
qed

lemma feed_start_filters:
  assumes "dvb_dmxdev_feed_start k s = Ret (r, s')" and "driver_frame (sys_demux s)" and "df_type (flt s k) = DMXDEV_TYPE_SEC"
    and "k < length (dd_filter (sys_dev s))"
  shows "dd_filter (sys_dev s') = (dd_filter (sys_dev s))[k := (flt s k)\<lparr>df_state := DMXDEV_STATE_GO\<rparr>]"
proof -
  let ?s = "upd_flt k (\<lambda>f. f\<lparr>df_state := DMXDEV_STATE_GO\<rparr>) s"
  from assms(1,3,4) obtain fd r1 where
    "dmx_call_hw (\<lambda>sig d u. dmx_section_feed_start_filtering sig d fd u) ?s = Ret (r1, s')"
    by (auto simp: dvb_dmxdev_feed_start_def dvb_dmxdev_filter_state_set_def flt_def Let_def split: option.splits)
  then have "dd_filter (sys_dev s') = dd_filter (sys_dev ?s) \<and> driver_frame (sys_demux s')"
    using assms(2) by (elim dmx_call_hw_frame) (auto dest: start_filtering_frame)
  then show ?thesis by (simp add: flt_def)
qed

definition sec_active :: "nat \<Rightarrow> dmxdev_filter \<Rightarrow> bool" where
  "sec_active pid f \<longleftrightarrow> DMXDEV_STATE_GO \<le> df_state f \<and> df_type f = DMXDEV_TYPE_SEC \<and> df_pid f = pid"

lemma first_index_eqI: "k < length xs \<Longrightarrow> P (xs ! k) \<Longrightarrow> (\<And>m. m < k \<Longrightarrow> \<not> P (xs ! m)) \<Longrightarrow> first_index P xs = k"
proof (induction xs arbitrary: k)
  case (Cons x xs)
  show ?case
  proof (cases k)
    case 0
    then show ?thesis using Cons.prems by simp
  next
    case (Suc k')
    have "first_index P xs = k'"
    proof (rule Cons.IH)
      show "\<not> P (xs ! m)" if "m < k'" for m using Cons.prems(3) [of "Suc m"] Suc that by simp
    qed (use Cons.prems Suc in simp_all)
    then show ?thesis using Cons.prems(3) [of 0] Suc by simp
  qed
qed simp

lemma filter_stop_revives:
  assumes "dvb_dmxdev_filter_stop i s = Ret (r, s')" and "driver_frame (sys_demux s)"
    and i: "i < length (dd_filter (sys_dev s))" "sec_active pid (flt s i)" "df_feed (flt s i) \<noteq> None" "sct_pid (df_sec (flt s i)) = pid"
    and k: "k < length (dd_filter (sys_dev s))" "k \<noteq> i" "sec_active pid (flt s k)"
      "\<And>m. m < k \<Longrightarrow> m \<noteq> i \<Longrightarrow> \<not> sec_active pid (flt s m)"
  shows "df_state (flt s' k) = DMXDEV_STATE_GO"
proof -
  let ?fs = "dd_filter (sys_dev s)"
  let ?f = "(flt s i)\<lparr>df_state := DMXDEV_STATE_SET, df_timer := None\<rparr>"
  have run: "\<not> df_state (flt s i) < DMXDEV_STATE_GO" "df_type (flt s i) = DMXDEV_TYPE_SEC"
    using i(2) by (auto simp: sec_active_def)
  obtain fd where fd: "df_feed (flt s i) = Some fd" using i(3) by auto
  obtain r1 s1 where 1: "dvb_dmxdev_feed_stop i s = Ret (r1, s1)"
    using assms(1) run fd by (cases "dvb_dmxdev_feed_stop i s") (auto simp: dvb_dmxdev_filter_stop_def Let_def)
  have s1: "dd_filter (sys_dev s1) = ?fs[i := ?f]" "driver_frame (sys_demux s1)"
    using feed_stop_filters [OF 1 assms(2) run(2) i(1)] by simp_all
  obtain r2 s2 where 2: "(case df_sec_filter (flt s1 i) of None \<Rightarrow> Ret (0, s1) | Some sf \<Rightarrow> release_sec_filter fd sf s1) = Ret (r2, s2)"
    using assms(1) run fd 1 by (auto simp: dvb_dmxdev_filter_stop_def Let_def kbind_eq_Ret_iff)
  have "dd_filter (sys_dev s2) = ?fs[i := ?f] \<and> driver_frame (sys_demux s2)"
  proof (cases "df_sec_filter (flt s1 i)")
    case None
    then show ?thesis using 2 s1 by simp
  next
    case (Some sf)
    then have "dmx_call_hw (\<lambda>sig2 d u. dmx_section_feed_release_filter (next_sig s1) sig2 d fd sf u) (pop_sig s1) = Ret (r2, s2)"
      using 2 by (simp add: release_sec_filter_def Let_def)
    then have "dd_filter (sys_dev s2) = dd_filter (sys_dev (pop_sig s1)) \<and> driver_frame (sys_demux s2)"
      using s1(2) by (elim dmx_call_hw_frame) (auto dest: release_filter_frame)
    then show ?thesis using s1(1) by simp
  qed
  then have s2: "dd_filter (sys_dev s2) = ?fs[i := ?f]" "driver_frame (sys_demux s2)" by simp_all
  have pid: "sct_pid (df_sec (flt s2 i)) = pid" and len: "length (dd_filter (sys_dev s2)) = length ?fs"
    using i s2(1) by (simp_all add: flt_def)
  have found: "find_active_sec pid (dd_filter (sys_dev s2)) = k"
    unfolding find_active_sec_def
  proof (rule first_index_eqI)
    fix m assume m: "m < k"
    show "\<not> (DMXDEV_STATE_GO \<le> df_state (dd_filter (sys_dev s2) ! m) \<and> df_type (dd_filter (sys_dev s2) ! m) = DMXDEV_TYPE_SEC \<and>
        df_pid (dd_filter (sys_dev s2) ! m) = pid)"
      using k(4) [OF m] m k(1) s2(1) by (cases "m = i") (auto simp: sec_active_def flt_def dmxdev_state_order)
  qed (use k(1-3) s2(1) in \<open>simp_all add: sec_active_def flt_def\<close>)
  have tk: "flt s2 k = flt s k" using k(1,2) s2(1) by (simp add: flt_def)
  obtain r3 s3 where 3: "dvb_dmxdev_feed_restart i s2 = Ret (r3, s3)"
    and s': "s' = upd_buf i (\<lambda>b. b\<lparr>buf_pread := 0, buf_pwrite := 0\<rparr>) (upd_flt i (\<lambda>f. f\<lparr>df_feed := None\<rparr>) s3)"
    using assms(1) run fd 1 2 by (auto simp: dvb_dmxdev_filter_stop_def Let_def kbind_eq_Ret_iff)
  obtain r4 where "dvb_dmxdev_feed_start k s2 = Ret (r4, s3)"
    using 3 pid found len k(1) by (auto simp: dvb_dmxdev_feed_restart_def Let_def kbind_eq_Ret_iff)
  then have "dd_filter (sys_dev s3) = (dd_filter (sys_dev s2))[k := (flt s2 k)\<lparr>df_state := DMXDEV_STATE_GO\<rparr>]"
    using s2(2) tk k(1,3) len by (intro feed_start_filters) (simp_all add: sec_active_def)
  then show ?thesis using k(1,2) len unfolding s' by (simp add: flt_def upd_buf_def)
qed

section \<open>A start that the driver refuses\<close>

lemma refused_start_pes:
  assumes s: "sys_sigs s = []" "i < length (dd_filter (sys_dev s))" "\<not> demux_mutex (sys_demux s)"
    and p: "df_pes (flt s i) = para" "pes_pes_type para = DMX_PES_OTHER" "pes_pid para \<le> DMX_MAX_PID"
    and d: "first_index (\<lambda>f. feed_state f = DMX_STATE_FREE) (feeds (sys_demux s)) = fd" "fd < length (feeds (sys_demux s))"
      "first_index (\<lambda>f. filter_state f = DMX_STATE_FREE) (filters (sys_demux s)) = j" "j < length (filters (sys_demux s))"
    and h: "start_feed (sys_demux s) = Some hook" "\<And>f u. hook fd f u = (r, u)" "r < 0"
  shows "\<exists>s'. start_pes i s = Ret (r, s') \<and> feed_state (feeds (sys_demux s') ! fd) = DMX_STATE_READY \<and>
    fd \<in> set (feed_list (sys_demux s')) \<and> df_state (flt s' i) = df_state (flt s i) \<and> sys_sigs s' = [] \<and>
    dd_mutex (sys_dev s') = dd_mutex (sys_dev s) \<and> df_mutex (flt s' i) = df_mutex (flt s i) \<and>
    length (dd_filter (sys_dev s')) = length (dd_filter (sys_dev s))"
proof -
  have ne: "fd \<noteq> length (feeds (sys_demux s))" "j \<noteq> length (filters (sys_demux s))" using d by simp_all
  have nodec: "pes_ts_type para AND TS_DECODER = 0"
    using p(2) by (cases "pes_output para") (simp_all add: pes_ts_type_def Let_def)
  show ?thesis
    using s p d h ne nodec
    by (simp add: start_pes_def sys_access dvbdmx_allocate_ts_feed_def dvb_dmx_feed_alloc_def dvb_dmx_filter_alloc_def
      demux_locked_def dmx_ts_feed_set_def dvb_demux_feed_add_def dvb_demux_feed_find_def dmx_ts_feed_start_filtering_def Let_def)
qed

lemma free_of_stopped:
  assumes "sys_sigs s = []" "\<not> dd_mutex (sys_dev s)" "\<not> df_mutex (flt s i)" "i < length (dd_filter (sys_dev s))"
    "df_state (flt s i) < DMXDEV_STATE_GO"
  shows "\<exists>s'. dvb_demux_release i s = Ret (0, s') \<and> sys_demux s' = sys_demux s \<and> df_state (flt s' i) = DMXDEV_STATE_FREE"
  using assms
  by (simp add: dvb_demux_release_def dvb_dmxdev_filter_free_def dev_locked_def filter_locked_def sys_access
    dvb_dmxdev_filter_stop_def dvb_dmxdev_filter_reset_def Let_def)

lemma set_filter_running:
  assumes "startable vm i params fd j h s" and "sct_flags params AND DMX_IMMEDIATE_START \<noteq> 0"
    and "\<not> dd_mutex (sys_dev s)" and "\<not> df_mutex (flt s i)"
  shows "\<exists>s'. dvb_demux_do_ioctl vm stc i (DMX_SET_FILTER params) s = Ret ((0, No_reply), s') \<and>
    serves (sys_demux s') fd (sct_pid params) (sct_flags params AND DMX_CHECK_CRC \<noteq> 0) i (sct_filter params) \<and>
    df_feed (flt s' i) = Some fd \<and> length (dd_filter (sys_dev s')) = length (dd_filter (sys_dev s)) \<and>
    (length (df_secheader (flt s i)) = 3 \<longrightarrow> idle_sec_filter (flt s' i)) \<and> df_state (flt s' i) = DMXDEV_STATE_GO \<and>
    buffer_contents (df_buffer (flt s' i)) = [] \<and> \<not> df_mutex (flt s' i) \<and>
    buf_size (df_buffer (flt s' i)) = buf_size (df_buffer (flt s i)) \<and>
    \<not> dd_mutex (sys_dev s') \<and> (\<forall>k. k \<noteq> i \<longrightarrow> flt s' k = flt s k) \<and> sct_flags (df_sec (flt s' i)) = sct_flags params"
proof -
  let ?s = "upd_flt i (\<lambda>f. f\<lparr>df_mutex := True\<rparr>) (upd_dev (\<lambda>d. d\<lparr>dd_mutex := True\<rparr>) s)"
  have i: "i < length (dd_filter (sys_dev s))" "sys_sigs s = []" using assms(1) by (simp_all add: startable_def)
  obtain s1 f' where r: "dvb_dmxdev_filter_set vm i params ?s = Ret (0, s1)"
    and s1: "serves (sys_demux s1) fd (sct_pid params) (sct_flags params AND DMX_CHECK_CRC \<noteq> 0) i (sct_filter params)"
      "sys_dev s1 = (sys_dev ?s)\<lparr>dd_hw := h (dd_hw (sys_dev ?s)), dd_filter := (dd_filter (sys_dev ?s))[i := f']\<rparr>"
      "df_state f' = DMXDEV_STATE_GO" "df_feed f' = Some fd" "buffer_contents (df_buffer f') = []" "df_type f' = DMXDEV_TYPE_SEC"
      "df_todo f' = 0" "df_secheader f' = df_secheader (flt ?s i)" "buf_size (df_buffer f') = buf_size (df_buffer (flt ?s i))"
      "buffer_ready (df_buffer f')" "sct_flags (df_sec f') = sct_flags params"
    using set_filter_start_ok [OF startable_locked [OF assms(1)] assms(2)] by blast
  have pop: "pop_sig s = s" "pop_sig (upd_dev (\<lambda>d. d\<lparr>dd_mutex := True\<rparr>) s) = upd_dev (\<lambda>d. d\<lparr>dd_mutex := True\<rparr>) s"
    "\<not> next_sig s" "\<not> next_sig (upd_dev (\<lambda>d. d\<lparr>dd_mutex := True\<rparr>) s)"
    using i(2) by (simp_all add: pop_sig_def next_sig_def upd_dev_def)
  have m: "\<not> df_mutex (flt (upd_dev (\<lambda>d. d\<lparr>dd_mutex := True\<rparr>) s) i)" using assms(4) by (simp add: flt_def upd_dev_def)
  have "dvb_demux_do_ioctl vm stc i (DMX_SET_FILTER params) s = Ret ((0, No_reply),
      upd_dev (\<lambda>d. d\<lparr>dd_mutex := False\<rparr>) (upd_flt i (\<lambda>f. f\<lparr>df_mutex := False\<rparr>) s1))"
    using r assms(3) pop m by (simp add: dvb_demux_do_ioctl_def dev_locked_def filter_locked_def Let_def)
  then show ?thesis
    using s1 i(1) by (simp add: flt_def upd_flt_def upd_dev_def dev_upd_flt_def idle_sec_filter_def)
qed

section \<open>Properties\<close>

text \<open>
  C9. Setting a section filter that starts at once works as the interface promises: on an open filter
  that does not run, with a free feed and a free filter in the demultiplexer and a driver that
  accepts, the command succeeds, no other filter of the device changes, no semaphore stays taken,
  and a feed with the PID runs whose filter accepts exactly the sections that match the
  parameters: every selected bit equals the given one, except that of the selected bits with mode 1
  at least one must differ; the two length bytes of a section are never compared.
\<close>

theorem set_filter_starts:
  assumes "startable vm i params fd j h s" and "sct_flags params AND DMX_IMMEDIATE_START \<noteq> 0"
    and "\<not> dd_mutex (sys_dev s)" and "\<not> df_mutex (flt s i)"
  shows "\<exists>s'. dvb_demux_do_ioctl vm stc i (DMX_SET_FILTER params) s = Ret ((0, No_reply), s') \<and>
    serves (sys_demux s') fd (sct_pid params) (sct_flags params AND DMX_CHECK_CRC \<noteq> 0) i (sct_filter params) \<and>
    df_state (flt s' i) = DMXDEV_STATE_GO \<and> df_feed (flt s' i) = Some fd \<and> buffer_contents (df_buffer (flt s' i)) = [] \<and>
    \<not> dd_mutex (sys_dev s') \<and> \<not> df_mutex (flt s' i) \<and> (\<forall>k. k \<noteq> i \<longrightarrow> flt s' k = flt s k)"
  using set_filter_running [OF assms, of stc] by blast

definition free_sys :: "dmxdev_filter list \<Rightarrow> int \<Rightarrow> unit dmxsys" where
  "free_sys fs r = \<lparr>sys_dev = demo_dev\<lparr>dd_filter := fs\<rparr>,
     sys_demux = dev_demux\<lparr>feeds := [dev_feed\<lparr>feed_state := DMX_STATE_FREE\<rparr>], feed_list := [],
       filters := [(demo_filter 0xff 0 None)\<lparr>filter_state := DMX_STATE_FREE\<rparr>], start_feed := Some (\<lambda>fd f u. (r, u))\<rparr>,
     sys_sigs = []\<rparr>"

definition sct_params :: dmx_sct_filter_params where
  "sct_params = \<lparr>sct_pid = 0x11, sct_filter = \<lparr>flt_filter = 0x42 # replicate 15 0, flt_mask = 0xff # replicate 15 0,
     flt_mode = replicate 16 0\<rparr>, sct_timeout = 5000, sct_flags = 4\<rparr>"

definition fresh_sys :: "unit dmxsys" where
  "fresh_sys = free_sys [(demo_dmxdev_filter [])\<lparr>df_state := DMXDEV_STATE_ALLOCATED\<rparr>] 0"

lemma fresh_sys_startable:
  "startable (\<lambda>n. True) 0 sct_params 0 0 (\<lambda>h. h) fresh_sys"
  "\<not> dd_mutex (sys_dev fresh_sys)" "\<not> df_mutex (flt fresh_sys 0)" "sct_flags sct_params AND DMX_IMMEDIATE_START \<noteq> 0"
  "(sct_flags sct_params AND DMX_CHECK_CRC \<noteq> 0) = False"
proof -
  have "driver_accepts (sys_demux fresh_sys) 0 (\<lambda>h. h)" by (simp add: driver_accepts_def fresh_sys_def free_sys_def)
  then show "startable (\<lambda>n. True) 0 sct_params 0 0 (\<lambda>h. h) fresh_sys"
    by (simp add: startable_def flt_def fresh_sys_def free_sys_def sct_params_def pid_unused_def dmxdev_state_order filter_sizes_def
      buffer_usable_def dev_demux_def dev_feed_def demo_filter_def demo_dmxdev_filter_def)
qed (simp_all add: fresh_sys_def free_sys_def demo_dev_def flt_def demo_dmxdev_filter_def sct_params_def)

theorem set_filter_starts_witness:
  "\<exists>s'. dvb_demux_do_ioctl (\<lambda>n. True) None 0 (DMX_SET_FILTER sct_params) fresh_sys = Ret ((0, No_reply), s') \<and>
    serves (sys_demux s') 0 0x11 False 0 (sct_filter sct_params)"
proof -
  have "sct_pid sct_params = 0x11" by (simp add: sct_params_def)
  then show ?thesis
    using set_filter_starts [OF fresh_sys_startable(1,4,2,3), of None] fresh_sys_startable(5) by auto
qed

text \<open>
  C35. Stopping a section filter revives a filter that was done: when another filter on the same PID
  has delivered its single section (its state is done), stopping the first one restarts the common feed through
  it and sets its state back to running, so that it delivers again.
\<close>

theorem stop_revives_done_filter:
  assumes "dvb_dmxdev_filter_stop i s = Ret (r, s')" and "driver_frame (sys_demux s)"
    and "i < length (dd_filter (sys_dev s))" "sec_active pid (flt s i)" "df_feed (flt s i) \<noteq> None" "sct_pid (df_sec (flt s i)) = pid"
    and "k < length (dd_filter (sys_dev s))" "k \<noteq> i" "sec_active pid (flt s k)" "df_state (flt s k) = DMXDEV_STATE_DONE"
    and "\<forall>m<k. m \<noteq> i \<longrightarrow> \<not> sec_active pid (flt s m)"
  shows "df_state (flt s' k) = DMXDEV_STATE_GO"
  using assms by (intro filter_stop_revives [OF assms(1-9)]) blast

definition two_filters_sys :: "unit dmxsys" where
  "two_filters_sys = \<lparr>sys_dev = demo_dev\<lparr>dd_filter := [demo_dmxdev_filter [],
       (demo_dmxdev_filter [])\<lparr>df_state := DMXDEV_STATE_DONE, df_sec_filter := Some 1\<rparr>]\<rparr>,
     sys_demux = dev_demux\<lparr>feeds := [dev_feed], filters := [demo_filter 0xff 0 (Some 1), demo_filter 0xff 1 None]\<rparr>,
     sys_sigs = []\<rparr>"

theorem stop_revives_done_filter_witness:
  "\<exists>s'. dvb_dmxdev_filter_stop 0 two_filters_sys = Ret (0, s') \<and>
    df_state (flt two_filters_sys 1) = DMXDEV_STATE_DONE \<and> df_state (flt s' 1) = DMXDEV_STATE_GO"
proof -
  obtain s' where r: "dvb_dmxdev_filter_stop 0 two_filters_sys = Ret (0, s')"
    by (simp add: dvb_dmxdev_filter_stop_def dvb_dmxdev_feed_stop_def release_sec_filter_def dvb_dmxdev_feed_restart_def
      dvb_dmxdev_feed_start_def find_active_sec_def sys_access two_filters_sys_def demo_dev_def demo_dmxdev_filter_def
      dev_demux_def dev_feed_def demo_filter_def dmx_section_feed_stop_filtering_def dmx_section_feed_release_filter_def
      dmx_section_feed_start_filtering_def prepare_secfilters_def prepare_filter_def demux_locked_def dmxdev_state_order Let_def
      set_feed_def set_filter_def numeral_3_eq_3)
  have "driver_frame (sys_demux two_filters_sys)" by (simp add: driver_frame_def two_filters_sys_def dev_demux_def)
  moreover have "0 < length (dd_filter (sys_dev two_filters_sys))" "sec_active 0x11 (flt two_filters_sys 0)"
    "df_feed (flt two_filters_sys 0) \<noteq> None" "sct_pid (df_sec (flt two_filters_sys 0)) = 0x11"
    "1 < length (dd_filter (sys_dev two_filters_sys))" "sec_active 0x11 (flt two_filters_sys 1)"
    "df_state (flt two_filters_sys 1) = DMXDEV_STATE_DONE"
    by (simp_all add: two_filters_sys_def flt_def sec_active_def demo_dmxdev_filter_def dmxdev_state_order)
  ultimately show ?thesis using stop_revives_done_filter [OF r, where pid = "0x11" and k = 1] r by auto
qed

text \<open>
  C36. A start that the driver refuses leaks the feed: the start of a PES filter returns the error of
  the driver, but the feed stays allocated and listed, and closing the device does not release it
  either, because a filter that did not start counts as stopped.
\<close>

theorem refused_start_leaks_feed:
  assumes "sys_sigs s = []" "i < length (dd_filter (sys_dev s))" "\<not> demux_mutex (sys_demux s)"
    and "df_pes (flt s i) = para" "pes_pes_type para = DMX_PES_OTHER" "pes_pid para \<le> DMX_MAX_PID"
    and "first_index (\<lambda>f. feed_state f = DMX_STATE_FREE) (feeds (sys_demux s)) = fd" "fd < length (feeds (sys_demux s))"
      "first_index (\<lambda>f. filter_state f = DMX_STATE_FREE) (filters (sys_demux s)) = j" "j < length (filters (sys_demux s))"
    and "start_feed (sys_demux s) = Some hook" "\<forall>f u. hook fd f u = (r, u)" "r < 0"
    and "df_type (flt s i) = DMXDEV_TYPE_PES" "df_state (flt s i) = DMXDEV_STATE_SET" "buf_data (df_buffer (flt s i)) \<noteq> None"
      "\<not> dd_mutex (sys_dev s)" "\<not> df_mutex (flt s i)"
  shows "\<exists>s1 s2. dvb_dmxdev_filter_start vm i s = Ret (r, s1) \<and> dvb_demux_release i s1 = Ret (0, s2) \<and>
    df_state (flt s2 i) = DMXDEV_STATE_FREE \<and> feed_state (feeds (sys_demux s2) ! fd) = DMX_STATE_READY \<and>
    fd \<in> set (feed_list (sys_demux s2))"
proof -
  let ?s = "upd_buf i (\<lambda>b. b\<lparr>buf_pread := 0, buf_pwrite := 0\<rparr>) s"
  have red: "dvb_dmxdev_filter_start vm i s = start_pes i ?s"
    using assms(2,14-16) by (auto simp: dvb_dmxdev_filter_start_def upd_buf_def flt_def dmxdev_state_order Let_def)
  have f: "sys_sigs ?s = []" "sys_demux ?s = sys_demux s" "length (dd_filter (sys_dev ?s)) = length (dd_filter (sys_dev s))"
    "df_pes (flt ?s i) = para" "df_state (flt ?s i) = DMXDEV_STATE_SET" "\<not> dd_mutex (sys_dev ?s)" "\<not> df_mutex (flt ?s i)"
    using assms(1,2,4,15,17,18) by (simp_all add: sys_access)
  obtain s1 where s1: "start_pes i ?s = Ret (r, s1)" "feed_state (feeds (sys_demux s1) ! fd) = DMX_STATE_READY"
    "fd \<in> set (feed_list (sys_demux s1))" "df_state (flt s1 i) = DMXDEV_STATE_SET" "sys_sigs s1 = []"
    "\<not> dd_mutex (sys_dev s1)" "\<not> df_mutex (flt s1 i)" "i < length (dd_filter (sys_dev s1))"
    using refused_start_pes [of ?s i para fd j hook r] assms(2,3,5-13) f by auto
  then obtain s2 where "dvb_demux_release i s1 = Ret (0, s2)" "sys_demux s2 = sys_demux s1" "df_state (flt s2 i) = DMXDEV_STATE_FREE"
    using free_of_stopped [OF s1(5-8)] by (auto simp: dmxdev_state_order)
  then show ?thesis using red s1 by auto
qed

theorem refused_start_leaks_feed_witness:
  "\<exists>s1 s2. dvb_dmxdev_filter_start (\<lambda>n. True) 0 (free_sys [(demo_dmxdev_filter [])\<lparr>df_state := DMXDEV_STATE_SET,
      df_type := DMXDEV_TYPE_PES\<rparr>] (- 16)) = Ret (- 16, s1) \<and>
    dvb_demux_release 0 s1 = Ret (0, s2) \<and> feed_state (feeds (sys_demux s2) ! 0) = DMX_STATE_READY"
proof -
  let ?s = "free_sys [(demo_dmxdev_filter [])\<lparr>df_state := DMXDEV_STATE_SET, df_type := DMXDEV_TYPE_PES\<rparr>] (- 16)"
  have "sys_sigs ?s = []" "0 < length (dd_filter (sys_dev ?s))" "\<not> demux_mutex (sys_demux ?s)"
    "df_pes (flt ?s 0) = df_pes (demo_dmxdev_filter [])" "pes_pes_type (df_pes (demo_dmxdev_filter [])) = DMX_PES_OTHER"
    "pes_pid (df_pes (demo_dmxdev_filter [])) \<le> DMX_MAX_PID"
    "first_index (\<lambda>f. feed_state f = DMX_STATE_FREE) (feeds (sys_demux ?s)) = 0" "0 < length (feeds (sys_demux ?s))"
    "first_index (\<lambda>f. filter_state f = DMX_STATE_FREE) (filters (sys_demux ?s)) = 0" "0 < length (filters (sys_demux ?s))"
    "start_feed (sys_demux ?s) = Some (\<lambda>fd f u. (- 16, u))" "\<forall>f (u :: unit dmxdev). (- 16 :: int, u) = (- 16, u)" "(- 16 :: int) < 0"
    "df_type (flt ?s 0) = DMXDEV_TYPE_PES" "df_state (flt ?s 0) = DMXDEV_STATE_SET" "buf_data (df_buffer (flt ?s 0)) \<noteq> None"
    "\<not> dd_mutex (sys_dev ?s)" "\<not> df_mutex (flt ?s 0)"
    by (simp_all add: free_sys_def flt_def demo_dmxdev_filter_def dev_demux_def demo_dev_def)
  from refused_start_leaks_feed [OF this] show ?thesis by blast
qed

end
