(* ===== verification/DVB_Dmxdev_Stream.thy ===== *)
theory DVB_Dmxdev_Stream
  imports DVB_Dmxdev_Control
begin

text \<open>
  A stream of sections on its way through the demultiplexer device (\<^verbatim>\<open>dmxdev.c\<close>): the callback of a
  section filter stores the sections that match, one behind the other, and the reads of an application
  take them out again one by one.
\<close>

section \<open>What the callback collects\<close>

text \<open>
  \<open>holding oneshot G f\<close>: the sections \<open>G\<close> have come for the filter \<open>f\<close>, and nothing has been read. A filter
  for one section keeps the first of them only.
\<close>

definition kept_sections :: "bool \<Rightarrow> bytes list \<Rightarrow> bytes list" where
  "kept_sections oneshot G = (if oneshot then take 1 G else G)"

definition holding :: "bool \<Rightarrow> bytes list \<Rightarrow> dmxdev_filter \<Rightarrow> bool" where
  "holding oneshot G f \<longleftrightarrow> df_type f = DMXDEV_TYPE_SEC \<and> df_todo f = 0 \<and> length (df_secheader f) = 3 \<and>
     df_state f = (if oneshot \<and> G \<noteq> [] then DMXDEV_STATE_DONE else DMXDEV_STATE_GO) \<and>
     (sct_flags (df_sec f) AND DMX_ONESHOT \<noteq> 0) = oneshot \<and>
     buffer_ready (df_buffer f) \<and> buffer_contents (df_buffer f) = concat (kept_sections oneshot G) \<and> \<not> df_mutex f"

lemma holding_idle:
  "idle_sec_filter f \<Longrightarrow> holding (sct_flags (df_sec f) AND DMX_ONESHOT \<noteq> 0) [] f"
  by (simp add: holding_def idle_sec_filter_def kept_sections_def)

lemma sec_cb_holding:
  assumes "i < length (dd_filter d)" "holding oneshot G (dd_filter d ! i)"
    "length (concat (kept_sections oneshot (G @ [S]))) < buf_size (df_buffer (dd_filter d ! i))"
  shows "\<exists>d'. sec_cb S [] (Some i) d = (0, d') \<and> length (dd_filter d') = length (dd_filter d) \<and>
    holding oneshot (G @ [S]) (dd_filter d' ! i) \<and> buf_size (df_buffer (dd_filter d' ! i)) = buf_size (df_buffer (dd_filter d ! i))"
proof -
  let ?f = "dd_filter d ! i"
  have f: "buf_error (df_buffer ?f) = 0" "buffer_ready (df_buffer ?f)" using assms(2) by (simp_all add: holding_def buffer_ready_def)
  show ?thesis
  proof (cases "oneshot \<and> G \<noteq> []")
    case True
    then have "sec_cb S [] (Some i) d = (0, d)"
      using assms(2) f by (simp add: total_cb_def dvb_dmxdev_section_callback_def holding_def Let_def)
    moreover have "kept_sections oneshot (G @ [S]) = kept_sections oneshot G" using True by (cases G) (simp_all add: kept_sections_def)
    ultimately show ?thesis using assms(2) True by (simp add: holding_def)
  next
    case False
    then have k: "concat (kept_sections oneshot (G @ [S])) = concat (kept_sections oneshot G) @ S" by (auto simp: kept_sections_def)
    obtain b where b: "callback_write (df_buffer ?f) S [] = Ret b" "buffer_ready b" "buf_size b = buf_size (df_buffer ?f)"
      "buffer_contents b = concat (kept_sections oneshot G) @ S"
      using callback_write_fits [OF f(2), of S "[]"] assms(2,3) k by (auto simp: holding_def)
    then show ?thesis
      using assms(1,2) False f k
      by (auto simp: total_cb_def dvb_dmxdev_section_callback_def Let_def dev_upd_flt_def holding_def)
  qed
qed

lemma sec_cb_never_fails: "fst (sec_cb S b2 priv d) = 0"
proof -
  have "dvb_dmxdev_section_callback S b2 priv d = Ret x \<Longrightarrow> fst x = 0" for x
    by (auto simp: dvb_dmxdev_section_callback_def Let_def kbind_eq_Ret_iff split: option.splits if_splits)
  then show ?thesis by (simp add: total_cb_def split: kres.split)
qed

lemma offer_never_fails: "fst (offer sec_cb gs S d) = 0"
  by (induction gs arbitrary: d) (auto simp: Let_def case_prod_unfold sec_cb_never_fails)

text \<open>All sections of a stream, for a feed with one filter.\<close>

lemma offer_all_holding:
  assumes "i < length (dd_filter d)" "holding oneshot G (dd_filter d ! i)" "filter_priv g = Some i"
    "\<forall>S\<in>set Ss. section_valid crc S"
    "length (concat (kept_sections oneshot (G @ filter (section_matches g) Ss))) < buf_size (df_buffer (dd_filter d ! i))"
  shows "i < length (dd_filter (offer_all crc sec_cb [g] Ss d)) \<and>
    holding oneshot (G @ filter (section_matches g) Ss) (dd_filter (offer_all crc sec_cb [g] Ss d) ! i)"
  using assms
proof (induction Ss arbitrary: d G)
  case Nil
  then show ?case by (simp add: offer_all_def)
next
  case (Cons S Ss)
  show ?case
  proof (cases "section_matches g S")
    case False
    then have "offer_all crc sec_cb [g] (S # Ss) d = offer_all crc sec_cb [g] Ss d" by (simp add: offer_all_def)
    then show ?thesis using Cons.IH [of d G] Cons.prems False by simp
  next
    case True
    have le: "length (concat (kept_sections oneshot (G @ [S]))) \<le> length (concat (kept_sections oneshot (G @ filter (section_matches g) (S # Ss))))"
      using True by (cases G) (simp_all add: kept_sections_def)
    obtain d' where d': "sec_cb S [] (Some i) d = (0, d')" "length (dd_filter d') = length (dd_filter d)"
      "holding oneshot (G @ [S]) (dd_filter d' ! i)" "buf_size (df_buffer (dd_filter d' ! i)) = buf_size (df_buffer (dd_filter d ! i))"
      using sec_cb_holding [OF Cons.prems(1,2), of S] le Cons.prems(5) by fastforce
    then have "offer_all crc sec_cb [g] (S # Ss) d = offer_all crc sec_cb [g] Ss d'"
      using True Cons.prems(3,4) by (simp add: offer_all_def)
    then show ?thesis using Cons.IH [of d' "G @ [S]"] Cons.prems d' True by simp
  qed
qed

section \<open>What the reads take out\<close>

text \<open>A number of reads of a filter that do not block, one after the other.\<close>

fun demux_reads :: "nat \<Rightarrow> nat \<Rightarrow> nat \<Rightarrow> nat \<Rightarrow> ((int \<times> bytes) list, 'h) sysop" where
  "demux_reads i cap count 0 s = Ret ([], s)"
| "demux_reads i cap count (Suc n) s =
     kbind (dvb_demux_read i True cap count [] s) (\<lambda>(r, s).
       kbind (demux_reads i cap count n s) (\<lambda>(rs, s). Ret (r # rs, s)))"

definition readable :: "nat \<Rightarrow> bytes list \<Rightarrow> 'h dmxsys \<Rightarrow> bool" where
  "readable i G s \<longleftrightarrow> sys_sigs s = [] \<and> i < length (dd_filter (sys_dev s)) \<and> df_type (flt s i) = DMXDEV_TYPE_SEC \<and>
     \<not> df_mutex (flt s i) \<and> df_todo (flt s i) = 0 \<and> length (df_secheader (flt s i)) = 3 \<and>
     buffer_ready (df_buffer (flt s i)) \<and> buffer_contents (df_buffer (flt s i)) = concat G"

lemma read_nothing:
  assumes "readable i [] s" "count \<noteq> 0"
  shows "\<exists>s'. dvb_demux_read i True cap count [] s = Ret ((- EWOULDBLOCK, []), s')"
proof -
  let ?b = "df_buffer (flt s i)"
  have "buf_data ?b \<noteq> None" "buf_error ?b = 0" "buf_pwrite ?b = buf_pread ?b"
    using assms(1) buffer_empty_iff [of ?b] by (auto simp: readable_def buffer_ready_def buffer_inv_def)
  then show ?thesis
    using assms
    by (auto simp: dvb_demux_read_def filter_locked_def next_sig_def pop_sig_def flt_def upd_flt_def upd_dev_def dev_upd_flt_def
        dvb_dmxdev_read_sec_def dvb_dmxdev_buffer_read_def readable_def Let_def)
qed

lemma read_sec_rest_frame:
  assumes "read_sec_rest f nb cap k xs count ws = Ret (r, out, f')"
  shows "df_type f' = df_type f"
proof -
  define n where "n = (if int count > df_todo f then nat (df_todo f) else count)"
  show ?thesis
  proof (cases "dvb_dmxdev_buffer_read (df_buffer f) nb (cap - length xs) n ws")
    case (Ret a)
    then show ?thesis using assms by (cases a) (auto simp: read_sec_rest_def Let_def n_def [symmetric] split: if_splits)
  qed (use assms in \<open>simp_all add: read_sec_rest_def n_def Let_def\<close>)
qed

lemma read_sec_frame:
  assumes "dvb_dmxdev_read_sec f nb cap count ws = Ret (r, out, f')"
  shows "df_type f' = df_type f"
proof (cases "df_todo f \<le> 0")
  case False
  then show ?thesis using assms by (simp add: dvb_dmxdev_read_sec_def read_sec_rest_frame)
next
  case True
  define n where "n = (if nat (3 + df_todo f) > count then count else nat (3 + df_todo f))"
  obtain k xs b ws' where r: "dvb_dmxdev_buffer_read (df_buffer f) nb cap n ws = Ret (k, xs, b, ws')"
    using assms True by (cases "dvb_dmxdev_buffer_read (df_buffer f) nb cap n ws")
      (auto simp: dvb_dmxdev_read_sec_def n_def Let_def)
  show ?thesis
  proof (cases "k < 0")
    case True
    then show ?thesis using assms \<open>df_todo f \<le> 0\<close> r by (auto simp: dvb_dmxdev_read_sec_def n_def Let_def)
  next
    case False
    note eq = dvb_dmxdev_read_sec_def Let_def n_def [symmetric] r
    obtain h where "memcpy (df_secheader f) (nat (- df_todo f)) xs 0 (nat k) = Ret h"
      using assms \<open>df_todo f \<le> 0\<close> False by (cases "memcpy (df_secheader f) (nat (- df_todo f)) xs 0 (nat k)") (simp_all add: eq)
    then show ?thesis
      using assms \<open>df_todo f \<le> 0\<close> False by (auto simp: eq dest!: read_sec_rest_frame split: if_splits)
  qed
qed

lemma read_next:
  assumes "readable i (S # G) s" "well_framed S" "length S \<le> count" "length S \<le> cap"
  shows "\<exists>s'. dvb_demux_read i True cap count [] s = Ret ((int (length S), S), s') \<and> readable i G s'"
proof -
  let ?f = "(flt s i)\<lparr>df_mutex := True\<rparr>"
  have r: "sys_sigs s = []" "i < length (dd_filter (sys_dev s))" "df_type (flt s i) = DMXDEV_TYPE_SEC" "\<not> df_mutex (flt s i)"
    using assms(1) by (simp_all add: readable_def)
  have "reading_at S 0 (concat G) ?f" using assms(1) by (simp add: readable_def reading_at_def)
  moreover have "count \<noteq> 0" "0 < length S" using assms(2,3) by (auto simp: well_framed_def)
  ultimately obtain f' where f': "dvb_dmxdev_read_sec ?f True cap count [] = Ret (int (length S), S, f')"
    "reading_at S (length S) (concat G) f'"
    using read_sec_step [of S 0 "concat G" ?f count "length S" cap True "[]"] assms(2-4) by auto
  have "df_type f' = DMXDEV_TYPE_SEC" using read_sec_frame [OF f'(1)] r(3) by simp
  moreover have "df_todo f' = 0" "length (df_secheader f') = 3" "buffer_ready (df_buffer f')" "buffer_contents (df_buffer f') = concat G"
    using f'(2) assms(2) by (simp_all add: reading_at_def well_framed_def)
  ultimately show ?thesis
    using f'(1) r by (auto simp: dvb_demux_read_def filter_locked_def next_sig_def pop_sig_def flt_def upd_flt_def
      upd_dev_def dev_upd_flt_def readable_def Let_def)
qed

lemma reads_all:
  assumes "readable i G s" "\<forall>S\<in>set G. well_framed S \<and> length S \<le> count \<and> length S \<le> cap" "count \<noteq> 0"
  shows "\<exists>s'. demux_reads i cap count (Suc (length G)) s = Ret (map (\<lambda>S. (int (length S), S)) G @ [(- EWOULDBLOCK, [])], s')"
  using assms
proof (induction G arbitrary: s)
  case Nil
  then show ?case using read_nothing [of i s count cap] by auto
next
  case (Cons S G)
  obtain s1 where s1: "dvb_demux_read i True cap count [] s = Ret ((int (length S), S), s1)" "readable i G s1"
    using read_next [OF Cons.prems(1), of count cap] Cons.prems(2) by (meson list.set_intros(1))
  then show ?case using Cons.IH [of s1] Cons.prems(2,3) by auto
qed

section \<open>From the packets to the reads\<close>

lemma served_sections_readable:
  assumes "serves demux fd pid crc i p" "i < length (dd_filter d)" "holding oneshot [] (dd_filter d ! i)" "carried pkts Ss"
    "\<forall>S\<in>set Ss. 18 \<le> length S \<and> section_valid crc S"
    "length (concat (kept_sections oneshot (filter (user_match p) Ss))) < buf_size (df_buffer (dd_filter d ! i))"
  shows "\<exists>feed' d'. feed_packets demux fd (feeds demux ! fd) pkts d = Ret (feed', d') \<and>
    (\<forall>s2. sys_dev s2 = d' \<and> sys_sigs s2 = [] \<longrightarrow> readable i (kept_sections oneshot (filter (user_match p) Ss)) s2)"
proof -
  let ?f = "feeds demux ! fd"
  obtain l where l: "running (filters demux) [l] ?f" "filter_priv (filters demux ! l) = Some i"
    "\<forall>S. section_matches (filters demux ! l) S \<longleftrightarrow> user_match p S"
    and f: "feed_type ?f = DMX_TYPE_SEC" "cb_sec ?f = sec_cb" "secbufp ?f = 0" "length (secbuf ?f) = 4096" "check_crc ?f = crc"
    using assms(1) unfolding serves_def by blast
  let ?g = "filters demux ! l"
  have same: "filter (section_matches ?g) Ss = filter (user_match p) Ss" using l(3) by (intro filter_cong) simp_all
  have cov: "\<forall>k\<in>set [l]. \<forall>S\<in>set Ss. covers (filters demux ! k) S" using assms(5) by (simp add: covers_long)
  have rel: "reliable (check_crc ?f) (cb_sec ?f) (map ((!) (filters demux)) [l]) Ss"
    using assms(5) f(2,5) by (simp add: reliable_def offer_never_fails del: offer.simps)
  let ?d = "offer_all crc sec_cb [?g] Ss d"
  obtain feed' where "feed_packets demux fd ?f pkts d = Ret (feed', ?d)"
    using carried_offers [OF assms(4) l(1) f(1,4,3) cov rel, of fd d] f(2,5) by auto
  moreover have "i < length (dd_filter ?d) \<and> holding oneshot (filter (user_match p) Ss) (dd_filter ?d ! i)"
    using offer_all_holding [OF assms(2,3) l(2), of Ss crc] assms(5,6) same by simp
  ultimately show ?thesis by (auto simp: readable_def holding_def flt_def)
qed

end
