(* ===== verification/DVB_Frontend.thy ===== *)
theory DVB_Frontend
  imports DVB_Dev DVB_I2C "HOL-Library.Signed_Division"
begin

text \<open>
  \<^verbatim>\<open>dvb-core/dvb_frontend.c\<close>: the front end (tuner) devices. The hardware is driven by routines that
  other modules register: the \<open>ioctl\<close> of the tuner driver, and the \<open>before\<close> and \<open>after\<close> hooks of the
  adapter. They are arguments of the model, with the state \<open>'h\<close> of the hardware passed through them;
  so are the notifier of the adapter, the clock rate and the shutdown time-out (record \<open>fe_env\<close>).

  Routines that work on one front end take a call context \<open>'h fecall\<close>: the front end, the others on
  the list, the users of its device, the time, the signals that the next interruptible waits meet, and
  the hardware. The system state \<open>'h fesys\<close> has the allocated front ends, the list, the registered
  hooks, the adapters with their devices, and the kernel threads. The frequency, drift and bending
  variables are 32-bit words, compared as signed numbers; time stamps are 32-bit words. Semaphores are
  counters, since some paths raise them too often. The mutex of the lists is taken and released in
  every routine that uses it and is not part of the state.

  The kernel thread is split at the point where it sleeps: \<open>thread_start\<close> runs from the creation of the
  thread to its first sleep, \<open>thread_wake\<close> from one sleep to the next or to the end of the thread.
\<close>

section \<open>Parameters, events and front ends\<close>

datatype fe_type = FE_QPSK | FE_QAM | FE_OFDM

text \<open>The union of the modulation parameters is untagged; its first word is the symbol rate of QPSK.\<close>

record dvb_frontend_parameters =
  frequency :: u32
  inversion :: u32
  par_u0 :: u32
  par_u :: "u32 list"

abbreviation symbol_rate :: "dvb_frontend_parameters \<Rightarrow> u32" where "symbol_rate \<equiv> par_u0"

record dvb_frontend_info =
  info_name :: string
  info_type :: fe_type
  frequency_min :: u32
  frequency_max :: u32
  frequency_stepsize :: u32
  frequency_tolerance :: u32
  symbol_rate_min :: u32
  symbol_rate_max :: u32
  symbol_rate_tolerance :: u32
  notifier_delay :: u32
  caps :: u32

abbreviation FE_CAN_RECOVER :: u32 where "FE_CAN_RECOVER \<equiv> 0x20000000"
abbreviation FE_CAN_CLEAN_SETUP :: u32 where "FE_CAN_CLEAN_SETUP \<equiv> 0x40000000"
abbreviation FE_CAN_MUTE_TS :: u32 where "FE_CAN_MUTE_TS \<equiv> 0x80000000"

type_synonym fe_status = u32

abbreviation FE_HAS_LOCK :: fe_status where "FE_HAS_LOCK \<equiv> 0x10"
abbreviation FE_TIMEDOUT :: fe_status where "FE_TIMEDOUT \<equiv> 0x20"

record dvb_frontend_event =
  event_status :: fe_status
  event_parameters :: dvb_frontend_parameters

abbreviation MAX_EVENT :: nat where "MAX_EVENT \<equiv> 8"

record dvb_fe_events =
  events :: "dvb_frontend_event list"
  eventw :: nat
  eventr :: nat
  overflow :: bool
  events_sem :: nat

record dvb_frontend =
  before_ioctl :: "nat option"
  ioctl :: "nat option"
  after_ioctl :: "nat option"
  notifier_callback :: "nat option"
  i2c :: dvb_i2c_bus
  before_after_data :: nat
  notifier_data :: nat
  fe_data :: nat

text \<open>
  The data of a front end. The two counters are C integers, which count rounds of the thread; they are
  unbounded here.
\<close>

record dvb_frontend_data =
  info :: dvb_frontend_info
  frontend :: dvb_frontend
  dvbdev :: "nat option"
  parameters :: dvb_frontend_parameters
  fe_events :: dvb_fe_events
  fe_sem :: nat
  thread_pid :: nat
  release_jiffies :: u32
  lost_sync_jiffies :: u32
  bending :: u32
  lnb_drift :: u32
  timeout_count :: int
  lost_sync_count :: int
  fe_exit :: bool
  status :: fe_status

datatype fe_cmd = FE_GET_INFO | FE_DISEQC_RESET_OVERLOAD | FE_DISEQC_SEND_MASTER_CMD | FE_DISEQC_RECV_SLAVE_REPLY
  | FE_DISEQC_SEND_BURST | FE_SET_TONE | FE_SET_VOLTAGE | FE_ENABLE_HIGH_LNB_VOLTAGE | FE_READ_STATUS | FE_READ_BER
  | FE_READ_SIGNAL_STRENGTH | FE_READ_SNR | FE_READ_UNCORRECTED_BLOCKS | FE_SET_FRONTEND | FE_GET_FRONTEND
  | FE_GET_EVENT | FE_SLEEP | FE_INIT | FE_RESET | FE_OTHER nat

datatype fe_arg = Arg_null | Arg_params dvb_frontend_parameters | Arg_status fe_status | Arg_event dvb_frontend_event
  | Arg_raw bytes

fun params_of :: "dvb_frontend_parameters \<Rightarrow> fe_arg \<Rightarrow> dvb_frontend_parameters" where
  "params_of p (Arg_params q) = q"
| "params_of p _ = p"

fun status_of :: "fe_status \<Rightarrow> fe_arg \<Rightarrow> fe_status" where
  "status_of st (Arg_status t) = t"
| "status_of st _ = st"

text \<open>
  \<open>drv f frontend cmd arg h\<close> is a call of the routine at address \<open>f\<close>: its result, what it leaves at
  the argument pointer, and the new state of the hardware.
\<close>

record 'h fe_env =
  drv :: "nat \<Rightarrow> dvb_frontend \<Rightarrow> fe_cmd \<Rightarrow> fe_arg \<Rightarrow> 'h \<Rightarrow> int \<times> fe_arg \<times> 'h"
  notify :: "nat \<Rightarrow> fe_status \<Rightarrow> nat \<Rightarrow> 'h \<Rightarrow> 'h"
  HZ :: int
  dvb_shutdown_timeout :: int

record 'h fecall =
  this_fe :: dvb_frontend_data
  others :: "dvb_frontend_data list"
  writers :: "int option"
  jiffies :: u32
  sigs :: "bool list"
  hw :: 'h

definition next_sig :: "'h fecall \<Rightarrow> bool \<times> 'h fecall" where
  "next_sig c = (case sigs c of [] \<Rightarrow> (False, c) | b # bs \<Rightarrow> (b, c\<lparr>sigs := bs\<rparr>))"

definition upd_fe :: "(dvb_frontend_data \<Rightarrow> dvb_frontend_data) \<Rightarrow> 'h fecall \<Rightarrow> 'h fecall" where
  "upd_fe f c = c\<lparr>this_fe := f (this_fe c)\<rparr>"

text \<open>
  The semaphore of a front end. A signal ends the wait for it; the wait itself is not modelled: a
  signal in the list stands for one that arrives while another thread holds the semaphore, and the
  count is the one after that thread has released it.
\<close>

definition down_fe :: "'h fecall \<Rightarrow> (bool \<times> 'h fecall) kres" where
  "down_fe c =
     (let (sig, c) = next_sig c
      in if sig then Ret (False, c)
         else if fe_sem (this_fe c) = 0 then Hang
         else Ret (True, upd_fe (\<lambda>fe. fe\<lparr>fe_sem := fe_sem fe - 1\<rparr>) c))"

definition up_fe :: "'h fecall \<Rightarrow> 'h fecall" where
  "up_fe c = upd_fe (\<lambda>fe. fe\<lparr>fe_sem := fe_sem fe + 1\<rparr>) c"

section \<open>The routines on one front end\<close>

definition dvb_frontend_internal_ioctl ::
  "'h fe_env \<Rightarrow> dvb_frontend \<Rightarrow> fe_cmd \<Rightarrow> fe_arg \<Rightarrow> 'h \<Rightarrow> (int \<times> fe_arg \<times> 'h) kres" where
  "dvb_frontend_internal_ioctl env fe cmd arg h =
     (let (err, arg, h) = (case before_ioctl fe of
            None \<Rightarrow> (- EOPNOTSUPP, arg, h) | Some f \<Rightarrow> drv env f fe cmd arg h)
      in if err = - EOPNOTSUPP
         then case ioctl fe of
             None \<Rightarrow> Oops
           | Some f \<Rightarrow>
               let (err, arg, h) = drv env f fe cmd arg h
               in case after_ioctl fe of
                    None \<Rightarrow> Ret (err, arg, h)
                  | Some g \<Rightarrow> if err = - EOPNOTSUPP then Ret (drv env g fe cmd arg h) else Ret (err, arg, h)
         else Ret (err, arg, h))"

definition call_driver :: "'h fe_env \<Rightarrow> fe_cmd \<Rightarrow> fe_arg \<Rightarrow> 'h fecall \<Rightarrow> (int \<times> fe_arg \<times> 'h fecall) kres" where
  "call_driver env cmd arg c =
     kbind (dvb_frontend_internal_ioctl env (frontend (this_fe c)) cmd arg (hw c)) (\<lambda>(err, arg, h).
       Ret (err, arg, c\<lparr>hw := h\<rparr>))"

subsection \<open>Interference of two tuners\<close>

definition tuned_to :: "dvb_frontend_data \<Rightarrow> u32" where
  "tuned_to fe = frequency (parameters fe) + lnb_drift fe + bending fe"

definition interferes :: "dvb_frontend_data \<Rightarrow> dvb_frontend_data \<Rightarrow> bool" where
  "interferes this fe \<longleftrightarrow>
     bus_adapter (i2c (frontend fe)) = bus_adapter (i2c (frontend this)) \<and> lost_sync_count fe \<noteq> - 1 \<and>
     tuned_to fe - frequency_stepsize (info this) <s tuned_to this \<and>
     tuned_to this <s tuned_to fe + frequency_stepsize (info this)"

text \<open>The recursion of \<^verbatim>\<open>dvb_bend_frequency\<close>, from depth \<open>recursive\<close> on.\<close>

function bend_rec :: "nat \<Rightarrow> dvb_frontend_data list \<Rightarrow> dvb_frontend_data \<Rightarrow> dvb_frontend_data" where
  "bend_rec recursive fes this =
     (let stepsize = frequency_stepsize (info this)
      in if stepsize = 0 \<or> recursive > 10 then this
         else if list_ex (interferes this) fes
         then bend_rec (recursive + 1) fes
           (this\<lparr>bending := (if recursive mod 2 = 1 then bending this + stepsize else - bending this)\<rparr>)
         else this)"
  by pat_completeness auto
termination
  by (relation "measure (\<lambda>(r, fes, this). 11 - r)") auto

declare bend_rec.simps [simp del]

definition dvb_bend_frequency :: "'h fecall \<Rightarrow> 'h fecall" where
  "dvb_bend_frequency c =
     (if frequency_stepsize (info (this_fe c)) = 0 then c
      else
        let (sig, c) = next_sig c
        in if sig then c else upd_fe (\<lambda>fe. bend_rec 0 (others c) (fe\<lparr>bending := 0\<rparr>)) c)"

subsection \<open>Events\<close>

text \<open>
  The delay before the notifier of a front end that has got its lock is left out: it changes no state.
\<close>

definition dvb_call_frontend_notifiers :: "'h fe_env \<Rightarrow> fe_status \<Rightarrow> 'h fecall \<Rightarrow> 'h fecall" where
  "dvb_call_frontend_notifiers env st c =
     (let c = (if status (this_fe c) AND FE_HAS_LOCK \<noteq> 0 \<and> st AND FE_HAS_LOCK = 0
               then upd_fe (\<lambda>fe. fe\<lparr>lost_sync_jiffies := jiffies c\<rparr>) c else c);
          c = upd_fe (\<lambda>fe. fe\<lparr>status := st\<rparr>) c;
          fe = this_fe c
      in if st AND FE_HAS_LOCK = 0 \<and> caps (info fe) AND FE_CAN_MUTE_TS \<noteq> 0 then c
         else case notifier_callback (frontend fe) of
             None \<Rightarrow> c
           | Some f \<Rightarrow> c\<lparr>hw := notify env f st (notifier_data (frontend fe)) (hw c)\<rparr>)"

text \<open>The queue part of \<^verbatim>\<open>dvb_frontend_add_event\<close>: make room, and fill the slot at the write index.\<close>

definition make_room :: "dvb_fe_events \<Rightarrow> dvb_fe_events" where
  "make_room ev =
     (if (eventw ev + 1) mod MAX_EVENT = eventr ev
      then ev\<lparr>overflow := True, eventr := (eventr ev + 1) mod MAX_EVENT\<rparr> else ev)"

definition fill_slot :: "dvb_frontend_event \<Rightarrow> dvb_fe_events \<Rightarrow> dvb_fe_events" where
  "fill_slot e ev = ev\<lparr>events := (events ev)[eventw ev := e], eventw := (eventw ev + 1) mod MAX_EVENT\<rparr>"

definition dvb_frontend_add_event :: "'h fe_env \<Rightarrow> fe_status \<Rightarrow> 'h fecall \<Rightarrow> 'h fecall kres" where
  "dvb_frontend_add_event env st c =
     (let (sig, c) = next_sig c
      in if sig then Ret c
         else if events_sem (fe_events (this_fe c)) = 0 then Hang
         else
           let c = upd_fe (\<lambda>fe. fe\<lparr>fe_events := make_room (fe_events fe)\<rparr>) c;
               p = parameters (this_fe c)
           in kbind (if st AND FE_HAS_LOCK \<noteq> 0
               then kbind (call_driver env FE_GET_FRONTEND (Arg_params p) c) (\<lambda>(err, arg, c). Ret (params_of p arg, c))
               else Ret (p, c)) (\<lambda>(p, c).
             let e = \<lparr>event_status = st, event_parameters = p\<rparr>;
                 c = upd_fe (\<lambda>fe. fe\<lparr>fe_events := fill_slot e (fe_events fe)\<rparr>) c
             in Ret (dvb_call_frontend_notifiers env st c)))"

text \<open>
  The wait for an event: \<open>ws\<close> lists what other threads do to the context between the wake-ups. A
  reader that is woken no more waits forever.
\<close>

fun wait_event :: "('h fecall \<Rightarrow> 'h fecall) list \<Rightarrow> 'h fecall \<Rightarrow> (int \<times> 'h fecall) kres" where
  "wait_event ws c =
     (if eventw (fe_events (this_fe c)) \<noteq> eventr (fe_events (this_fe c)) then Ret (0, c)
      else
        let (sig, c) = next_sig c
        in if sig then Ret (- ERESTARTSYS, c)
           else case ws of [] \<Rightarrow> Hang | w # ws \<Rightarrow> wait_event ws (w c))"

declare wait_event.simps [simp del]

text \<open>The last part of \<^verbatim>\<open>dvb_frontend_get_event\<close>: take the oldest event.\<close>

definition take_event :: "'h fecall \<Rightarrow> (int \<times> dvb_frontend_event option \<times> 'h fecall) kres" where
  "take_event c =
     (let (sig, c) = next_sig c; ev = fe_events (this_fe c)
      in if sig then Ret (- ERESTARTSYS, None, c)
         else if events_sem ev = 0 then Hang
         else if length (events ev) \<le> eventr ev then Oops
         else Ret (0, Some (events ev ! eventr ev),
           upd_fe (\<lambda>fe. fe\<lparr>fe_events := ev\<lparr>eventr := (eventr ev + 1) mod MAX_EVENT\<rparr>\<rparr>) c))"

definition dvb_frontend_get_event ::
  "bool \<Rightarrow> ('h fecall \<Rightarrow> 'h fecall) list \<Rightarrow> 'h fecall \<Rightarrow> (int \<times> dvb_frontend_event option \<times> 'h fecall) kres" where
  "dvb_frontend_get_event nonblock ws c =
     (let ev = fe_events (this_fe c)
      in if overflow ev
         then Ret (- EOVERFLOW, None, upd_fe (\<lambda>fe. fe\<lparr>fe_events := ev\<lparr>overflow := False\<rparr>\<rparr>) c)
         else if eventw ev = eventr ev
         then
           if nonblock then Ret (- EWOULDBLOCK, None, c)
           else kbind (wait_event ws (up_fe c)) (\<lambda>(ret, c).
             kbind (down_fe c) (\<lambda>(ok, c).
               if \<not> ok then Ret (- ERESTARTSYS, None, c)
               else if ret < 0 then Ret (ret, None, c)
               else take_event c))
         else take_event c)"

subsection \<open>Tuning\<close>

text \<open>
  The result carries the parameters at \<open>param\<close> after the call. In \<open>dvb_frontend_recover\<close> the pointer is
  that of the parameters of the front end itself, which are therefore replaced there by the result.
\<close>

definition dvb_frontend_set_parameters ::
  "'h fe_env \<Rightarrow> dvb_frontend_parameters \<Rightarrow> bool \<Rightarrow> 'h fecall \<Rightarrow> (int \<times> dvb_frontend_parameters \<times> 'h fecall) kres" where
  "dvb_frontend_set_parameters env param first_trial c =
     kbind (if first_trial
       then
         let c = upd_fe (\<lambda>fe. fe\<lparr>timeout_count := 0, lost_sync_count := 0, lost_sync_jiffies := jiffies c, lnb_drift := 0\<rparr>) c
         in kbind (if status (this_fe c) AND NOT FE_TIMEDOUT \<noteq> 0 then dvb_frontend_add_event env 0 c else Ret c)
           (\<lambda>c. Ret (upd_fe (\<lambda>fe. fe\<lparr>parameters := param\<rparr>) c))
       else Ret c) (\<lambda>c.
     let c = dvb_bend_frequency c;
         offset = lnb_drift (this_fe c) + bending (this_fe c);
         param = param\<lparr>frequency := frequency param + offset\<rparr>
     in kbind (call_driver env FE_SET_FRONTEND (Arg_params param) c) (\<lambda>(err, arg, c).
       let param = params_of param arg
       in Ret (err, param\<lparr>frequency := frequency param - offset\<rparr>, c)))"

definition dvb_frontend_init :: "'h fe_env \<Rightarrow> 'h fecall \<Rightarrow> 'h fecall kres" where
  "dvb_frontend_init env c = kbind (call_driver env FE_INIT Arg_null c) (\<lambda>(err, arg, c). Ret c)"

definition update_delay :: "int \<Rightarrow> int \<Rightarrow> bool \<Rightarrow> int \<times> int" where
  "update_delay hz quality locked =
     (let quality = (if locked then (quality * 220 + 36 * 256) sdiv 256 else (quality * 220 + 0) sdiv 256);
          q2 = (quality - 128) * (quality - 128)
      in (quality, hz sdiv 20 + (q2 * hz) sdiv (128 * 128)))"

definition drift_stepsize :: "dvb_frontend_data \<Rightarrow> u32" where
  "drift_stepsize fe =
     (case info_type (info fe) of
        FE_QPSK \<Rightarrow> symbol_rate (parameters fe) div 16000
      | FE_QAM \<Rightarrow> 0
      | FE_OFDM \<Rightarrow> frequency_stepsize (info fe) * 2)"

definition next_drift :: "int \<Rightarrow> u32 \<Rightarrow> u32 \<Rightarrow> u32" where
  "next_drift j stepsize drift =
     (if j smod 32 = 0 then 0 else - drift + (if j smod 2 \<noteq> 0 then stepsize else 0))"

definition dvb_frontend_recover :: "'h fe_env \<Rightarrow> 'h fecall \<Rightarrow> 'h fecall kres" where
  "dvb_frontend_recover env c =
     (let c = upd_fe (\<lambda>fe. fe\<lparr>lnb_drift := next_drift (lost_sync_count fe) (drift_stepsize fe) (lnb_drift fe)\<rparr>) c
      in kbind (dvb_frontend_set_parameters env (parameters (this_fe c)) False c) (\<lambda>(err, param, c).
        let c = upd_fe (\<lambda>fe. fe\<lparr>parameters := param\<rparr>) c
        in kbind (call_driver env FE_RESET Arg_null c) (\<lambda>(err, arg, c). Ret c)))"

subsection \<open>The kernel thread\<close>

text \<open>
  \<^verbatim>\<open>dvbdev->writers\<close> is a field of the device structure, which is gone once the device is
  unregistered (\<open>writers\<close> is \<^const>\<open>None\<close>).
\<close>

definition dvb_frontend_is_exiting :: "'h fe_env \<Rightarrow> 'h fecall \<Rightarrow> bool kres" where
  "dvb_frontend_is_exiting env c =
     (if fe_exit (this_fe c) then Ret True
      else case writers c of
          None \<Rightarrow> Oops
        | Some w \<Rightarrow>
            Ret (w = 1 \<and> jiffies c - release_jiffies (this_fe c) > word_of_int (dvb_shutdown_timeout env * HZ env)))"

text \<open>The local variables of the thread; \<open>th_s\<close> is not initialised by the code.\<close>

record fe_thread =
  th_quality :: int
  th_delay :: int
  th_s :: fe_status

datatype thread_state = Asleep fe_thread | Exited

definition thread_exit :: "'h fe_env \<Rightarrow> 'h fecall \<Rightarrow> (thread_state \<times> 'h fecall) kres" where
  "thread_exit env c =
     kbind (if dvb_shutdown_timeout env \<noteq> 0
       then kbind (call_driver env FE_SLEEP Arg_null c) (\<lambda>(err, arg, c). Ret c) else Ret c) (\<lambda>c.
     Ret (Exited, upd_fe (\<lambda>fe. fe\<lparr>thread_pid := 0\<rparr>) (up_fe c)))"

definition thread_top :: "'h fe_env \<Rightarrow> fe_thread \<Rightarrow> 'h fecall \<Rightarrow> (thread_state \<times> 'h fecall) kres" where
  "thread_top env th c =
     kbind (dvb_frontend_is_exiting env c) (\<lambda>ex. if ex then thread_exit env c else Ret (Asleep th, up_fe c))"

definition thread_start :: "'h fe_env \<Rightarrow> fe_status \<Rightarrow> 'h fecall \<Rightarrow> (thread_state \<times> 'h fecall) kres" where
  "thread_start env junk c =
     (let c = upd_fe (\<lambda>fe. fe\<lparr>lost_sync_count := - 1\<rparr>) c;
          c = dvb_call_frontend_notifiers env 0 c
      in kbind (dvb_frontend_init env c) (thread_top env \<lparr>th_quality = 0, th_delay = 3 * HZ env, th_s = junk\<rparr>))"

definition thread_timeout :: "'h fe_env \<Rightarrow> fe_status \<Rightarrow> 'h fecall \<Rightarrow> fe_status \<times> 'h fecall" where
  "thread_timeout env st c =
     (if jiffies c - lost_sync_jiffies (this_fe c) > word_of_int (2 * HZ env)
      then (st OR FE_TIMEDOUT,
        if status (this_fe c) AND FE_TIMEDOUT = 0 then upd_fe (\<lambda>fe. fe\<lparr>timeout_count := timeout_count fe + 1\<rparr>) c else c)
      else (st, c))"

definition thread_report :: "'h fe_env \<Rightarrow> fe_thread \<Rightarrow> 'h fecall \<Rightarrow> (fe_thread \<times> 'h fecall) kres" where
  "thread_report env th c =
     kbind (if th_s th \<noteq> status (this_fe c) then dvb_frontend_add_event env (th_s th) c else Ret c) (\<lambda>c. Ret (th, c))"

definition thread_unlocked :: "'h fe_env \<Rightarrow> fe_thread \<Rightarrow> 'h fecall \<Rightarrow> (fe_thread \<times> 'h fecall) kres" where
  "thread_unlocked env th c =
     (let c = upd_fe (\<lambda>fe. fe\<lparr>lost_sync_count := lost_sync_count fe + 1\<rparr>) c;
          cs = caps (info (this_fe c));
          finish = (\<lambda>th c. let (st, c) = thread_timeout env (th_s th) c in thread_report env (th\<lparr>th_s := st\<rparr>) c)
      in if cs AND FE_CAN_RECOVER = 0
         then
           if cs AND FE_CAN_CLEAN_SETUP = 0 \<and> lost_sync_count (this_fe c) < 10 then Ret (th, c)
           else kbind (dvb_frontend_recover env c) (\<lambda>c. finish (th\<lparr>th_delay := HZ env sdiv 5\<rparr>) c)
         else finish th c)"

definition thread_body :: "'h fe_env \<Rightarrow> fe_thread \<Rightarrow> 'h fecall \<Rightarrow> (fe_thread \<times> 'h fecall) kres" where
  "thread_body env th c =
     kbind (call_driver env FE_READ_STATUS (Arg_status (th_s th)) c) (\<lambda>(err, arg, c).
       let st = status_of (th_s th) arg;
           (quality, delay) = update_delay (HZ env) (th_quality th) (st AND FE_HAS_LOCK \<noteq> 0);
           th = \<lparr>th_quality = quality, th_delay = delay, th_s = st AND NOT FE_TIMEDOUT\<rparr>
       in if th_s th AND FE_HAS_LOCK \<noteq> 0
          then thread_report env th (upd_fe (\<lambda>fe. fe\<lparr>timeout_count := 0, lost_sync_count := 0\<rparr>) c)
          else thread_unlocked env th c)"

text \<open>\<open>sig_pending\<close> says whether the thread finds a signal after its sleep.\<close>

definition thread_wake :: "'h fe_env \<Rightarrow> bool \<Rightarrow> fe_thread \<Rightarrow> 'h fecall \<Rightarrow> (thread_state \<times> 'h fecall) kres" where
  "thread_wake env sig_pending th c =
     (if sig_pending then thread_exit env c
      else kbind (down_fe c) (\<lambda>(ok, c).
        if \<not> ok then thread_exit env c
        else if lost_sync_count (this_fe c) = - 1 then thread_top env th c
        else kbind (dvb_frontend_is_exiting env c) (\<lambda>ex.
          if ex then thread_exit env c
          else kbind (thread_body env th c) (\<lambda>(th, c). thread_top env th c))))"

subsection \<open>Commands of applications\<close>

definition frontend_command ::
  "'h fe_env \<Rightarrow> bool \<Rightarrow> ('h fecall \<Rightarrow> 'h fecall) list \<Rightarrow> fe_cmd \<Rightarrow> fe_arg \<Rightarrow> 'h fecall \<Rightarrow> (int \<times> fe_arg \<times> 'h fecall) kres" where
  "frontend_command env nonblock ws cmd arg c =
     (let pass = (\<lambda>arg c. kbind (call_driver env cmd arg c) (\<lambda>(err, arg, c). Ret (0, arg, c)))
      in if cmd = FE_DISEQC_SEND_MASTER_CMD \<or> cmd = FE_DISEQC_SEND_BURST \<or> cmd = FE_SET_TONE
         then pass arg (if status (this_fe c) \<noteq> 0 then dvb_call_frontend_notifiers env 0 c else c)
         else if cmd = FE_SET_FRONTEND
         then
           (case arg of
              Arg_params p \<Rightarrow> kbind (dvb_frontend_set_parameters env p True c) (\<lambda>(err, p, c). Ret (err, Arg_params p, c))
            | _ \<Rightarrow> Oops)
         else if cmd = FE_GET_EVENT
         then kbind (dvb_frontend_get_event nonblock ws c) (\<lambda>(err, e, c).
           Ret (err, case e of None \<Rightarrow> arg | Some e \<Rightarrow> Arg_event e, c))
         else if cmd = FE_GET_FRONTEND then pass (Arg_params (parameters (this_fe c))) c
         else pass arg c)"

definition dvb_frontend_ioctl ::
  "'h fe_env \<Rightarrow> bool \<Rightarrow> ('h fecall \<Rightarrow> 'h fecall) list \<Rightarrow> fe_cmd \<Rightarrow> fe_arg \<Rightarrow> 'h fecall \<Rightarrow> (int \<times> fe_arg \<times> 'h fecall) kres" where
  "dvb_frontend_ioctl env nonblock ws cmd arg c =
     (if ioctl (frontend (this_fe c)) = None \<or> fe_exit (this_fe c) then Ret (- ENODEV, arg, c)
      else kbind (down_fe c) (\<lambda>(ok, c).
        if \<not> ok then Ret (- ERESTARTSYS, arg, c)
        else kbind (frontend_command env nonblock ws cmd arg c) (\<lambda>(err, arg, c). Ret (err, arg, up_fe c))))"

definition dvb_frontend_poll :: "dvb_frontend_data \<Rightarrow> bool" where
  "dvb_frontend_poll fe = (eventw (fe_events fe) \<noteq> eventr (fe_events fe))"

end
