(* ===== verification/DVB_Tuning.thy ===== *)
theory DVB_Tuning
  imports DVB_Frontend
begin

text \<open>
  What the tuning routines of \<open>DVB_Frontend\<close> do: the search for a frequency that does not
  interfere with other tuners, the scan around the frequency when the signal is lost, and the pace of the
  kernel thread.
\<close>

section \<open>Interference of two tuners\<close>

lemma bend_rec_step:
  "bend_rec r fes (fe\<lparr>bending := b\<rparr>) =
     (if frequency_stepsize (info fe) = 0 \<or> r > 10 then fe\<lparr>bending := b\<rparr>
      else if list_ex (interferes (fe\<lparr>bending := b\<rparr>)) fes
      then bend_rec (r + 1) fes (fe\<lparr>bending := (if r mod 2 = 1 then b + frequency_stepsize (info fe) else - b)\<rparr>)
      else fe\<lparr>bending := b\<rparr>)"
  by (subst bend_rec.simps) (simp add: Let_def)

text \<open>
  The recursion tries the offsets \<open>0\<close>, \<open>0\<close>, \<open>s\<close>, \<open>-s\<close>, and from then on the same ones again.
\<close>

lemma bend_rec_result:
  fixes fe :: dvb_frontend_data and fes :: "dvb_frontend_data list"
  defines "P b \<equiv> list_ex (interferes (fe\<lparr>bending := b\<rparr>)) fes" and "s \<equiv> frequency_stepsize (info fe)"
  shows "s \<noteq> 0 \<Longrightarrow> bend_rec 0 fes (fe\<lparr>bending := 0\<rparr>) = fe\<lparr>bending := (if \<not> P 0 then 0 else if \<not> P s then s else - s)\<rparr>"
  unfolding P_def s_def by (simp add: bend_rec_step)

text \<open>
  C25. The search for a frequency that does not interfere with another tuner of the adapter ends, and
  chooses the first of the offsets none, one step up and one step down that keeps the tuner at least one
  step away from the others. When all three interfere, it stays one step down: the sixth and later
  rounds of the recursion only repeat these offsets.
\<close>

theorem bend_frequency_result:
  fixes c :: "'h fecall"
  defines "fe \<equiv> this_fe c" and "P b \<equiv> list_ex (interferes ((this_fe c)\<lparr>bending := b\<rparr>)) (others c)"
    and "s \<equiv> frequency_stepsize (info (this_fe c))"
  assumes "s \<noteq> 0" "sigs c = []"
  shows "dvb_bend_frequency c = c\<lparr>this_fe := fe\<lparr>bending := (if \<not> P 0 then 0 else if \<not> P s then s else - s)\<rparr>\<rparr>"
  using assms by (simp add: dvb_bend_frequency_def next_sig_def upd_fe_def bend_rec_result)

section \<open>Example front ends\<close>

text \<open>A driver that never finds a signal and accepts every command.\<close>

definition ex_fe_env :: "nat fe_env" where
  "ex_fe_env = \<lparr>drv = (\<lambda>f fe cmd arg h. if cmd = FE_READ_STATUS then (0, Arg_status 3, h + 1) else (0, arg, h + 1)),
     notify = (\<lambda>f st d h. h), HZ = 100, dvb_shutdown_timeout = 5\<rparr>"

definition ex_params :: "u32 \<Rightarrow> dvb_frontend_parameters" where
  "ex_params f = \<lparr>frequency = f, inversion = 0, par_u0 = 27500000, par_u = []\<rparr>"

definition ex_info :: dvb_frontend_info where
  "ex_info = \<lparr>info_name = ''tuner'', info_type = FE_QPSK, frequency_min = 950000, frequency_max = 2150000,
     frequency_stepsize = 125, frequency_tolerance = 0, symbol_rate_min = 1000000, symbol_rate_max = 45000000,
     symbol_rate_tolerance = 0, notifier_delay = 0, caps = FE_CAN_CLEAN_SETUP\<rparr>"

definition ex_queue :: dvb_fe_events where
  "ex_queue = \<lparr>events = replicate 8 \<lparr>event_status = 0, event_parameters = ex_params 0\<rparr>, eventw = 0, eventr = 0, overflow = False,
     events_sem = 1\<rparr>"

definition ex_fe :: "u32 \<Rightarrow> dvb_frontend_data" where
  "ex_fe f = \<lparr>info = ex_info,
     frontend = \<lparr>before_ioctl = None, ioctl = Some 1, after_ioctl = None, notifier_callback = None, i2c = ex_bus 1,
       before_after_data = 0, notifier_data = 0, fe_data = 0\<rparr>,
     dvbdev = Some 1, parameters = ex_params f, fe_events = ex_queue, fe_sem = 1, thread_pid = 1, release_jiffies = 0,
     lost_sync_jiffies = 0, bending = 0, lnb_drift = 0, timeout_count = 0, lost_sync_count = 0, fe_exit = False, status = 0\<rparr>"

definition ex_call :: "u32 \<Rightarrow> u32 list \<Rightarrow> nat fecall" where
  "ex_call f fs = \<lparr>this_fe = ex_fe f, others = map ex_fe fs, writers = Some 0, jiffies = 0, sigs = [], hw = 0\<rparr>"

lemmas ex_fe_defs = ex_fe_env_def ex_params_def ex_info_def ex_queue_def ex_fe_def ex_call_def

theorem bend_frequency_result_witness:
  "bending (this_fe (dvb_bend_frequency (ex_call 1000000 [1000000]))) = 125 \<and>
   bending (this_fe (dvb_bend_frequency (ex_call 1000000 [1000000, 1000125]))) = - 125 \<and>
   bending (this_fe (dvb_bend_frequency (ex_call 1000000 [1000500]))) = 0"
proof -
  have "frequency_stepsize (info (this_fe (ex_call f fs))) \<noteq> 0" "sigs (ex_call f fs) = []" for f fs
    by (simp_all add: ex_call_def ex_fe_def ex_info_def)
  note b = bend_frequency_result [OF this]
  show ?thesis
    unfolding b by (simp add: ex_fe_defs interferes_def tuned_to_def ex_bus_def word_sless_alt)
qed

section \<open>The scan for a lost signal\<close>

text \<open>The drift after \<open>n\<close> rounds without lock: up and down in growing steps, starting again every 32 rounds.\<close>

definition zigzag :: "nat \<Rightarrow> u32 \<Rightarrow> u32" where
  "zigzag n stepsize =
     (let k = n mod 32 in if odd k then of_nat ((k + 1) div 2) * stepsize else - (of_nat (k div 2) * stepsize))"

lemma zigzag_0 [simp]: "zigzag 0 stepsize = 0"
  by (simp add: zigzag_def)

lemma smod_nat: "int n smod int m = int (n mod m)"
  by (cases "n = 0") (simp_all add: signed_modulo_int_def zmod_int sgn_if)

lemma zigzag_Suc: "zigzag (Suc n) stepsize = next_drift (int (Suc n)) stepsize (zigzag n stepsize)"
proof (cases "Suc n mod 32 = 0")
  case True
  then show ?thesis using smod_nat [of "Suc n" 32] by (simp add: zigzag_def next_drift_def)
next
  case False
  then have k: "Suc n mod 32 = Suc (n mod 32)" by (simp add: mod_Suc split: if_splits)
  have o: "Suc n mod 2 = Suc (n mod 32) mod 2" using k by (metis dvd_triv_left even_numeral mod_mod_cancel)
  show ?thesis
  proof (cases "odd (n mod 32)")
    case True
    then have "Suc n mod 2 = 0" using o by simp
    then show ?thesis
      using False k True smod_nat [of "Suc n" 32] smod_nat [of "Suc n" 2] by (simp add: zigzag_def next_drift_def Let_def)
  next
    case even: False
    then have "odd (Suc (n mod 32))" by simp
    then have "Suc n mod 2 = 1" by (simp only: odd_iff_mod_2_eq_one o)
    moreover have "of_nat ((Suc (n mod 32) + 1) div 2) = (of_nat (n mod 32 div 2) + 1 :: u32)" using even by auto
    ultimately show ?thesis
      using False k even smod_nat [of "Suc n" 32] smod_nat [of "Suc n" 2]
      by (simp add: zigzag_def next_drift_def Let_def algebra_simps)
  qed
qed

text \<open>
  A driver without signal: every command returns, tuning leaves the parameters alone, and the status
  has no lock. \<open>tunings\<close> observes the hardware: it lists the frequencies that it has been tuned to, so
  \<^verbatim>\<open>FE_SET_FRONTEND\<close> adds the frequency of its argument, and other commands and notifiers add nothing.
\<close>

definition tunes :: "fe_cmd \<Rightarrow> fe_arg \<Rightarrow> u32 list" where
  "tunes cmd arg = (if cmd = FE_SET_FRONTEND then case arg of Arg_params q \<Rightarrow> [frequency q] | _ \<Rightarrow> [] else [])"

definition blind_driver :: "'h fe_env \<Rightarrow> ('h \<Rightarrow> u32 list) \<Rightarrow> dvb_frontend \<Rightarrow> bool" where
  "blind_driver env tunings fe \<longleftrightarrow>
     (\<forall>cmd arg h. \<exists>err arg' h'. dvb_frontend_internal_ioctl env fe cmd arg h = Ret (err, arg', h') \<and>
       (cmd = FE_SET_FRONTEND \<longrightarrow> arg' = arg) \<and> (cmd = FE_READ_STATUS \<longrightarrow> (\<exists>st. arg' = Arg_status st \<and> st AND FE_HAS_LOCK = 0)) \<and>
       tunings h' = tunings h @ tunes cmd arg) \<and>
     (\<forall>f st data h. tunings (notify env f st data h) = tunings h)"

lemma blind_call:
  assumes "blind_driver env tunings (frontend (this_fe c))"
  shows "\<exists>err arg' h'. call_driver env cmd arg c = Ret (err, arg', c\<lparr>hw := h'\<rparr>) \<and>
    (cmd = FE_SET_FRONTEND \<longrightarrow> arg' = arg) \<and> (cmd = FE_READ_STATUS \<longrightarrow> (\<exists>st. arg' = Arg_status st \<and> st AND FE_HAS_LOCK = 0)) \<and>
    tunings h' = tunings (hw c) @ tunes cmd arg"
proof -
  obtain err arg' h' where d: "dvb_frontend_internal_ioctl env (frontend (this_fe c)) cmd arg (hw c) = Ret (err, arg', h')"
    "cmd = FE_SET_FRONTEND \<longrightarrow> arg' = arg" "cmd = FE_READ_STATUS \<longrightarrow> (\<exists>st. arg' = Arg_status st \<and> st AND FE_HAS_LOCK = 0)"
    "tunings h' = tunings (hw c) @ tunes cmd arg"
    using assms unfolding blind_driver_def by metis
  have "call_driver env cmd arg c = Ret (err, arg', c\<lparr>hw := h'\<rparr>)" by (simp add: call_driver_def d(1))
  then show ?thesis using d(2-4) by blast
qed

text \<open>No other front end on the bus is in use, and the front end is not bent away from one.\<close>

definition undisturbed :: "'h fecall \<Rightarrow> bool" where
  "undisturbed c \<longleftrightarrow> bending (this_fe c) = 0 \<and>
     (\<forall>f\<in>set (others c). bus_adapter (i2c (frontend f)) = bus_adapter (i2c (frontend (this_fe c))) \<longrightarrow> lost_sync_count f = - 1)"

lemma undisturbed_bend:
  assumes "undisturbed c"
  shows "bending (this_fe (dvb_bend_frequency c)) = 0"
proof -
  have "\<not> list_ex (interferes ((this_fe c)\<lparr>bending := 0\<rparr>)) (others c)"
    using assms by (auto simp: undisturbed_def list_ex_iff interferes_def)
  then show ?thesis
    using assms bend_rec.simps [of 0 "others c" "(this_fe c)\<lparr>bending := 0\<rparr>"]
    by (cases "sigs c") (auto simp: dvb_bend_frequency_def next_sig_def upd_fe_def Let_def undisturbed_def)
qed

text \<open>The frequencies of \<open>n\<close> tunings: the one asked for, plus the drift, plus what bending adds.\<close>

definition scanned :: "bool \<Rightarrow> dvb_frontend_parameters \<Rightarrow> u32 \<Rightarrow> nat \<Rightarrow> u32 list \<Rightarrow> bool" where
  "scanned quiet p step n fs \<longleftrightarrow> (\<exists>bs. length bs = n \<and> (quiet \<longrightarrow> bs = replicate n 0) \<and>
     fs = map (\<lambda>(k, b). frequency p + (zigzag k step + b)) (enumerate 0 bs))"

lemma scanned_Suc:
  assumes "scanned quiet p step n fs" "quiet \<longrightarrow> b = 0"
  shows "scanned quiet p step (Suc n) (fs @ [frequency p + (zigzag n step + b)])"
proof -
  obtain bs where bs: "length bs = n" "quiet \<longrightarrow> bs = replicate n 0"
    "fs = map (\<lambda>(k, b). frequency p + (zigzag k step + b)) (enumerate 0 bs)"
    using assms(1) by (auto simp: scanned_def)
  then show ?thesis
    using assms(2) unfolding scanned_def
    by (intro exI [of _ "bs @ [b]"]) (auto simp: enumerate_append_eq replicate_append_same)
qed

lemma scanned_quiet: "scanned True p step n fs \<longleftrightarrow> fs = map (\<lambda>k. frequency p + zigzag k step) [0..<n]"
  by (auto simp: scanned_def enumerate_replicate_eq)

lemma bend_rec_frame: "\<exists>b. bend_rec r fes fe = fe\<lparr>bending := b\<rparr>"
proof (induction r fes fe rule: bend_rec.induct)
  case (1 r fes fe)
  show ?case
  proof (cases "frequency_stepsize (info fe) = 0 \<or> r > 10 \<or> \<not> list_ex (interferes fe) fes")
    case True
    then have "bend_rec r fes fe = fe\<lparr>bending := bending fe\<rparr>" by (subst bend_rec.simps) (auto simp: Let_def)
    then show ?thesis by blast
  next
    case False
    then show ?thesis using 1 [OF refl] by (subst bend_rec.simps) (auto simp: Let_def)
  qed
qed

lemma bend_frame:
  assumes "sigs c = []"
  shows "\<exists>b. dvb_bend_frequency c = c\<lparr>this_fe := (this_fe c)\<lparr>bending := b\<rparr>\<rparr>"
proof (cases "frequency_stepsize (info (this_fe c)) = 0")
  case True
  then have "dvb_bend_frequency c = c\<lparr>this_fe := (this_fe c)\<lparr>bending := bending (this_fe c)\<rparr>\<rparr>"
    by (simp add: dvb_bend_frequency_def)
  then show ?thesis by blast
next
  case False
  obtain b where "bend_rec 0 (others c) ((this_fe c)\<lparr>bending := 0\<rparr>) = (this_fe c)\<lparr>bending := b\<rparr>"
    using bend_rec_frame [of 0 "others c" "(this_fe c)\<lparr>bending := 0\<rparr>"] by auto
  then show ?thesis using False assms by (auto simp: dvb_bend_frequency_def next_sig_def upd_fe_def)
qed

lemma fecall_same_hw [simp]: "c\<lparr>hw := hw c\<rparr> = c" for c :: "'h fecall"
  by (cases c) simp

lemma fecall_commute [simp]: "c\<lparr>hw := h, this_fe := fe\<rparr> = c\<lparr>this_fe := fe, hw := h\<rparr>" for c :: "'h fecall"
  by (cases c) simp

lemma fe_same_jiffies [simp]: "fe\<lparr>status := st, lost_sync_jiffies := lost_sync_jiffies fe\<rparr> = fe\<lparr>status := st\<rparr>" for fe :: dvb_frontend_data
  by (cases fe) simp

lemma notifiers_effect:
  fixes c :: "'h fecall" and st :: fe_status and env :: "'h fe_env"
  defines "j \<equiv> if status (this_fe c) AND FE_HAS_LOCK \<noteq> 0 \<and> st AND FE_HAS_LOCK = 0 then jiffies c else lost_sync_jiffies (this_fe c)"
    and "h \<equiv> if st AND FE_HAS_LOCK = 0 \<and> caps (info (this_fe c)) AND FE_CAN_MUTE_TS \<noteq> 0 then hw c
      else case notifier_callback (frontend (this_fe c)) of
          None \<Rightarrow> hw c | Some f \<Rightarrow> notify env f st (notifier_data (frontend (this_fe c))) (hw c)"
  shows "dvb_call_frontend_notifiers env st c = c\<lparr>this_fe := (this_fe c)\<lparr>status := st, lost_sync_jiffies := j\<rparr>, hw := h\<rparr>"
proof -
  have "c\<lparr>this_fe := fe, hw := hw c\<rparr> = c\<lparr>this_fe := fe\<rparr>" for fe by (cases c) simp
  then show ?thesis
    by (cases "notifier_callback (frontend (this_fe c))")
      (auto simp: dvb_call_frontend_notifiers_def upd_fe_def Let_def j_def h_def)
qed

lemma add_event_frame:
  assumes "sigs c = []" "events_sem (fe_events (this_fe c)) \<noteq> 0" "st AND FE_HAS_LOCK = 0"
    "blind_driver env tunings (frontend (this_fe c))"
  shows "\<exists>ev j h. dvb_frontend_add_event env st c =
    Ret (c\<lparr>this_fe := (this_fe c)\<lparr>fe_events := ev, status := st, lost_sync_jiffies := j\<rparr>, hw := h\<rparr>) \<and>
    events_sem ev = events_sem (fe_events (this_fe c)) \<and> tunings h = tunings (hw c)"
proof -
  define ev where "ev = fill_slot \<lparr>event_status = st, event_parameters = parameters (this_fe c)\<rparr> (make_room (fe_events (this_fe c)))"
  let ?c = "c\<lparr>this_fe := (this_fe c)\<lparr>fe_events := ev\<rparr>\<rparr>"
  have "dvb_frontend_add_event env st c = Ret (dvb_call_frontend_notifiers env st ?c)"
    using assms by (simp add: dvb_frontend_add_event_def next_sig_def upd_fe_def ev_def)
  moreover have "events_sem ev = events_sem (fe_events (this_fe c))" by (simp add: ev_def fill_slot_def make_room_def)
  moreover obtain j h where "dvb_call_frontend_notifiers env st ?c = ?c\<lparr>this_fe := (this_fe ?c)\<lparr>status := st, lost_sync_jiffies := j\<rparr>, hw := h\<rparr>"
    "h = (if st AND FE_HAS_LOCK = 0 \<and> caps (info (this_fe ?c)) AND FE_CAN_MUTE_TS \<noteq> 0 then hw ?c
      else case notifier_callback (frontend (this_fe ?c)) of
          None \<Rightarrow> hw ?c | Some f \<Rightarrow> notify env f st (notifier_data (frontend (this_fe ?c))) (hw ?c))"
    using notifiers_effect [of env st ?c] by blast
  moreover from this(2) have "tunings h = tunings (hw c)"
    using assms(4) by (auto simp: blind_driver_def split: option.split)
  ultimately show ?thesis by (intro exI [of _ ev] exI [of _ j] exI [of _ h]) simp
qed

lemma set_parameters_again:
  assumes "blind_driver env tunings (frontend (this_fe c))" "sigs c = []"
  shows "\<exists>err b h. dvb_frontend_set_parameters env p False c = Ret (err, p, c\<lparr>this_fe := (this_fe c)\<lparr>bending := b\<rparr>, hw := h\<rparr>) \<and>
    tunings h = tunings (hw c) @ [frequency p + (lnb_drift (this_fe c) + b)] \<and> (undisturbed c \<longrightarrow> b = 0)"
proof -
  obtain b where b: "dvb_bend_frequency c = c\<lparr>this_fe := (this_fe c)\<lparr>bending := b\<rparr>\<rparr>" using bend_frame [OF assms(2)] by blast
  let ?c = "c\<lparr>this_fe := (this_fe c)\<lparr>bending := b\<rparr>\<rparr>" let ?p = "p\<lparr>frequency := frequency p + (lnb_drift (this_fe c) + b)\<rparr>"
  have "blind_driver env tunings (frontend (this_fe ?c))" using assms(1) by simp
  from blind_call [OF this, of FE_SET_FRONTEND "Arg_params ?p"]
  obtain err h where "call_driver env FE_SET_FRONTEND (Arg_params ?p) ?c = Ret (err, Arg_params ?p, ?c\<lparr>hw := h\<rparr>)"
    "tunings h = tunings (hw c) @ [frequency ?p]" by (auto simp: tunes_def)
  moreover have "p\<lparr>frequency := frequency p\<rparr> = p" by (cases p) simp
  moreover have "undisturbed c \<longrightarrow> b = 0" using undisturbed_bend [of c] by (simp add: b)
  ultimately show ?thesis by (auto simp: dvb_frontend_set_parameters_def b Let_def)
qed

lemma recover_effect:
  fixes c :: "'h fecall"
  defines "fe \<equiv> this_fe c"
  assumes "blind_driver env tunings (frontend fe)" "sigs c = []"
  shows "\<exists>b h. dvb_frontend_recover env c = Ret (c\<lparr>this_fe := fe
    \<lparr>lnb_drift := next_drift (lost_sync_count fe) (drift_stepsize fe) (lnb_drift fe), bending := b\<rparr>, hw := h\<rparr>) \<and>
    tunings h = tunings (hw c) @
      [frequency (parameters fe) + (next_drift (lost_sync_count fe) (drift_stepsize fe) (lnb_drift fe) + b)] \<and>
    (undisturbed c \<longrightarrow> b = 0)"
proof -
  let ?c = "c\<lparr>this_fe := fe\<lparr>lnb_drift := next_drift (lost_sync_count fe) (drift_stepsize fe) (lnb_drift fe)\<rparr>\<rparr>"
  have "blind_driver env tunings (frontend (this_fe ?c))" "sigs ?c = []" using assms by simp_all
  from set_parameters_again [OF this, of "parameters fe"]
  obtain err b h where b: "dvb_frontend_set_parameters env (parameters fe) False ?c =
    Ret (err, parameters fe, ?c\<lparr>this_fe := (this_fe ?c)\<lparr>bending := b\<rparr>, hw := h\<rparr>)"
    and h: "tunings h = tunings (hw ?c) @ [frequency (parameters fe) + (lnb_drift (this_fe ?c) + b)]" "undisturbed ?c \<longrightarrow> b = 0" by blast
  let ?e = "?c\<lparr>this_fe := (this_fe ?c)\<lparr>bending := b\<rparr>, hw := h\<rparr>"
  have same: "fe\<lparr>lnb_drift := d, bending := b, parameters := parameters fe\<rparr> = fe\<lparr>lnb_drift := d, bending := b\<rparr>" for d
    by (cases fe) simp
  have "blind_driver env tunings (frontend (this_fe ?e))" using assms by simp
  from blind_call [OF this, of FE_RESET Arg_null]
  obtain err' arg h' where "call_driver env FE_RESET Arg_null ?e = Ret (err', arg, ?e\<lparr>hw := h'\<rparr>)" "tunings h' = tunings h"
    by (auto simp: tunes_def)
  moreover have "undisturbed ?c = undisturbed c" by (simp add: undisturbed_def fe_def)
  ultimately show ?thesis using b same h by (auto simp: dvb_frontend_recover_def upd_fe_def fe_def)
qed

text \<open>A front end that has lost its signal for \<open>n\<close> rounds, and the rounds of its thread at the times \<open>ts\<close>.\<close>

definition searching ::
  "'h fe_env \<Rightarrow> ('h \<Rightarrow> u32 list) \<Rightarrow> bool \<Rightarrow> u32 list \<Rightarrow> dvb_frontend_parameters \<Rightarrow> u32 \<Rightarrow> nat \<Rightarrow> 'h fecall \<Rightarrow> bool" where
  "searching env tunings quiet before p step n c \<longleftrightarrow>
     (\<exists>fs. tunings (hw c) = before @ fs \<and> scanned quiet p step (Suc n) fs) \<and> (quiet \<longrightarrow> undisturbed c) \<and>
     blind_driver env tunings (frontend (this_fe c)) \<and> sigs c = [] \<and> events_sem (fe_events (this_fe c)) \<noteq> 0 \<and>
     caps (info (this_fe c)) AND FE_CAN_RECOVER = 0 \<and> caps (info (this_fe c)) AND FE_CAN_CLEAN_SETUP \<noteq> 0 \<and>
     parameters (this_fe c) = p \<and> lost_sync_count (this_fe c) = int n \<and>
     drift_stepsize (this_fe c) = step \<and> lnb_drift (this_fe c) = zigzag n step"

fun scan :: "'h fe_env \<Rightarrow> u32 list \<Rightarrow> fe_thread \<Rightarrow> 'h fecall \<Rightarrow> (fe_thread \<times> 'h fecall) kres" where
  "scan env [] th c = Ret (th, c)"
| "scan env (t # ts) th c = kbind (thread_body env th (c\<lparr>jiffies := t\<rparr>)) (\<lambda>(th, c). scan env ts th c)"

lemma drift_stepsize_frame [simp]:
  "drift_stepsize (fe\<lparr>lost_sync_count := n\<rparr>) = drift_stepsize fe" "drift_stepsize (fe\<lparr>lnb_drift := d\<rparr>) = drift_stepsize fe"
  "drift_stepsize (fe\<lparr>bending := b\<rparr>) = drift_stepsize fe" "drift_stepsize (fe\<lparr>status := st\<rparr>) = drift_stepsize fe"
  "drift_stepsize (fe\<lparr>fe_events := ev\<rparr>) = drift_stepsize fe" "drift_stepsize (fe\<lparr>lost_sync_jiffies := j\<rparr>) = drift_stepsize fe"
  "drift_stepsize (fe\<lparr>timeout_count := k\<rparr>) = drift_stepsize fe"
  by (simp_all add: drift_stepsize_def split: fe_type.split)

lemma searching_report:
  assumes "searching env tunings quiet before p step n c" "th_s th AND FE_HAS_LOCK = 0"
  shows "\<exists>c'. thread_report env th c = Ret (th, c') \<and> searching env tunings quiet before p step n c'"
proof (cases "th_s th = status (this_fe c)")
  case False
  obtain ev j h where "dvb_frontend_add_event env (th_s th) c =
      Ret (c\<lparr>this_fe := (this_fe c)\<lparr>fe_events := ev, status := th_s th, lost_sync_jiffies := j\<rparr>, hw := h\<rparr>)"
    "events_sem ev = events_sem (fe_events (this_fe c))" "tunings h = tunings (hw c)"
    using add_event_frame [of c "th_s th" env tunings] assms by (auto simp: searching_def)
  then show ?thesis using assms False by (auto simp: thread_report_def searching_def undisturbed_def)
qed (use assms in \<open>simp add: thread_report_def\<close>)

lemma searching_timeout:
  assumes "searching env tunings quiet before p step n c" "st AND FE_HAS_LOCK = 0"
  shows "searching env tunings quiet before p step n (snd (thread_timeout env st c)) \<and> fst (thread_timeout env st c) AND FE_HAS_LOCK = 0"
proof -
  have "(st OR FE_TIMEDOUT) AND FE_HAS_LOCK = 0" using assms(2) by (simp add: bit.conj_disj_distrib2)
  then show ?thesis using assms by (auto simp: thread_timeout_def searching_def undisturbed_def upd_fe_def)
qed

lemma searching_body:
  assumes "searching env tunings quiet before p step n c"
  shows "\<exists>th' c'. thread_body env th c = Ret (th', c') \<and> searching env tunings quiet before p step (Suc n) c'"
proof -
  obtain err st h where r: "call_driver env FE_READ_STATUS (Arg_status (th_s th)) c = Ret (err, Arg_status st, c\<lparr>hw := h\<rparr>)"
    and st: "st AND FE_HAS_LOCK = 0" and h: "tunings h = tunings (hw c)"
    using blind_call [of env tunings c FE_READ_STATUS "Arg_status (th_s th)"] assms by (auto simp: searching_def tunes_def)
  have st': "(st AND NOT FE_TIMEDOUT) AND FE_HAS_LOCK = 0" using st by (simp add: and.assoc and.left_commute)
  let ?fe = "(this_fe c)\<lparr>lost_sync_count := int (Suc n)\<rparr>" let ?c = "c\<lparr>hw := h, this_fe := ?fe\<rparr>"
  obtain b h' where rec: "dvb_frontend_recover env ?c =
    Ret (?c\<lparr>this_fe := ?fe\<lparr>lnb_drift := next_drift (int (Suc n)) (drift_stepsize ?fe) (lnb_drift ?fe), bending := b\<rparr>, hw := h'\<rparr>)"
    and h': "tunings h' = tunings (hw c) @ [frequency p + (zigzag (Suc n) step + b)]" and b: "quiet \<longrightarrow> b = 0"
  proof -
    have "blind_driver env tunings (frontend (this_fe ?c))" "sigs ?c = []" "quiet \<longrightarrow> undisturbed ?c"
      using assms by (simp_all add: searching_def undisturbed_def)
    then show thesis
      using recover_effect [of env tunings ?c] assms h that by (auto simp: searching_def zigzag_Suc)
  qed
  let ?r = "?c\<lparr>this_fe := ?fe\<lparr>lnb_drift := next_drift (int (Suc n)) (drift_stepsize ?fe) (lnb_drift ?fe), bending := b\<rparr>, hw := h'\<rparr>"
  have s: "searching env tunings quiet before p step (Suc n) ?r"
  proof -
    obtain fs where fs: "tunings (hw c) = before @ fs" "scanned quiet p step (Suc n) fs" using assms by (auto simp: searching_def)
    have "scanned quiet p step (Suc (Suc n)) (fs @ [frequency p + (zigzag (Suc n) step + b)])" using scanned_Suc [OF fs(2) b] .
    moreover have "quiet \<longrightarrow> undisturbed ?r" using assms b by (auto simp: searching_def undisturbed_def)
    ultimately show ?thesis using assms h' fs(1) by (simp add: searching_def zigzag_Suc)
  qed
  obtain q d where qd: "update_delay (HZ env) (th_quality th) False = (q, d)" by fastforce
  let ?th = "\<lparr>th_quality = q, th_delay = HZ env sdiv 5, th_s = st AND NOT FE_TIMEDOUT\<rparr>"
  obtain t c2 where t: "thread_timeout env (st AND NOT FE_TIMEDOUT) ?r = (t, c2)" by fastforce
  have s2: "searching env tunings quiet before p step (Suc n) c2" "t AND FE_HAS_LOCK = 0" using searching_timeout [OF s st'] t by simp_all
  obtain c3 where c3: "thread_report env (?th\<lparr>th_s := t\<rparr>) c2 = Ret (?th\<lparr>th_s := t\<rparr>, c3)" "searching env tunings quiet before p step (Suc n) c3"
    using searching_report [OF s2(1), of "?th\<lparr>th_s := t\<rparr>"] s2(2) by auto
  have "thread_body env th c = thread_report env (?th\<lparr>th_s := t\<rparr>) c2"
    using assms r st st' qd rec t
    by (simp add: thread_body_def thread_unlocked_def upd_fe_def searching_def Let_def add.commute)
  then show ?thesis using c3 by auto
qed

lemma searching_scan:
  assumes "searching env tunings quiet before p step n c"
  shows "\<exists>th' c'. scan env ts th c = Ret (th', c') \<and> searching env tunings quiet before p step (n + length ts) c'"
  using assms
proof (induction ts arbitrary: th c n)
  case (Cons t ts)
  have "searching env tunings quiet before p step n (c\<lparr>jiffies := t\<rparr>)" using Cons.prems by (simp add: searching_def undisturbed_def)
  then obtain th1 c1 where "thread_body env th (c\<lparr>jiffies := t\<rparr>) = Ret (th1, c1)" "searching env tunings quiet before p step (Suc n) c1"
    using searching_body by blast
  then show ?case using Cons.IH [of "Suc n" c1 th1] by auto
qed simp

lemma first_trial_searching:
  assumes "blind_driver env tunings (frontend (this_fe c))" "sigs c = []" "events_sem (fe_events (this_fe c)) \<noteq> 0"
    "caps (info (this_fe c)) AND FE_CAN_RECOVER = 0" "caps (info (this_fe c)) AND FE_CAN_CLEAN_SETUP \<noteq> 0"
  shows "\<exists>err c1. dvb_frontend_set_parameters env p True c = Ret (err, p, c1) \<and>
    searching env tunings (undisturbed c) (tunings (hw c)) p (drift_stepsize ((this_fe c)\<lparr>parameters := p\<rparr>)) 0 c1"
proof -
  let ?step = "drift_stepsize ((this_fe c)\<lparr>parameters := p\<rparr>)"
  let ?c = "upd_fe (\<lambda>fe. fe\<lparr>timeout_count := 0, lost_sync_count := 0, lost_sync_jiffies := jiffies c, lnb_drift := 0\<rparr>) c"
  have "\<exists>ev st j h. (if status (this_fe ?c) AND NOT FE_TIMEDOUT \<noteq> 0 then dvb_frontend_add_event env 0 ?c else Ret ?c) =
    Ret (?c\<lparr>this_fe := (this_fe ?c)\<lparr>fe_events := ev, status := st, lost_sync_jiffies := j\<rparr>, hw := h\<rparr>) \<and>
    events_sem ev = events_sem (fe_events (this_fe c)) \<and> tunings h = tunings (hw c)"
  proof (cases "status (this_fe ?c) AND NOT FE_TIMEDOUT = 0")
    case True
    have "?c = ?c\<lparr>this_fe := (this_fe ?c)\<lparr>fe_events := fe_events (this_fe ?c), status := status (this_fe ?c),
      lost_sync_jiffies := lost_sync_jiffies (this_fe ?c)\<rparr>, hw := hw ?c\<rparr>"
      by (cases c; cases "this_fe c") (simp add: upd_fe_def)
    then show ?thesis using True
      by (intro exI [of _ "fe_events (this_fe ?c)"] exI [of _ "status (this_fe ?c)"] exI [of _ "lost_sync_jiffies (this_fe ?c)"] exI [of _ "hw ?c"])
        (simp add: upd_fe_def)
  next
    case False
    then show ?thesis using add_event_frame [of ?c 0 env tunings] assms by (auto simp: upd_fe_def)
  qed
  then obtain ev st j h where a: "(if status (this_fe ?c) AND NOT FE_TIMEDOUT \<noteq> 0 then dvb_frontend_add_event env 0 ?c else Ret ?c) =
    Ret (?c\<lparr>this_fe := (this_fe ?c)\<lparr>fe_events := ev, status := st, lost_sync_jiffies := j\<rparr>, hw := h\<rparr>)"
    "events_sem ev = events_sem (fe_events (this_fe c))" "tunings h = tunings (hw c)" by blast
  let ?d = "upd_fe (\<lambda>fe. fe\<lparr>parameters := p\<rparr>)
    (?c\<lparr>this_fe := (this_fe ?c)\<lparr>fe_events := ev, status := st, lost_sync_jiffies := j\<rparr>, hw := h\<rparr>)"
  have e: "dvb_frontend_set_parameters env p True c = dvb_frontend_set_parameters env p False ?d"
    by (simp only: dvb_frontend_set_parameters_def if_True if_False Let_def a(1) kbind.simps)
  have step: "drift_stepsize (this_fe ?d) = ?step" by (simp add: upd_fe_def drift_stepsize_def split: fe_type.split)
  have d: "blind_driver env tunings (frontend (this_fe ?d))" "sigs ?d = []" "undisturbed ?d = undisturbed c" "lnb_drift (this_fe ?d) = 0"
    "tunings (hw ?d) = tunings (hw c)"
    using assms a(3) by (simp_all add: upd_fe_def undisturbed_def)
  obtain err b h' where r: "dvb_frontend_set_parameters env p False ?d =
    Ret (err, p, ?d\<lparr>this_fe := (this_fe ?d)\<lparr>bending := b\<rparr>, hw := h'\<rparr>)"
    "tunings h' = tunings (hw c) @ [frequency p + (0 + b)]" "undisturbed c \<longrightarrow> b = 0"
    using set_parameters_again [OF d(1,2), of p] d(3-5) by auto
  have "scanned (undisturbed c) p ?step (Suc 0) [frequency p + (0 + b)]"
    using scanned_Suc [of "undisturbed c" p ?step 0 "[]" b] r(3) by (simp add: scanned_def)
  moreover have "undisturbed c \<longrightarrow> undisturbed (?d\<lparr>this_fe := (this_fe ?d)\<lparr>bending := b\<rparr>, hw := h'\<rparr>)"
    using r(3) by (simp add: undisturbed_def upd_fe_def)
  ultimately have "searching env tunings (undisturbed c) (tunings (hw c)) p ?step 0 (?d\<lparr>this_fe := (this_fe ?d)\<lparr>bending := b\<rparr>, hw := h'\<rparr>)"
    using assms step a(2) r(2) d(1) by (simp add: searching_def upd_fe_def)
  then show ?thesis using e r(1) by auto
qed


text \<open>A driver that keeps the list of the frequencies it was tuned to.\<close>

definition ex_log_env :: "u32 list fe_env" where
  "ex_log_env = \<lparr>drv = (\<lambda>f fe cmd arg h. if cmd = FE_READ_STATUS then (0, Arg_status 3, h) else (0, arg, h @ tunes cmd arg)),
     notify = (\<lambda>f st d h. h), HZ = 100, dvb_shutdown_timeout = 5\<rparr>"

definition ex_log_call :: "u32 list fecall" where
  "ex_log_call = \<lparr>this_fe = ex_fe 1000000, others = [], writers = Some 0, jiffies = 0, sigs = [], hw = []\<rparr>"


section \<open>The pace of the kernel thread\<close>

lemma sdiv_nonneg: "0 \<le> a \<Longrightarrow> 0 < b \<Longrightarrow> a sdiv b = a div b" for a b :: int
  by (cases "a = 0") (simp_all add: signed_divide_int_def sgn_if)

definition pace_ok :: "int \<Rightarrow> fe_thread \<Rightarrow> bool" where
  "pace_ok hz th \<longleftrightarrow> 0 \<le> th_quality th \<and> th_quality th \<le> 249 \<and> hz div 20 \<le> th_delay th \<and> th_delay th \<le> 3 * hz"

lemma update_delay_bounds:
  assumes "update_delay hz q locked = (q', d)" "0 \<le> q" "q \<le> 249" "0 < hz"
  shows "0 \<le> q' \<and> q' \<le> 249 \<and> hz div 20 \<le> d \<and> d \<le> 3 * hz"
proof -
  have q': "q' = (if locked then (q * 220 + 9216) div 256 else (q * 220) div 256)"
    and d: "d = hz div 20 + ((q' - 128) * (q' - 128) * hz) div 16384"
    using assms by (auto simp: update_delay_def Let_def sdiv_nonneg)
  have b: "0 \<le> q'" "q' \<le> 249" using assms(2,3) by (auto simp: q')
  then have "\<bar>q' - 128\<bar> \<le> 128" by linarith
  then have "\<bar>q' - 128\<bar> * \<bar>q' - 128\<bar> \<le> 128 * 128" by (intro mult_mono) auto
  then have "(q' - 128) * (q' - 128) \<le> 16384" by (simp flip: abs_mult)
  then have "(q' - 128) * (q' - 128) * hz \<le> 16384 * hz" using assms(4) by (intro mult_right_mono) auto
  then have "((q' - 128) * (q' - 128) * hz) div 16384 \<le> hz" using zdiv_mono1 [of _ "16384 * hz" 16384] by fastforce
  moreover have "0 \<le> ((q' - 128) * (q' - 128) * hz) div 16384" using assms(4) by (simp add: pos_imp_zdiv_nonneg_iff)
  moreover have "hz div 20 \<le> hz" using assms(4) by simp
  ultimately show ?thesis using b assms(4) d by linarith
qed

lemma thread_report_pace: "thread_report env th c = Ret (th', c') \<Longrightarrow> th' = th"
  by (auto simp: thread_report_def kbind_eq_Ret_iff)

lemma thread_unlocked_pace:
  assumes "thread_unlocked env th c = Ret (th', c')"
  shows "th_quality th' = th_quality th \<and> (th_delay th' = th_delay th \<or> th_delay th' = HZ env sdiv 5)"
proof -
  let ?finish = "\<lambda>th c. let (st, c) = thread_timeout env (th_s th) c in thread_report env (th\<lparr>th_s := st\<rparr>) c"
  have f: "?finish th1 c1 = Ret (th', c') \<Longrightarrow> th_quality th' = th_quality th1 \<and> th_delay th' = th_delay th1" for th1 c1
    by (cases "thread_timeout env (th_s th1) c1") (auto dest!: thread_report_pace)
  consider "th' = th" | c1 where "?finish th c1 = Ret (th', c')" | c1 where "?finish (th\<lparr>th_delay := HZ env sdiv 5\<rparr>) c1 = Ret (th', c')"
    using assms by (auto simp: thread_unlocked_def kbind_eq_Ret_iff Let_def split: if_splits)
  then show ?thesis using f by cases (fastforce dest: f)+
qed

lemma thread_body_pace:
  assumes "thread_body env th c = Ret (th', c')" "pace_ok (HZ env) th" "0 < HZ env"
  shows "pace_ok (HZ env) th'"
proof -
  have five: "HZ env sdiv 5 = HZ env div 5" "HZ env div 20 \<le> HZ env div 5" "HZ env div 5 \<le> 3 * HZ env"
    using assms(3) by (auto simp: sdiv_nonneg)
  obtain err arg c1 where r: "call_driver env FE_READ_STATUS (Arg_status (th_s th)) c = Ret (err, arg, c1)"
    using assms(1) by (auto simp: thread_body_def kbind_eq_Ret_iff)
  define st where "st = status_of (th_s th) arg"
  obtain q d where u: "update_delay (HZ env) (th_quality th) (st AND FE_HAS_LOCK \<noteq> 0) = (q, d)" by fastforce
  let ?th = "\<lparr>th_quality = q, th_delay = d, th_s = st AND NOT FE_TIMEDOUT\<rparr>"
  have "(\<exists>c2. thread_report env ?th c2 = Ret (th', c')) \<or> (\<exists>c2. thread_unlocked env ?th c2 = Ret (th', c'))"
    using assms(1) r u by (auto simp: thread_body_def st_def Let_def split: if_splits)
  then have d: "th_quality th' = q \<and> (th_delay th' = d \<or> th_delay th' = HZ env sdiv 5)"
    by (auto dest!: thread_report_pace thread_unlocked_pace)
  show ?thesis using update_delay_bounds [OF u] assms(2,3) d five by (auto simp: pace_ok_def)
qed

lemma thread_exit_not_asleep: "thread_exit env c = Ret (Asleep th', c') \<Longrightarrow> False"
  by (auto simp: thread_exit_def kbind_eq_Ret_iff)

lemma thread_top_asleep: "thread_top env th c = Ret (Asleep th', c') \<Longrightarrow> th' = th"
  by (auto simp: thread_top_def kbind_eq_Ret_iff dest: thread_exit_not_asleep split: if_splits)

text \<open>
  The local variables with which a thread goes to sleep: between its rounds anything may happen to
  the front end and to the other parts of the system.
\<close>

inductive thread_sleeps :: "'h fe_env \<Rightarrow> fe_thread \<Rightarrow> bool" for env :: "'h fe_env" where
  started: "thread_start env junk c = Ret (Asleep th, c') \<Longrightarrow> thread_sleeps env th"
| woken: "thread_sleeps env th \<Longrightarrow> thread_wake env sg th c = Ret (Asleep th', c') \<Longrightarrow> thread_sleeps env th'"

lemma thread_wake_pace:
  assumes "thread_wake env sg th c = Ret (Asleep th', c')" "pace_ok (HZ env) th" "0 < HZ env"
  shows "pace_ok (HZ env) th'"
proof -
  have "th' = th \<or> (\<exists>c1 c2. thread_body env th c1 = Ret (th', c2))"
    using assms(1)
    by (auto simp: thread_wake_def kbind_eq_Ret_iff dest: thread_exit_not_asleep dest!: thread_top_asleep split: if_splits prod.splits)
  then show ?thesis using thread_body_pace assms(2,3) by blast
qed

text \<open>
  C26. Whatever the hardware reports, the thread of a front end always sleeps between a twentieth of a
  second and three seconds, and its estimate of the signal quality stays between 0 and 249 (the
  rounding keeps it below the 256 the formula aims at).
\<close>

theorem thread_pace_bounds:
  assumes "thread_sleeps env th" "0 < HZ env"
  shows "0 \<le> th_quality th \<and> th_quality th \<le> 249 \<and> HZ env div 20 \<le> th_delay th \<and> th_delay th \<le> 3 * HZ env"
proof -
  have "pace_ok (HZ env) th" using assms(1)
  proof induction
    case (started junk c th c')
    then have "th = \<lparr>th_quality = 0, th_delay = 3 * HZ env, th_s = junk\<rparr>"
      by (auto simp: thread_start_def kbind_eq_Ret_iff dest!: thread_top_asleep)
    then show ?case using assms(2) by (simp add: pace_ok_def)
  qed (use assms(2) thread_wake_pace in blast)
  then show ?thesis by (simp add: pace_ok_def)
qed

theorem thread_pace_bounds_witness:
  "\<exists>th. thread_sleeps ex_fe_env th \<and> 0 \<le> th_quality th \<and> th_quality th \<le> 249 \<and> HZ ex_fe_env div 20 \<le> th_delay th"
proof -
  let ?th = "\<lparr>th_quality = 0, th_delay = 300, th_s = 7\<rparr>"
  have "\<exists>c'. thread_start ex_fe_env 7 (ex_call 1000000 []) = Ret (Asleep ?th, c')"
    by (simp add: thread_start_def dvb_call_frontend_notifiers_def dvb_frontend_init_def call_driver_def thread_top_def
        dvb_frontend_is_exiting_def dvb_frontend_internal_ioctl_def upd_fe_def ex_fe_defs)
  then have "thread_sleeps ex_fe_env ?th" by (blast intro: started)
  then show ?thesis using thread_pace_bounds [of ex_fe_env ?th] by (auto simp: ex_fe_env_def)
qed

section \<open>The end of the thread\<close>

text \<open>
  C27. A front end that nobody has open for writing is put to sleep: when its thread wakes after the
  shutdown time-out and neither a signal nor another holder of the lock keeps it away, the thread sends the
  driver the sleep command, leaves the lock as it found it, clears its process number and ends.
\<close>

theorem idle_front_end_sleeps:
  assumes "writers c = Some 1" "\<not> fe_exit (this_fe c)" "fe_sem (this_fe c) \<noteq> 0" "sigs c = []" "dvb_shutdown_timeout env \<noteq> 0"
    "jiffies c - release_jiffies (this_fe c) > word_of_int (dvb_shutdown_timeout env * HZ env)"
    and "dvb_frontend_internal_ioctl env (frontend (this_fe c)) FE_SLEEP Arg_null (hw c) = Ret (err, arg, h)"
  shows "thread_wake env False th c = Ret (Exited, c\<lparr>this_fe := (this_fe c)\<lparr>thread_pid := 0\<rparr>, hw := h\<rparr>)"
proof -
  let ?fe = "(this_fe c)\<lparr>fe_sem := fe_sem (this_fe c) - 1\<rparr>" let ?c = "c\<lparr>this_fe := ?fe\<rparr>"
  have d: "down_fe c = Ret (True, ?c)" using assms(3,4) by (simp add: down_fe_def next_sig_def upd_fe_def)
  have e: "dvb_frontend_is_exiting env ?c = Ret True" using assms(1,2,6) by (simp add: dvb_frontend_is_exiting_def)
  have "fe\<lparr>fe_sem := fe_sem fe, thread_pid := 0\<rparr> = fe\<lparr>thread_pid := 0\<rparr>" for fe :: dvb_frontend_data by (cases fe) simp
  then have x: "thread_exit env ?c = Ret (Exited, c\<lparr>this_fe := (this_fe c)\<lparr>thread_pid := 0\<rparr>, hw := h\<rparr>)"
    using assms(3,5,7) by (simp add: thread_exit_def call_driver_def up_fe_def upd_fe_def)
  show ?thesis using d e x by (simp add: thread_wake_def thread_top_def)
qed

theorem idle_front_end_sleeps_witness:
  "thread_wake ex_fe_env False \<lparr>th_quality = 0, th_delay = 300, th_s = 0\<rparr> ((ex_call 1000000 [])\<lparr>writers := Some 1, jiffies := 501\<rparr>) =
    Ret (Exited, (ex_call 1000000 [])\<lparr>writers := Some 1, jiffies := 501, this_fe := (ex_fe 1000000)\<lparr>thread_pid := 0\<rparr>, hw := 1\<rparr>)"
proof -
  let ?c = "(ex_call 1000000 [])\<lparr>writers := Some 1, jiffies := 501\<rparr>"
  have "writers ?c = Some 1" "\<not> fe_exit (this_fe ?c)" "fe_sem (this_fe ?c) \<noteq> 0" "sigs ?c = []" "dvb_shutdown_timeout ex_fe_env \<noteq> 0"
    "jiffies ?c - release_jiffies (this_fe ?c) > word_of_int (dvb_shutdown_timeout ex_fe_env * HZ ex_fe_env)"
    "dvb_frontend_internal_ioctl ex_fe_env (frontend (this_fe ?c)) FE_SLEEP Arg_null (hw ?c) = Ret (0, Arg_null, 1)"
    by (simp_all add: ex_fe_defs dvb_frontend_internal_ioctl_def)
  from idle_front_end_sleeps [OF this] show ?thesis by (simp add: ex_call_def)
qed

end
