(* ===== verification/DVB_Fe_Events.thy ===== *)
theory DVB_Fe_Events
  imports DVB_Tuning DVB_Fifo
begin

text \<open>
  The event queue of a front end as a queue that forgets its oldest entries, what an application
  reads from it, and the lock of the front end around the commands.
\<close>

section \<open>Queues that forget\<close>

text \<open>
  The interface of a queue with room for \<open>cap\<close> entries: a new entry is always accepted, and pushes out
  the oldest one when there is no room.
\<close>

locale lossy_queue =
  fixes valid :: "'q \<Rightarrow> bool" and content :: "'q \<Rightarrow> 'e list" and lost :: "'q \<Rightarrow> bool" and push :: "'e \<Rightarrow> 'q \<Rightarrow> 'q"
    and cap :: nat
  assumes cap_pos: "0 < cap"
    and content_bound: "valid q \<Longrightarrow> length (content q) \<le> cap"
    and push_valid: "valid q \<Longrightarrow> valid (push e q)"
    and push_content: "valid q \<Longrightarrow> content (push e q) = (if length (content q) = cap then tl (content q) else content q) @ [e]"
    and push_lost: "valid q \<Longrightarrow> lost (push e q) \<longleftrightarrow> lost q \<or> length (content q) = cap"
begin

lemma push_all_valid: "valid q \<Longrightarrow> valid (fold push es q)"
  by (induction es arbitrary: q) (simp_all add: push_valid)

lemma content_push_all:
  assumes "valid q"
  shows "content (fold push es q) = drop (length (content q @ es) - cap) (content q @ es)"
  using assms
proof (induction es arbitrary: q)
  case Nil
  then show ?case using content_bound by simp
next
  case (Cons e es)
  have b: "length (content q) \<le> cap" using Cons.prems by (rule content_bound)
  show ?case
  proof (cases "length (content q) = cap")
    case True
    then obtain x xs where q: "content q = x # xs" using cap_pos by (cases "content q") auto
    have "content (fold push (e # es) q) = drop (length (xs @ e # es) - cap) (xs @ e # es)"
      using Cons.IH [OF push_valid [OF Cons.prems], of e] push_content [OF Cons.prems, of e] True q
      by (simp del: drop_append)
    moreover have "length (content q @ e # es) - cap = Suc (length (xs @ e # es) - cap)" using True q by simp
    ultimately show ?thesis using q by simp
  next
    case False
    then show ?thesis
      using Cons.IH [OF push_valid [OF Cons.prems], of e] push_content [OF Cons.prems, of e] by (simp del: drop_append)
  qed
qed

lemma lost_push_all: "valid q \<Longrightarrow> lost (fold push es q) \<longleftrightarrow> lost q \<or> cap < length (content q @ es)"
proof (induction es arbitrary: q)
  case (Cons e es)
  have "length (content q) \<le> cap" using Cons.prems by (rule content_bound)
  then show ?case using Cons cap_pos by (auto simp: push_content push_valid push_lost)
qed (use content_bound in fastforce)

end

section \<open>The events of a front end\<close>

definition event_queue :: "dvb_fe_events \<Rightarrow> dvb_frontend_event list" where
  "event_queue ev = ring_contents (events ev) (eventr ev) (eventw ev)"

definition events_ok :: "dvb_fe_events \<Rightarrow> bool" where
  "events_ok ev \<longleftrightarrow> length (events ev) = MAX_EVENT \<and> eventw ev < MAX_EVENT \<and> eventr ev < MAX_EVENT"

lemma length_event_queue:
  "events_ok ev \<Longrightarrow> length (event_queue ev) = (if eventr ev \<le> eventw ev then eventw ev - eventr ev else 8 - eventr ev + eventw ev)"
  by (simp add: event_queue_def events_ok_def length_ring_contents)

lemma queue_full_iff: "events_ok ev \<Longrightarrow> (eventw ev + 1) mod MAX_EVENT = eventr ev \<longleftrightarrow> length (event_queue ev) = 7"
  by (auto simp: length_event_queue events_ok_def mod_if)

lemma event_queue_bound: "events_ok ev \<Longrightarrow> length (event_queue ev) \<le> 7"
  by (auto simp: length_event_queue events_ok_def)

lemma queue_empty_iff: "events_ok ev \<Longrightarrow> event_queue ev = [] \<longleftrightarrow> eventw ev = eventr ev"
  unfolding length_0_conv [symmetric] by (auto simp: length_event_queue events_ok_def)

lemma event_queue_drop:
  assumes "events_ok ev" "event_queue ev \<noteq> []"
  shows "event_queue (ev\<lparr>eventr := (eventr ev + 1) mod MAX_EVENT\<rparr>) = tl (event_queue ev)"
proof -
  have "1 \<le> length (event_queue ev)" using assms(2) by (cases "event_queue ev") simp_all
  then show ?thesis
    using drop_ring_contents [of "eventr ev" "events ev" "eventw ev" 1] assms(1)
    by (simp add: event_queue_def events_ok_def drop_Suc)
qed

lemma event_queue_hd: "events_ok ev \<Longrightarrow> event_queue ev \<noteq> [] \<Longrightarrow> hd (event_queue ev) = events ev ! eventr ev"
  by (auto simp: event_queue_def events_ok_def ring_contents_def hd_append hd_drop_conv_nth hd_take split: if_splits)

lemma make_room_queue:
  assumes "events_ok ev"
  shows "events_ok (make_room ev)" "event_queue (make_room ev) = (if length (event_queue ev) = 7 then tl (event_queue ev) else event_queue ev)"
    "overflow (make_room ev) \<longleftrightarrow> overflow ev \<or> length (event_queue ev) = 7" "length (event_queue (make_room ev)) < 7"
proof -
  have f: "make_room ev = (if length (event_queue ev) = 7 then (ev\<lparr>overflow := True\<rparr>)\<lparr>eventr := (eventr ev + 1) mod MAX_EVENT\<rparr> else ev)"
    using queue_full_iff [OF assms] by (simp add: make_room_def)
  show "events_ok (make_room ev)" "overflow (make_room ev) \<longleftrightarrow> overflow ev \<or> length (event_queue ev) = 7"
    using assms by (auto simp: f events_ok_def)
  have o: "events_ok (ev\<lparr>overflow := True\<rparr>)" "event_queue (ev\<lparr>overflow := True\<rparr>) = event_queue ev"
    using assms by (simp_all add: events_ok_def event_queue_def)
  show q: "event_queue (make_room ev) = (if length (event_queue ev) = 7 then tl (event_queue ev) else event_queue ev)"
  proof (cases "length (event_queue ev) = 7")
    case True
    then have "event_queue ev \<noteq> []" by auto
    then show ?thesis using event_queue_drop [OF o(1)] o(2) True by (simp add: f)
  qed (simp add: f)
  show "length (event_queue (make_room ev)) < 7" using q event_queue_bound [OF assms] by (auto simp: le_less)
qed

lemma fill_slot_queue:
  assumes "events_ok ev" "length (event_queue ev) < 7"
  shows "events_ok (fill_slot e ev)" "event_queue (fill_slot e ev) = event_queue ev @ [e]" "overflow (fill_slot e ev) = overflow ev"
proof -
  show "events_ok (fill_slot e ev)" "overflow (fill_slot e ev) = overflow ev"
    using assms(1) by (simp_all add: fill_slot_def events_ok_def)
  have "ring_store (events ev) (eventw ev) [e] = (events ev)[eventw ev := e]"
    using assms(1) by (simp add: ring_store_def blit_def events_ok_def upd_conv_take_nth_drop)
  then show "event_queue (fill_slot e ev) = event_queue ev @ [e]"
    using ring_contents_store [of "eventr ev" "events ev" "eventw ev" "[e]"] assms
    by (simp add: event_queue_def fill_slot_def events_ok_def)
qed

abbreviation post :: "dvb_frontend_event \<Rightarrow> dvb_fe_events \<Rightarrow> dvb_fe_events" where "post e ev \<equiv> fill_slot e (make_room ev)"

interpretation fe_queue: lossy_queue events_ok event_queue overflow post 7
proof
  fix ev e assume ok: "events_ok ev"
  note r = make_room_queue [OF ok] and s = fill_slot_queue [OF make_room_queue(1,4) [OF ok]]
  show "events_ok (post e ev)" by (rule s)
  show "event_queue (post e ev) = (if length (event_queue ev) = 7 then tl (event_queue ev) else event_queue ev) @ [e]"
    using r(2) by (simp add: s)
  show "overflow (post e ev) \<longleftrightarrow> overflow ev \<or> length (event_queue ev) = 7" using r(3) by (simp add: s)
qed (simp_all add: event_queue_bound)

section \<open>Posting and reading events\<close>

text \<open>A front end at rest between two commands: no signal is pending and its queue is not locked.\<close>

definition quiet :: "'h fecall \<Rightarrow> bool" where
  "quiet c \<longleftrightarrow> sigs c = [] \<and> ioctl (frontend (this_fe c)) \<noteq> None \<and> events_sem (fe_events (this_fe c)) \<noteq> 0 \<and>
     events_ok (fe_events (this_fe c))"

lemma events_sem_post [simp]: "events_sem (post e ev) = events_sem ev"
  by (simp add: fill_slot_def make_room_def)

lemma call_driver_total:
  assumes "ioctl (frontend (this_fe c)) \<noteq> None"
  shows "\<exists>err arg' h. call_driver env cmd arg c = Ret (err, arg', c\<lparr>hw := h\<rparr>)"
proof -
  have "dvb_frontend_internal_ioctl env (frontend (this_fe c)) cmd arg (hw c) \<noteq> Hang"
    "dvb_frontend_internal_ioctl env (frontend (this_fe c)) cmd arg (hw c) \<noteq> Oops"
    using assms by (auto simp: dvb_frontend_internal_ioctl_def Let_def split: option.splits prod.splits)
  then obtain err arg' h where "dvb_frontend_internal_ioctl env (frontend (this_fe c)) cmd arg (hw c) = Ret (err, arg', h)"
    by (metis kres.exhaust prod_cases3)
  then show ?thesis by (auto simp: call_driver_def)
qed

lemma add_event_posts:
  assumes "quiet c"
  shows "\<exists>c' e. dvb_frontend_add_event env st c = Ret c' \<and> event_status e = st \<and> quiet c' \<and>
    fe_events (this_fe c') = post e (fe_events (this_fe c)) \<and> fe_sem (this_fe c') = fe_sem (this_fe c)"
proof -
  let ?c = "c\<lparr>this_fe := (this_fe c)\<lparr>fe_events := make_room (fe_events (this_fe c))\<rparr>\<rparr>" let ?p = "parameters (this_fe c)"
  have i: "ioctl (frontend (this_fe ?c)) \<noteq> None" using assms by (simp add: quiet_def)
  have "\<exists>p h. (if st AND FE_HAS_LOCK \<noteq> 0
      then kbind (call_driver env FE_GET_FRONTEND (Arg_params ?p) ?c) (\<lambda>(err, arg, c). Ret (params_of ?p arg, c))
      else Ret (?p, ?c)) = Ret (p, ?c\<lparr>hw := h\<rparr>)"
  proof (cases "st AND FE_HAS_LOCK = 0")
    case True
    then show ?thesis by (intro exI [of _ ?p] exI [of _ "hw c"]) (cases c, simp)
  next
    case False
    obtain err arg h where "call_driver env FE_GET_FRONTEND (Arg_params ?p) ?c = Ret (err, arg, ?c\<lparr>hw := h\<rparr>)"
      using call_driver_total [OF i] by blast
    then show ?thesis using False by auto
  qed
  then obtain p h where g: "(if st AND FE_HAS_LOCK \<noteq> 0
      then kbind (call_driver env FE_GET_FRONTEND (Arg_params ?p) ?c) (\<lambda>(err, arg, c). Ret (params_of ?p arg, c))
      else Ret (?p, ?c)) = Ret (p, ?c\<lparr>hw := h\<rparr>)" by blast
  let ?e = "\<lparr>event_status = st, event_parameters = p\<rparr>"
  let ?d = "c\<lparr>this_fe := (this_fe c)\<lparr>fe_events := post ?e (fe_events (this_fe c))\<rparr>, hw := h\<rparr>"
  have "dvb_frontend_add_event env st c = Ret (dvb_call_frontend_notifiers env st ?d)"
    using assms g by (simp add: dvb_frontend_add_event_def next_sig_def upd_fe_def quiet_def)
  then show ?thesis
    using assms fe_queue.push_valid [of "fe_events (this_fe c)" ?e] notifiers_effect [of env st ?d]
    by (intro exI [of _ "dvb_call_frontend_notifiers env st ?d"] exI [of _ ?e]) (simp add: quiet_def)
qed

fun add_events :: "'h fe_env \<Rightarrow> fe_status list \<Rightarrow> 'h fecall \<Rightarrow> 'h fecall kres" where
  "add_events env [] c = Ret c"
| "add_events env (st # sts) c = kbind (dvb_frontend_add_event env st c) (add_events env sts)"

lemma add_events_post:
  assumes "quiet c"
  shows "\<exists>c' es. add_events env sts c = Ret c' \<and> map event_status es = sts \<and> quiet c' \<and>
    fe_events (this_fe c') = fold post es (fe_events (this_fe c))"
  using assms
proof (induction sts arbitrary: c)
  case (Cons st sts)
  obtain c1 e where 1: "dvb_frontend_add_event env st c = Ret c1" "event_status e = st" "quiet c1"
    "fe_events (this_fe c1) = post e (fe_events (this_fe c))"
    using add_event_posts [OF Cons.prems] by blast
  obtain c2 es where "add_events env sts c1 = Ret c2" "map event_status es = sts" "quiet c2"
    "fe_events (this_fe c2) = fold post es (fe_events (this_fe c1))"
    using Cons.IH [OF 1(3)] by blast
  then show ?case using 1 by (intro exI [of _ c2] exI [of _ "e # es"]) simp
qed simp

text \<open>What an application gets that reads \<open>n\<close> times without blocking.\<close>

fun read_events :: "nat \<Rightarrow> 'h fecall \<Rightarrow> (int \<times> dvb_frontend_event option) list kres" where
  "read_events 0 c = Ret []"
| "read_events (Suc n) c = kbind (dvb_frontend_get_event True [] c) (\<lambda>(err, e, c).
     kbind (read_events n c) (\<lambda>rs. Ret ((err, e) # rs)))"

lemma get_event_takes:
  assumes "quiet c" "\<not> overflow (fe_events (this_fe c))" "event_queue (fe_events (this_fe c)) = e # es"
  shows "\<exists>c'. dvb_frontend_get_event nb ws c = Ret (0, Some e, c') \<and> quiet c' \<and> \<not> overflow (fe_events (this_fe c')) \<and>
    event_queue (fe_events (this_fe c')) = es"
proof -
  let ?ev = "fe_events (this_fe c)"
  let ?c = "c\<lparr>this_fe := (this_fe c)\<lparr>fe_events := ?ev\<lparr>eventr := (eventr ?ev + 1) mod MAX_EVENT\<rparr>\<rparr>\<rparr>"
  have ok: "events_ok ?ev" using assms(1) by (simp add: quiet_def)
  have "eventw ?ev \<noteq> eventr ?ev" "events ?ev ! eventr ?ev = e" "eventr ?ev < length (events ?ev)"
    using queue_empty_iff [OF ok] event_queue_hd [OF ok] assms(3) ok by (auto simp: events_ok_def)
  then have "dvb_frontend_get_event nb ws c = Ret (0, Some e, ?c)"
    using assms(1,2) by (simp add: dvb_frontend_get_event_def take_event_def next_sig_def quiet_def upd_fe_def Let_def)
  moreover have "event_queue (fe_events (this_fe ?c)) = es" using event_queue_drop [OF ok] assms(3) by simp
  ultimately show ?thesis using assms(1,2) by (auto simp: quiet_def events_ok_def)
qed

lemma read_events_queue:
  assumes "quiet c" "\<not> overflow (fe_events (this_fe c))" "event_queue (fe_events (this_fe c)) = es"
  shows "read_events (Suc (length es)) c = Ret (map (\<lambda>e. (0, Some e)) es @ [(- EWOULDBLOCK, None)])"
  using assms
proof (induction es arbitrary: c)
  case Nil
  then show ?case using queue_empty_iff [of "fe_events (this_fe c)"] by (simp add: dvb_frontend_get_event_def quiet_def)
next
  case (Cons e es)
  obtain c1 where 1: "dvb_frontend_get_event True [] c = Ret (0, Some e, c1)" "quiet c1" "\<not> overflow (fe_events (this_fe c1))"
    "event_queue (fe_events (this_fe c1)) = es"
    using get_event_takes [OF Cons.prems] by blast
  have "read_events (Suc (length (e # es))) c = kbind (read_events (Suc (length es)) c1) (\<lambda>rs. Ret ((0, Some e) # rs))"
    unfolding read_events.simps(2) [of "length (e # es)"] 1(1) by simp
  then show ?case using Cons.IH [OF 1(2-4)] by simp
qed

text \<open>
  C6. The event queue delivers the last seven status changes in their order. When more have been
  posted, the first read reports the loss once; after the last event a read that does not block
  finds nothing more.
\<close>

theorem latest_events_delivered:
  fixes sts :: "fe_status list"
  assumes "quiet c" "event_queue (fe_events (this_fe c)) = []" "\<not> overflow (fe_events (this_fe c))"
  defines "result \<equiv> (if 7 < length sts then [(- EOVERFLOW, None)] else []) @
    map (\<lambda>st. (0, Some st)) (drop (length sts - 7) sts) @ [(- EWOULDBLOCK, None)]"
  shows "\<exists>c' rs. add_events env sts c = Ret c' \<and> read_events (length result) c' = Ret rs \<and>
    map (\<lambda>(err, e). (err, map_option event_status e)) rs = result"
proof -
  obtain c' es where a: "add_events env sts c = Ret c'" "map event_status es = sts" "quiet c'"
    "fe_events (this_fe c') = fold post es (fe_events (this_fe c))"
    using add_events_post [OF assms(1)] by blast
  have ok: "events_ok (fe_events (this_fe c))" using assms(1) by (simp add: quiet_def)
  let ?ev = "fe_events (this_fe c')" let ?es = "drop (length es - 7) es"
  have q: "event_queue ?ev = ?es" "overflow ?ev \<longleftrightarrow> 7 < length es"
    using fe_queue.content_push_all [OF ok, of es] fe_queue.lost_push_all [OF ok, of es] a(4) assms(2,3) by simp_all
  have l: "length es = length sts" and m: "map event_status ?es = drop (length sts - 7) sts" using a(2) by (auto simp: drop_map)
  have mm: "map (\<lambda>(err, e). (err, map_option event_status e)) (map (\<lambda>e. (0 :: int, Some e)) ?es) = map (\<lambda>st. (0, Some st)) (drop (length sts - 7) sts)"
    unfolding m [symmetric] by (simp add: comp_def)
  show ?thesis
  proof (cases "7 < length es")
    case False
    then have "read_events (Suc (length ?es)) c' = Ret (map (\<lambda>e. (0, Some e)) ?es @ [(- EWOULDBLOCK, None)])"
      using read_events_queue [OF a(3) _ q(1)] q(2) by blast
    moreover have "length result = Suc (length ?es)" using False l by (simp add: result_def)
    moreover have "map (\<lambda>(err, e). (err, map_option event_status e)) (map (\<lambda>e. (0, Some e)) ?es @ [(- EWOULDBLOCK, None)]) = result"
      unfolding map_append mm using False l by (simp add: result_def)
    ultimately show ?thesis using a(1) by metis
  next
    case True
    let ?c = "c'\<lparr>this_fe := (this_fe c')\<lparr>fe_events := ?ev\<lparr>overflow := False\<rparr>\<rparr>\<rparr>"
    have "quiet ?c" "\<not> overflow (fe_events (this_fe ?c))" "event_queue (fe_events (this_fe ?c)) = ?es"
      using a(3) q by (simp_all add: quiet_def events_ok_def event_queue_def)
    note r = read_events_queue [OF this]
    have "dvb_frontend_get_event True [] c' = Ret (- EOVERFLOW, None, ?c)"
      using q(2) True by (simp add: dvb_frontend_get_event_def upd_fe_def)
    then have "read_events (Suc (Suc (length ?es))) c' = Ret ((- EOVERFLOW, None) # map (\<lambda>e. (0, Some e)) ?es @ [(- EWOULDBLOCK, None)])"
      unfolding read_events.simps(2) [of "Suc (length ?es)"] using r by simp
    moreover have "length result = Suc (Suc (length ?es))" using True l by (simp add: result_def)
    moreover have "map (\<lambda>(err, e). (err, map_option event_status e))
        ((- EOVERFLOW, None) # map (\<lambda>e. (0, Some e)) ?es @ [(- EWOULDBLOCK, None)]) = result"
      unfolding map_append list.map mm using True l by (simp add: result_def)
    ultimately show ?thesis using a(1) by metis
  qed
qed

theorem latest_events_delivered_witness:
  "\<exists>c' rs. add_events ex_fe_env [1, 2, 3, 4, 5, 6, 7, 8, 9] (ex_call 1000000 []) = Ret c' \<and> read_events 9 c' = Ret rs \<and>
    map (\<lambda>(err, e). (err, map_option event_status e)) rs =
      [(- EOVERFLOW, None), (0, Some 3), (0, Some 4), (0, Some 5), (0, Some 6), (0, Some 7), (0, Some 8), (0, Some 9), (- EWOULDBLOCK, None)]"
proof -
  have "quiet (ex_call 1000000 [])" "event_queue (fe_events (this_fe (ex_call 1000000 []))) = []"
    "\<not> overflow (fe_events (this_fe (ex_call 1000000 [])))"
    by (simp_all add: ex_fe_defs quiet_def events_ok_def event_queue_def ring_contents_def)
  from latest_events_delivered [OF this, of ex_fe_env "[1, 2, 3, 4, 5, 6, 7, 8, 9]"]
  show ?thesis by (simp add: eval_nat_numeral del: add_events.simps read_events.simps)
qed

section \<open>The lock of a front end\<close>

text \<open>
  C38. A blocking read of events that is interrupted twice by signals, once in the wait and once when it
  takes the lock of the front end again, gives back a lock it does not hold: the command returns with the
  semaphore one higher than before, and from then on two commands run at the same time.
\<close>

theorem interrupted_event_wait_raises_lock:
  assumes "ioctl (frontend (this_fe c)) \<noteq> None" "\<not> fe_exit (this_fe c)" "fe_sem (this_fe c) = n" "0 < n"
    "\<not> overflow (fe_events (this_fe c))" "eventw (fe_events (this_fe c)) = eventr (fe_events (this_fe c))"
    "sigs c = [False, True, True]"
  shows "\<exists>c'. dvb_frontend_ioctl env False ws FE_GET_EVENT arg c = Ret (- ERESTARTSYS, arg, c') \<and> fe_sem (this_fe c') = n + 1"
  using assms
  by (simp add: dvb_frontend_ioctl_def frontend_command_def dvb_frontend_get_event_def wait_event.simps [of ws]
      down_fe_def up_fe_def upd_fe_def next_sig_def)

theorem interrupted_event_wait_raises_lock_witness:
  "\<exists>c'. dvb_frontend_ioctl ex_fe_env False [] FE_GET_EVENT Arg_null ((ex_call 1000000 [])\<lparr>sigs := [False, True, True]\<rparr>) =
      Ret (- ERESTARTSYS, Arg_null, c') \<and> fe_sem (this_fe c') = 2"
proof -
  let ?c = "(ex_call 1000000 [])\<lparr>sigs := [False, True, True]\<rparr>"
  have "ioctl (frontend (this_fe ?c)) \<noteq> None" "\<not> fe_exit (this_fe ?c)" "fe_sem (this_fe ?c) = 1" "0 < (1 :: nat)"
    "\<not> overflow (fe_events (this_fe ?c))" "eventw (fe_events (this_fe ?c)) = eventr (fe_events (this_fe ?c))" "sigs ?c = [False, True, True]"
    by (simp_all add: ex_fe_defs)
  from interrupted_event_wait_raises_lock [OF this, of ex_fe_env "[]" Arg_null] show ?thesis by (simp add: numeral_2_eq_2)
qed

text \<open>The routines below the lock do not touch it.\<close>

lemma call_driver_this: "call_driver env cmd arg c = Ret (err, arg', c') \<Longrightarrow> this_fe c' = this_fe c \<and> sigs c' = sigs c"
  by (auto simp: call_driver_def kbind_eq_Ret_iff)

lemma notifiers_this: "fe_sem (this_fe (dvb_call_frontend_notifiers env st c)) = fe_sem (this_fe c)"
  "sigs (dvb_call_frontend_notifiers env st c) = sigs c"
  by (simp_all add: notifiers_effect)

lemma add_event_this:
  "dvb_frontend_add_event env st c = Ret c' \<Longrightarrow> fe_sem (this_fe c') = fe_sem (this_fe c)"
  by (auto simp: dvb_frontend_add_event_def kbind_eq_Ret_iff notifiers_this upd_fe_def next_sig_def Let_def
      split: if_splits list.splits prod.splits dest!: call_driver_this)

lemma bend_this: "fe_sem (this_fe (dvb_bend_frequency c)) = fe_sem (this_fe c)"
proof -
  obtain b where "bend_rec 0 (others c) ((this_fe c)\<lparr>bending := 0\<rparr>) = (this_fe c)\<lparr>bending := 0, bending := b\<rparr>"
    using bend_rec_frame by blast
  then show ?thesis
    by (auto simp: dvb_bend_frequency_def next_sig_def upd_fe_def split: list.split)
qed

lemma set_parameters_this:
  assumes "dvb_frontend_set_parameters env p first c = Ret (err, p', c')"
  shows "fe_sem (this_fe c') = fe_sem (this_fe c)"
  using assms
  by (auto simp: dvb_frontend_set_parameters_def kbind_eq_Ret_iff Let_def upd_fe_def bend_this
      split: if_splits dest!: call_driver_this add_event_this)

lemma get_event_this:
  assumes "dvb_frontend_get_event True ws c = Ret (err, e, c')"
  shows "fe_sem (this_fe c') = fe_sem (this_fe c)"
  using assms
  by (auto simp: dvb_frontend_get_event_def take_event_def Let_def upd_fe_def next_sig_def split: if_splits list.splits)

lemma command_this:
  assumes "frontend_command env nb ws cmd arg c = Ret (err, arg', c')" "nb \<or> cmd \<noteq> FE_GET_EVENT"
  shows "fe_sem (this_fe c') = fe_sem (this_fe c)"
proof -
  let ?pass = "\<lambda>arg c. kbind (call_driver env cmd arg c) (\<lambda>(err, arg, c). Ret (0, arg, c))"
  have p: "?pass a d = Ret (err, arg', c') \<Longrightarrow> fe_sem (this_fe c') = fe_sem (this_fe d)" for a d
    by (auto simp: kbind_eq_Ret_iff dest!: call_driver_this)
  consider "cmd = FE_SET_FRONTEND" | "cmd = FE_GET_EVENT" "nb"
    | a d where "?pass a d = Ret (err, arg', c')" "fe_sem (this_fe d) = fe_sem (this_fe c)"
    using assms by (auto simp: frontend_command_def Let_def notifiers_this split: if_splits)
  then show ?thesis
  proof cases
    case 1
    then show ?thesis using assms(1)
      by (auto simp: frontend_command_def kbind_eq_Ret_iff split: fe_arg.splits dest!: set_parameters_this)
  next
    case 2
    then show ?thesis using assms(1)
      by (auto simp: frontend_command_def kbind_eq_Ret_iff dest!: get_event_this)
  next
    case 3
    then show ?thesis using p by metis
  qed
qed

text \<open>
  C28. Every other command leaves the lock of the front end as it found it, on every path and whatever
  signals arrive: only a blocking read of events can unbalance it.
\<close>

theorem commands_keep_lock:
  assumes "dvb_frontend_ioctl env nb ws cmd arg c = Ret (err, arg', c')" "nb \<or> cmd \<noteq> FE_GET_EVENT"
  shows "fe_sem (this_fe c') = fe_sem (this_fe c)"
proof -
  have u: "fe_sem (this_fe (up_fe d)) = fe_sem (this_fe d) + 1" for d :: "'a fecall" by (simp add: up_fe_def upd_fe_def)
  have d: "down_fe c = Ret (ok, c1) \<Longrightarrow> fe_sem (this_fe c) = fe_sem (this_fe c1) + of_bool ok" for ok c1
    by (auto simp: down_fe_def next_sig_def upd_fe_def split: if_splits list.splits)
  consider "c' = c" | ok c1 where "down_fe c = Ret (ok, c1)"
      "if ok then \<exists>c2 e a. frontend_command env nb ws cmd arg c1 = Ret (e, a, c2) \<and> c' = up_fe c2 else c' = c1"
    using assms(1) by (fastforce simp: dvb_frontend_ioctl_def kbind_eq_Ret_iff split: if_splits)
  then show ?thesis
  proof cases
    case 2
    then show ?thesis using d [OF 2(1)] command_this [OF _ assms(2)] u by (fastforce split: if_splits)
  qed simp
qed

theorem commands_keep_lock_witness:
  "\<exists>err arg' c'. dvb_frontend_ioctl ex_fe_env False [] FE_SET_TONE Arg_null (ex_call 1000000 []) = Ret (err, arg', c') \<and>
    fe_sem (this_fe c') = 1"
proof -
  have "\<exists>err arg' c'. dvb_frontend_ioctl ex_fe_env False [] FE_SET_TONE Arg_null (ex_call 1000000 []) = Ret (err, arg', c')"
    by (simp add: dvb_frontend_ioctl_def down_fe_def next_sig_def upd_fe_def frontend_command_def call_driver_def
        dvb_frontend_internal_ioctl_def ex_fe_defs)
  then obtain err arg' c' where r: "dvb_frontend_ioctl ex_fe_env False [] FE_SET_TONE Arg_null (ex_call 1000000 []) = Ret (err, arg', c')"
    by blast
  have "fe_sem (this_fe c') = fe_sem (this_fe (ex_call 1000000 []))" by (rule commands_keep_lock [OF r]) simp
  then show ?thesis using r by (simp add: ex_call_def ex_fe_def)
qed

end
