(* ===== verification/DVB_Fe_Registry.thy ===== *)
theory DVB_Fe_Registry
  imports DVB_Tuning
begin

text \<open>
  The rest of \<^verbatim>\<open>dvb_frontend.c\<close>: the list of front ends with the hooks and notifiers of the
  adapters, the start and stop of the kernel threads, and open and release of the devices.

  Front ends are allocated structures, found by their address in \<open>fs_heap\<close>; an access to a freed one
  faults. A thread is known by its process number, with the front end it serves and the state it is in
  (\<open>Spawned\<close> until it first runs). \<open>fs_sigs\<close> lists the signals that the next interruptible waits meet.
  What other threads do while a caller sleeps is a function argument.
\<close>

section \<open>The code\<close>

record dvb_frontend_ioctl_data =
  ioctl_adapter :: nat
  ioctl_before :: "nat option"
  ioctl_after :: "nat option"
  ioctl_data :: nat

record dvb_frontend_notifier_data =
  notifier_adapter :: nat
  notifier_func :: "nat option"
  notifier_arg :: nat

datatype thread_phase = Spawned | Sleeping fe_thread

record 'h fesys =
  fs_heap :: "nat \<Rightarrow> dvb_frontend_data option"
  frontend_list :: "nat list"
  frontend_ioctl_list :: "dvb_frontend_ioctl_data list"
  frontend_notifier_list :: "dvb_frontend_notifier_data list"
  fs_adapters :: "dvb_adapter list"
  fs_threads :: "(nat \<times> nat \<times> thread_phase) list"
  fs_jiffies :: u32
  fs_sigs :: "bool list"
  fs_hw :: 'h

definition with_fe :: "nat \<Rightarrow> (dvb_frontend_data \<Rightarrow> 'b kres) \<Rightarrow> 'h fesys \<Rightarrow> 'b kres" where
  "with_fe a f s = (case fs_heap s a of None \<Rightarrow> Oops | Some fe \<Rightarrow> f fe)"

definition set_fe :: "nat \<Rightarrow> dvb_frontend_data \<Rightarrow> 'h fesys \<Rightarrow> 'h fesys" where
  "set_fe a fe s = s\<lparr>fs_heap := (fs_heap s)(a := Some fe)\<rparr>"

definition take_sig :: "'h fesys \<Rightarrow> bool \<times> 'h fesys" where
  "take_sig s = (case fs_sigs s of [] \<Rightarrow> (False, s) | b # bs \<Rightarrow> (b, s\<lparr>fs_sigs := bs\<rparr>))"

fun find_dev :: "nat \<Rightarrow> dvb_device list \<Rightarrow> dvb_device option" where
  "find_dev a [] = None"
| "find_dev a (d # ds) = (if dev_addr d = a then Some d else find_dev a ds)"

definition the_dev :: "nat option \<Rightarrow> dvb_adapter list \<Rightarrow> dvb_device option" where
  "the_dev p adaps = (case p of None \<Rightarrow> None | Some a \<Rightarrow> find_dev a (concat (map device_list adaps)))"

definition put_dev :: "dvb_device \<Rightarrow> dvb_adapter list \<Rightarrow> dvb_adapter list" where
  "put_dev d adaps =
     map (\<lambda>adap. adap\<lparr>device_list := map (\<lambda>e. if dev_addr e = dev_addr d then d else e) (device_list adap)\<rparr>) adaps"

subsection \<open>A routine on one front end\<close>

text \<open>
  \<open>on_fe a f s\<close> runs \<open>f\<close> on the context of the front end at \<open>a\<close> and stores what it changes. The
  front ends it may compare with are the others on the list.
\<close>

definition fe_context :: "nat \<Rightarrow> dvb_frontend_data \<Rightarrow> 'h fesys \<Rightarrow> 'h fecall" where
  "fe_context a fe s =
     \<lparr>this_fe = fe, others = List.map_filter (fs_heap s) (filter (\<lambda>b. b \<noteq> a) (frontend_list s)),
      writers = map_option dev_writers (the_dev (dvbdev fe) (fs_adapters s)), jiffies = fs_jiffies s, sigs = fs_sigs s,
      hw = fs_hw s\<rparr>"

definition store_context :: "nat \<Rightarrow> 'h fecall \<Rightarrow> 'h fesys \<Rightarrow> 'h fesys" where
  "store_context a c s = (set_fe a (this_fe c) s)\<lparr>fs_sigs := sigs c, fs_hw := hw c\<rparr>"

definition on_fe :: "nat \<Rightarrow> ('h fecall \<Rightarrow> ('r \<times> 'h fecall) kres) \<Rightarrow> 'h fesys \<Rightarrow> ('r \<times> 'h fesys) kres" where
  "on_fe a f s = with_fe a (\<lambda>fe. kbind (f (fe_context a fe s)) (\<lambda>(r, c). Ret (r, store_context a c s))) s"

text \<open>One run of the thread \<open>pid\<close>, from its creation or its sleep to the next sleep or to its end.\<close>

definition dvb_frontend_thread :: "'h fe_env \<Rightarrow> fe_status \<Rightarrow> bool \<Rightarrow> nat \<Rightarrow> 'h fesys \<Rightarrow> 'h fesys kres" where
  "dvb_frontend_thread env junk sig_pending pid s =
     (case map_of (fs_threads s) pid of
        None \<Rightarrow> Ret s
      | Some (a, phase) \<Rightarrow>
          kbind (on_fe a (case phase of
              Spawned \<Rightarrow> thread_start env junk | Sleeping th \<Rightarrow> thread_wake env sig_pending th) s) (\<lambda>(r, s).
            let rest = filter (\<lambda>(p, _). p \<noteq> pid) (fs_threads s)
            in case r of
                 Asleep th \<Rightarrow> Ret (s\<lparr>fs_threads := (pid, a, Sleeping th) # rest\<rparr>)
               | Exited \<Rightarrow> Ret (s\<lparr>fs_threads := rest\<rparr>)))"

subsection \<open>Starting and stopping the thread\<close>

definition dvb_frontend_stop :: "('h fesys \<Rightarrow> 'h fesys kres) \<Rightarrow> nat \<Rightarrow> 'h fesys \<Rightarrow> 'h fesys kres" where
  "dvb_frontend_stop sleep a s =
     with_fe a (\<lambda>fe.
       let fe = fe\<lparr>fe_exit := True\<rparr>; s = set_fe a fe s
       in if thread_pid fe = 0 then Ret s
          else if map_of (fs_threads s) (thread_pid fe) = None then Ret (set_fe a (fe\<lparr>fe_sem := 1\<rparr>) s)
          else sleep s) s"

text \<open>\<open>ret\<close> is what \<^verbatim>\<open>kernel_thread\<close> returns: the process number of the new thread, or an error.\<close>

definition dvb_frontend_start ::
  "('h fesys \<Rightarrow> 'h fesys kres) \<Rightarrow> bool \<Rightarrow> int \<Rightarrow> nat \<Rightarrow> 'h fesys \<Rightarrow> (int \<times> 'h fesys) kres" where
  "dvb_frontend_start sleep sig_pending ret a s =
     with_fe a (\<lambda>fe.
       if thread_pid fe \<noteq> 0 \<and> \<not> fe_exit fe then Ret (0, s)
       else kbind (if thread_pid fe \<noteq> 0 then dvb_frontend_stop sleep a s else Ret s) (\<lambda>s.
         if sig_pending then Ret (- EINTR, s)
         else kbind (on_fe a down_fe s) (\<lambda>(ok, s).
           if \<not> ok then Ret (- EINTR, s)
           else with_fe a (\<lambda>fe.
             let fe = fe\<lparr>fe_exit := False, thread_pid := 0\<rparr>
             in if ret < 0 then Ret (ret, set_fe a (fe\<lparr>fe_sem := fe_sem fe + 1\<rparr>) s)
                else Ret (0, (set_fe a (fe\<lparr>thread_pid := nat ret\<rparr>) s)\<lparr>fs_threads := (nat ret, a, Spawned) # fs_threads s\<rparr>)) s))) s"

subsection \<open>Open and release\<close>

definition store_dev :: "dvb_device option \<Rightarrow> 'h fesys \<Rightarrow> 'h fesys" where
  "store_dev dev s = (case dev of None \<Rightarrow> s | Some d \<Rightarrow> s\<lparr>fs_adapters := put_dev d (fs_adapters s)\<rparr>)"

definition dvb_frontend_open ::
  "('h fesys \<Rightarrow> 'h fesys kres) \<Rightarrow> bool \<Rightarrow> int \<Rightarrow> access \<Rightarrow> nat \<Rightarrow> 'h fesys \<Rightarrow> (int \<times> 'h fesys) kres" where
  "dvb_frontend_open sleep sig_pending thread_ret mode a s =
     with_fe a (\<lambda>fe.
       case dvb_generic_open (the_dev (dvbdev fe) (fs_adapters s)) mode of
         (ret, dev) \<Rightarrow>
           if ret < 0 then Ret (ret, s)
           else
             let s = store_dev dev s
             in if mode = O_RDONLY then Ret (ret, s)
                else kbind (dvb_frontend_start sleep sig_pending thread_ret a s) (\<lambda>(ret, s).
                  let s = (if ret \<noteq> 0
                        then store_dev (snd (dvb_generic_release (the_dev (dvbdev fe) (fs_adapters s)) mode)) s else s)
                  in with_fe a (\<lambda>fe.
                    Ret (ret, set_fe a (fe\<lparr>fe_events := (fe_events fe)\<lparr>eventr := 0, eventw := 0\<rparr>\<rparr>) s)) s)) s"

definition dvb_frontend_release :: "access \<Rightarrow> nat \<Rightarrow> 'h fesys \<Rightarrow> (int \<times> 'h fesys) kres" where
  "dvb_frontend_release mode a s =
     with_fe a (\<lambda>fe.
       let s = (if mode = O_RDONLY then s else set_fe a (fe\<lparr>release_jiffies := fs_jiffies s\<rparr>) s)
       in case dvb_generic_release (the_dev (dvbdev fe) (fs_adapters s)) mode of
            (ret, dev) \<Rightarrow> Ret (ret, store_dev dev s)) s"

subsection \<open>Hooks and notifiers of the adapters\<close>

text \<open>The loop over the list of front ends: every one of them is looked at and possibly changed.\<close>

definition for_each_fe :: "(dvb_frontend_data \<Rightarrow> dvb_frontend_data) \<Rightarrow> 'h fesys \<Rightarrow> 'h fesys" where
  "for_each_fe f s = s\<lparr>fs_heap := (\<lambda>a. if a \<in> set (frontend_list s) then map_option f (fs_heap s a) else fs_heap s a)\<rparr>"

text \<open>The loop that removes the first matching entry of a list.\<close>

fun remove_first :: "('a \<Rightarrow> bool) \<Rightarrow> 'a list \<Rightarrow> 'a list" where
  "remove_first P [] = []"
| "remove_first P (x # xs) = (if P x then xs else x # remove_first P xs)"

definition fe_adapter :: "dvb_frontend_data \<Rightarrow> nat" where
  "fe_adapter fe = bus_adapter (i2c (frontend fe))"

definition dvb_add_frontend_ioctls ::
  "bool \<Rightarrow> nat \<Rightarrow> nat option \<Rightarrow> nat option \<Rightarrow> nat \<Rightarrow> 'h fesys \<Rightarrow> int \<times> 'h fesys" where
  "dvb_add_frontend_ioctls mem adapter before after data s =
     (let (sig, s) = take_sig s
      in if sig then (- ERESTARTSYS, s)
         else if \<not> mem then (- ENOMEM, s)
         else
           let entry = \<lparr>ioctl_adapter = adapter, ioctl_before = before, ioctl_after = after, ioctl_data = data\<rparr>;
               s = s\<lparr>frontend_ioctl_list := frontend_ioctl_list s @ [entry]\<rparr>
           in (0, for_each_fe (\<lambda>fe.
             if fe_adapter fe = adapter \<and> before_ioctl (frontend fe) = None \<and> after_ioctl (frontend fe) = None
             then fe\<lparr>frontend := (frontend fe)\<lparr>before_ioctl := before, after_ioctl := after, before_after_data := data\<rparr>\<rparr>
             else fe) s))"

definition dvb_remove_frontend_ioctls :: "nat \<Rightarrow> nat option \<Rightarrow> nat option \<Rightarrow> 'h fesys \<Rightarrow> 'h fesys" where
  "dvb_remove_frontend_ioctls adapter before after s =
     (let s = for_each_fe (\<lambda>fe.
            if fe_adapter fe = adapter \<and> before_ioctl (frontend fe) = before \<and> after_ioctl (frontend fe) = after
            then fe\<lparr>frontend := (frontend fe)\<lparr>before_ioctl := None, after_ioctl := None\<rparr>\<rparr> else fe) s
      in s\<lparr>frontend_ioctl_list := remove_first
        (\<lambda>e. ioctl_adapter e = adapter \<and> ioctl_before e = before \<and> ioctl_after e = after) (frontend_ioctl_list s)\<rparr>)"

definition dvb_add_frontend_notifier :: "bool \<Rightarrow> nat \<Rightarrow> nat option \<Rightarrow> nat \<Rightarrow> 'h fesys \<Rightarrow> int \<times> 'h fesys" where
  "dvb_add_frontend_notifier mem adapter callback data s =
     (let (sig, s) = take_sig s
      in if sig then (- ERESTARTSYS, s)
         else if \<not> mem then (- ENOMEM, s)
         else
           let entry = \<lparr>notifier_adapter = adapter, notifier_func = callback, notifier_arg = data\<rparr>;
               s = s\<lparr>frontend_notifier_list := frontend_notifier_list s @ [entry]\<rparr>
           in (0, for_each_fe (\<lambda>fe.
             if fe_adapter fe = adapter \<and> notifier_callback (frontend fe) = None
             then fe\<lparr>frontend := (frontend fe)\<lparr>notifier_callback := callback, notifier_data := data\<rparr>\<rparr> else fe) s))"

definition dvb_remove_frontend_notifier :: "nat \<Rightarrow> nat option \<Rightarrow> 'h fesys \<Rightarrow> 'h fesys" where
  "dvb_remove_frontend_notifier adapter callback s =
     (let s = for_each_fe (\<lambda>fe.
            if fe_adapter fe = adapter \<and> notifier_callback (frontend fe) = callback
            then fe\<lparr>frontend := (frontend fe)\<lparr>notifier_callback := None\<rparr>\<rparr> else fe) s
      in s\<lparr>frontend_notifier_list := remove_first
        (\<lambda>e. notifier_adapter e = adapter \<and> notifier_func e = callback) (frontend_notifier_list s)\<rparr>)"

subsection \<open>Registration of front ends\<close>

definition zero_params :: dvb_frontend_parameters where
  "zero_params = \<lparr>frequency = 0, inversion = 0, par_u0 = 0, par_u = replicate 6 0\<rparr>"

text \<open>The structure after \<^verbatim>\<open>memset\<close> and the initialisation of its fields.\<close>

definition new_frontend :: "nat option \<Rightarrow> dvb_i2c_bus \<Rightarrow> nat \<Rightarrow> dvb_frontend_info \<Rightarrow> dvb_frontend_data" where
  "new_frontend ioc bus data nfo =
     \<lparr>info = nfo,
      frontend = \<lparr>before_ioctl = None, ioctl = ioc, after_ioctl = None, notifier_callback = None, i2c = bus,
        before_after_data = 0, notifier_data = 0, fe_data = data\<rparr>,
      dvbdev = None, parameters = zero_params,
      fe_events = \<lparr>events = replicate MAX_EVENT \<lparr>event_status = 0, event_parameters = zero_params\<rparr>, eventw = 0, eventr = 0,
        overflow = False, events_sem = 1\<rparr>,
      fe_sem = 1, thread_pid = 0, release_jiffies = 0, lost_sync_jiffies = 0, bending = 0, lnb_drift = 0,
      timeout_count = 0, lost_sync_count = 0, fe_exit = False, status = 0\<rparr>"

definition inherit_ioctls :: "dvb_frontend_ioctl_data list \<Rightarrow> nat \<Rightarrow> dvb_frontend \<Rightarrow> dvb_frontend" where
  "inherit_ioctls entries adapter fe =
     (case find (\<lambda>e. ioctl_adapter e = adapter) entries of
        None \<Rightarrow> fe
      | Some e \<Rightarrow> fe\<lparr>before_ioctl := ioctl_before e, after_ioctl := ioctl_after e, before_after_data := ioctl_data e\<rparr>)"

definition inherit_notifier :: "dvb_frontend_notifier_data list \<Rightarrow> nat \<Rightarrow> dvb_frontend \<Rightarrow> dvb_frontend" where
  "inherit_notifier entries adapter fe =
     (case find (\<lambda>e. notifier_adapter e = adapter) entries of
        None \<Rightarrow> fe
      | Some e \<Rightarrow> fe\<lparr>notifier_callback := notifier_func e, notifier_data := notifier_arg e\<rparr>)"

definition frontend_template :: dvb_device where
  "frontend_template = \<lparr>dev_addr = 0, dev_fops = True, dev_type = 0, dev_id = 0, dev_readers = - 2, dev_writers = 1,
     dev_users = - 1, kernel_ioctl = True, dev_priv = None\<rparr>"

text \<open>
  \<open>addr\<close> and \<open>daddr\<close> are the addresses of the new front end and of its device structure, if they can
  be allocated. The result of the registration of the device is ignored.
\<close>

definition dvb_register_frontend ::
  "nat option \<Rightarrow> nat option \<Rightarrow> nat option \<Rightarrow> dvb_i2c_bus \<Rightarrow> nat \<Rightarrow> dvb_frontend_info \<Rightarrow> 'h fesys \<Rightarrow> (int \<times> 'h fesys) kres" where
  "dvb_register_frontend addr daddr ioc bus data nfo s =
     (let (sig, s) = take_sig s
      in if sig then Ret (- ERESTARTSYS, s)
         else case addr of
             None \<Rightarrow> Ret (- ENOMEM, s)
           | Some a \<Rightarrow>
               let fe = new_frontend ioc bus data nfo;
                   fe = fe\<lparr>frontend := inherit_notifier (frontend_notifier_list s) (bus_adapter bus)
                     (inherit_ioctls (frontend_ioctl_list s) (bus_adapter bus) (frontend fe))\<rparr>
               in case find (\<lambda>adap. adap_num adap = bus_adapter bus) (fs_adapters s) of
                    None \<Rightarrow> Oops
                  | Some adap \<Rightarrow>
                      let (sig, s) = take_sig s;
                          (ret, dev, adaps) = dvb_register_device sig daddr None adap frontend_template (Some a)
                            DVB_DEVICE_FRONTEND (fs_adapters s)
                      in Ret (0, (set_fe a (fe\<lparr>dvbdev := dev\<rparr>) s)\<lparr>frontend_list := frontend_list s @ [a], fs_adapters := adaps\<rparr>))"

definition dvb_unregister_frontend ::
  "('h fesys \<Rightarrow> 'h fesys kres) \<Rightarrow> nat option \<Rightarrow> dvb_i2c_bus \<Rightarrow> 'h fesys \<Rightarrow> (int \<times> 'h fesys) kres" where
  "dvb_unregister_frontend sleep ioc bus s =
     (case find (\<lambda>a. case fs_heap s a of None \<Rightarrow> False
          | Some fe \<Rightarrow> ioctl (frontend fe) = ioc \<and> bus_addr (i2c (frontend fe)) = bus_addr bus) (frontend_list s) of
        None \<Rightarrow> Ret (- EINVAL, s)
      | Some a \<Rightarrow>
          with_fe a (\<lambda>fe.
            let s = s\<lparr>fs_adapters := dvb_unregister_device (dvbdev fe) (fs_adapters s),
              frontend_list := filter (\<lambda>b. b \<noteq> a) (frontend_list s)\<rparr>
            in kbind (dvb_frontend_stop sleep a s) (\<lambda>s. Ret (0, s\<lparr>fs_heap := (fs_heap s)(a := None)\<rparr>))) s)"

section \<open>Hooks do not depend on the order of registration\<close>

lemma take_sig_none: "fs_sigs s = [] \<Longrightarrow> take_sig s = (False, s)"
  by (simp add: take_sig_def)

lemma find_append: "find P (xs @ ys) = (case find P xs of None \<Rightarrow> find P ys | Some x \<Rightarrow> Some x)"
  by (induction xs) simp_all

definition has_hook :: "dvb_frontend_ioctl_data \<Rightarrow> bool" where
  "has_hook e \<longleftrightarrow> ioctl_before e \<noteq> None \<or> ioctl_after e \<noteq> None"

lemma inherit_then_add:
  assumes "\<forall>e\<in>set es. has_hook e" "before_ioctl fe = None" "after_ioctl fe = None"
  shows "inherit_ioctls (es @ [e]) (ioctl_adapter e) fe =
    (if before_ioctl (inherit_ioctls es (ioctl_adapter e) fe) = None \<and> after_ioctl (inherit_ioctls es (ioctl_adapter e) fe) = None
     then (inherit_ioctls es (ioctl_adapter e) fe)\<lparr>before_ioctl := ioctl_before e, after_ioctl := ioctl_after e, before_after_data := ioctl_data e\<rparr>
     else inherit_ioctls es (ioctl_adapter e) fe)"
proof (cases "find (\<lambda>d. ioctl_adapter d = ioctl_adapter e) es")
  case None
  then show ?thesis using assms by (simp add: inherit_ioctls_def find_append)
next
  case (Some d)
  then have "has_hook d" using assms(1) by (metis find_Some_iff nth_mem)
  then show ?thesis using Some by (auto simp: inherit_ioctls_def find_append has_hook_def)
qed

lemma inherit_notifier_hooks [simp]:
  "before_ioctl (inherit_notifier ns ad fe) = before_ioctl fe" "after_ioctl (inherit_notifier ns ad fe) = after_ioctl fe"
  "(inherit_notifier ns ad fe)\<lparr>before_ioctl := b, after_ioctl := f, before_after_data := d\<rparr> =
     inherit_notifier ns ad (fe\<lparr>before_ioctl := b, after_ioctl := f, before_after_data := d\<rparr>)"
  "i2c (inherit_notifier ns ad fe) = i2c fe"
  by (auto simp: inherit_notifier_def split: option.splits)

lemma inherit_ioctls_bus [simp]: "i2c (inherit_ioctls es ad fe) = i2c fe"
  by (simp add: inherit_ioctls_def split: option.splits)

text \<open>
  C29. It does not matter whether an adapter driver installs its hooks before or after a front end on
  its bus is registered: both orders lead to the same state, in which the front end has the hooks
  that were installed first.
\<close>

theorem hooks_and_front_end_in_any_order:
  assumes "fs_sigs s = []" "\<forall>e\<in>set (frontend_ioctl_list s). has_hook e" "a \<notin> set (frontend_list s)"
    "find (\<lambda>adap. adap_num adap = bus_adapter bus) (fs_adapters s) = Some adap"
  shows "\<exists>s'. dvb_register_frontend (Some a) d ioc bus data nfo (snd (dvb_add_frontend_ioctls True (bus_adapter bus) before after hdata s)) = Ret (0, s') \<and>
    (\<exists>s1. dvb_register_frontend (Some a) d ioc bus data nfo s = Ret (0, s1) \<and>
      dvb_add_frontend_ioctls True (bus_adapter bus) before after hdata s1 = (0, s'))"
proof -
  let ?e = "\<lparr>ioctl_adapter = bus_adapter bus, ioctl_before = before, ioctl_after = after, ioctl_data = hdata\<rparr>"
  let ?h = "\<lambda>fe. if fe_adapter fe = bus_adapter bus \<and> before_ioctl (frontend fe) = None \<and> after_ioctl (frontend fe) = None
    then fe\<lparr>frontend := (frontend fe)\<lparr>before_ioctl := before, after_ioctl := after, before_after_data := hdata\<rparr>\<rparr> else fe"
  obtain ret dev adaps where r: "dvb_register_device False d None adap frontend_template (Some a) DVB_DEVICE_FRONTEND (fs_adapters s) = (ret, dev, adaps)"
    by (metis prod_cases3)
  let ?fe = "\<lambda>es. (new_frontend ioc bus data nfo)\<lparr>frontend := inherit_notifier (frontend_notifier_list s) (bus_adapter bus)
    (inherit_ioctls es (bus_adapter bus) (frontend (new_frontend ioc bus data nfo))), dvbdev := dev\<rparr>"
  let ?s1 = "(set_fe a (?fe (frontend_ioctl_list s)) s)\<lparr>frontend_list := frontend_list s @ [a], fs_adapters := adaps\<rparr>"
  let ?s2 = "for_each_fe ?h (?s1\<lparr>frontend_ioctl_list := frontend_ioctl_list s @ [?e]\<rparr>)"
  let ?t1 = "for_each_fe ?h (s\<lparr>frontend_ioctl_list := frontend_ioctl_list s @ [?e]\<rparr>)"
  let ?t2 = "(set_fe a (?fe (frontend_ioctl_list s @ [?e])) ?t1)\<lparr>frontend_list := frontend_list s @ [a], fs_adapters := adaps\<rparr>"
  have "?fe (frontend_ioctl_list s @ [?e]) = ?h (?fe (frontend_ioctl_list s))"
    using inherit_then_add [OF assms(2), of "frontend (new_frontend ioc bus data nfo)" ?e]
    by (simp add: new_frontend_def fe_adapter_def)
  then have "fs_heap ?t2 = fs_heap ?s2" using assms(3) by (auto simp: for_each_fe_def set_fe_def)
  then have eq: "?t2 = ?s2" by (cases s) (simp add: for_each_fe_def set_fe_def)
  have 1: "dvb_register_frontend (Some a) d ioc bus data nfo s = Ret (0, ?s1)"
    using assms(1,4) r by (simp add: dvb_register_frontend_def take_sig_none Let_def)
  have 2: "dvb_add_frontend_ioctls True (bus_adapter bus) before after hdata ?s1 = (0, ?s2)"
    using assms(1) by (simp add: dvb_add_frontend_ioctls_def take_sig_none set_fe_def)
  have 3: "dvb_add_frontend_ioctls True (bus_adapter bus) before after hdata s = (0, ?t1)"
    using assms(1) by (simp add: dvb_add_frontend_ioctls_def take_sig_none)
  have "dvb_register_frontend (Some a) d ioc bus data nfo ?t1 = Ret (0, ?t2)"
    using assms(1,4) r by (simp add: dvb_register_frontend_def take_sig_def for_each_fe_def Let_def)
  then show ?thesis using 1 2 3 eq by auto
qed

definition ex_device :: dvb_device where
  "ex_device = frontend_template\<lparr>dev_addr := 50, dev_type := DVB_DEVICE_FRONTEND\<rparr>"

definition ex_sys :: "nat fesys" where
  "ex_sys = \<lparr>fs_heap = (\<lambda>_. None)(20 := Some ((ex_fe 1000000)\<lparr>dvbdev := Some 50, thread_pid := 0\<rparr>)), frontend_list = [20],
     frontend_ioctl_list = [], frontend_notifier_list = [],
     fs_adapters = [\<lparr>adap_num = 0, adap_name = ''adapter'', device_list = [ex_device]\<rparr>], fs_threads = [], fs_jiffies = 0, fs_sigs = [],
     fs_hw = 0\<rparr>"

theorem hooks_and_front_end_in_any_order_witness:
  "\<exists>s' s1. dvb_register_frontend (Some 21) (Some 51) (Some 4) (ex_bus 2) 0 ex_info
      (snd (dvb_add_frontend_ioctls True (bus_adapter (ex_bus 2)) (Some 8) None 0 ex_sys)) = Ret (0, s') \<and>
    dvb_register_frontend (Some 21) (Some 51) (Some 4) (ex_bus 2) 0 ex_info ex_sys = Ret (0, s1) \<and>
    dvb_add_frontend_ioctls True (bus_adapter (ex_bus 2)) (Some 8) None 0 s1 = (0, s')"
proof -
  have "fs_sigs ex_sys = []" "\<forall>e\<in>set (frontend_ioctl_list ex_sys). has_hook e" "21 \<notin> set (frontend_list ex_sys)"
    "find (\<lambda>adap. adap_num adap = bus_adapter (ex_bus 2)) (fs_adapters ex_sys) =
      Some \<lparr>adap_num = 0, adap_name = ''adapter'', device_list = [ex_device]\<rparr>"
    by (simp_all add: ex_sys_def ex_bus_def)
  from hooks_and_front_end_in_any_order [OF this, of "Some 51" "Some 4" 0 ex_info "Some 8" None 0] show ?thesis by blast
qed

section \<open>Opening a front end again\<close>

text \<open>The start routine when no thread has to be stopped first.\<close>

lemma start_fresh:
  assumes "fs_heap s a = Some fe" "thread_pid fe = 0" "fs_sigs s = []" "0 < fe_sem fe" "0 \<le> pid"
  shows "dvb_frontend_start sleep False pid a s =
    Ret (0, (set_fe a (fe\<lparr>fe_sem := fe_sem fe - 1, fe_exit := False, thread_pid := nat pid\<rparr>) s)
      \<lparr>fs_threads := (nat pid, a, Spawned) # fs_threads s\<rparr>)"
proof -
  have "s\<lparr>fs_heap := h, fs_sigs := [], fs_hw := fs_hw s\<rparr> = s\<lparr>fs_heap := h\<rparr>" for h using assms(3) by (cases s) simp
  then have "on_fe a down_fe s = Ret (True, set_fe a (fe\<lparr>fe_sem := fe_sem fe - 1\<rparr>) s)"
    using assms by (simp add: on_fe_def with_fe_def fe_context_def down_fe_def next_sig_def upd_fe_def store_context_def set_fe_def)
  then show ?thesis
    using assms by (simp add: dvb_frontend_start_def with_fe_def set_fe_def)
qed

text \<open>
  C39. Opening a front end for tuning starts its thread and empties the event queue, but keeps the
  overflow mark of the previous user: when the last user has left it set, the first read of the new
  user reports lost events although there never were any for him.
\<close>

theorem reopened_front_end_reports_old_overflow:
  assumes "fs_heap s a = Some fe" "thread_pid fe = 0" "fs_sigs s = []" "0 < fe_sem fe" "0 < pid" "mode \<noteq> O_RDONLY"
    "the_dev (dvbdev fe) (fs_adapters s) = Some dev" "dev_users dev \<noteq> 0" "dev_writers dev \<noteq> 0" "overflow (fe_events fe)"
  shows "\<exists>s' fe'. dvb_frontend_open sleep False pid mode a s = Ret (0, s') \<and> fs_heap s' a = Some fe' \<and>
    map_of (fs_threads s') (nat pid) = Some (a, Spawned) \<and> \<not> dvb_frontend_poll fe' \<and>
    (\<exists>c'. dvb_frontend_get_event True [] (fe_context a fe' s') = Ret (- EOVERFLOW, None, c'))"
proof -
  let ?d = "dev\<lparr>dev_writers := dev_writers dev - 1, dev_users := dev_users dev - 1\<rparr>"
  have o: "dvb_generic_open (the_dev (dvbdev fe) (fs_adapters s)) mode = (0, Some ?d)"
    using assms(6-9) by (simp add: dvb_generic_open_def)
  have "fs_heap (store_dev (Some ?d) s) a = Some fe" "fs_sigs (store_dev (Some ?d) s) = []"
    using assms(1,3) by (simp_all add: store_dev_def)
  note st = start_fresh [OF this(1) assms(2) this(2) assms(4), of pid sleep]
  show ?thesis
    using assms(1,5,6,10) o st
    by (simp add: dvb_frontend_open_def with_fe_def set_fe_def dvb_frontend_poll_def dvb_frontend_get_event_def fe_context_def store_dev_def Let_def)
qed

theorem reopened_front_end_reports_old_overflow_witness:
  "\<exists>s' fe'. dvb_frontend_open Ret False 100 O_RDWR 20
      (set_fe 20 ((ex_fe 1000000)\<lparr>dvbdev := Some 50, thread_pid := 0, fe_events := ex_queue\<lparr>overflow := True\<rparr>\<rparr>) ex_sys) = Ret (0, s') \<and>
    fs_heap s' 20 = Some fe' \<and> (\<exists>c'. dvb_frontend_get_event True [] (fe_context 20 fe' s') = Ret (- EOVERFLOW, None, c'))"
proof -
  let ?fe = "(ex_fe 1000000)\<lparr>dvbdev := Some 50, thread_pid := 0, fe_events := ex_queue\<lparr>overflow := True\<rparr>\<rparr>" let ?s = "set_fe 20 ?fe ex_sys"
  have "fs_heap ?s 20 = Some ?fe" "thread_pid ?fe = 0" "fs_sigs ?s = []" "0 < fe_sem ?fe" "0 < (100 :: int)" "O_RDWR \<noteq> O_RDONLY"
    "the_dev (dvbdev ?fe) (fs_adapters ?s) = Some ex_device" "dev_users ex_device \<noteq> 0" "dev_writers ex_device \<noteq> 0"
    "overflow (fe_events ?fe)"
    by (simp_all add: set_fe_def ex_sys_def ex_fe_def the_dev_def ex_device_def frontend_template_def)
  from reopened_front_end_reports_old_overflow [OF this, of Ret] show ?thesis by blast
qed

end
