(* ===== verification/DVB_Net.thy ===== *)
theory DVB_Net
  imports DVB_Dmxdev_Control
begin

text \<open>
  \<^verbatim>\<open>dvb-core/dvb_net.c\<close> (the branch for kernels before 2.5): network interfaces that receive the
  datagrams of multi-protocol encapsulation (MPE) sections of one PID. An interface owns a section feed of
  the demultiplexer with a filter for each hardware address it listens to; the callback of the feed makes
  an Ethernet frame of every section and hands it to the network.

  The ten interfaces are a list, an interface is its index there. The state of an interface includes what
  the network layer keeps for it: its flags and multicast list, whether it runs, the work it has queued,
  and the frames handed over by \<^verbatim>\<open>netif_rx\<close>. \<open>skb_mem\<close> lists the outcome of the next allocations of
  frame buffers, \<open>ns_sigs\<close> the signals the next calls of the demultiplexer meet. What the network layer
  answers to a registration is an argument.
\<close>

section \<open>The code\<close>

subsection \<open>Interfaces\<close>

abbreviation DVB_NET_MULTICAST_MAX :: nat where "DVB_NET_MULTICAST_MAX \<equiv> 10"
abbreviation DVB_NET_DEVICES_MAX :: nat where "DVB_NET_DEVICES_MAX \<equiv> 10"

datatype rx_mode = RX_MODE_UNI | RX_MODE_MULTI | RX_MODE_ALL_MULTI | RX_MODE_PROMISC

record net_device_stats =
  rx_packets :: u32
  rx_bytes :: u32
  rx_errors :: u32
  rx_dropped :: u32
  rx_length_errors :: u32
  rx_crc_errors :: u32
  rx_frame_errors :: u32

record dvb_net_priv =
  in_use :: int
  stats :: net_device_stats
  net_pid :: nat
  secfeed :: "nat option"
  secfilter :: "nat option"
  multi_num :: nat
  multi_secfilter :: "nat option list"
  multi_macs :: "bytes list"
  np_rx_mode :: rx_mode

datatype pkt_type = PACKET_HOST | PACKET_BROADCAST | PACKET_MULTICAST

record sk_buff =
  skb_mac :: bytes
  skb_data :: bytes
  skb_type :: pkt_type
  skb_protocol :: nat

record net_device =
  nd_name :: string
  nd_addr :: bytes
  nd_priv :: "dvb_net_priv option"
  nd_promisc :: bool
  nd_allmulti :: bool
  nd_mc_list :: "bytes list"
  nd_running :: bool
  nd_multicast_work :: bool
  nd_restart_work :: bool
  nd_received :: "sk_buff list"

text \<open>What the callbacks of the demultiplexer work on, and the system around the control device.\<close>

record net_state =
  net_devs :: "net_device list"
  skb_mem :: "bool list"

record dvb_net =
  ns_state :: "bool list"
  ns_net :: net_state
  ns_demux :: "net_state dvb_demux"
  ns_sigs :: "bool list"

type_synonym 'r netop = "dvb_net \<Rightarrow> ('r \<times> dvb_net) kres"

definition upd_net :: "nat \<Rightarrow> (net_device \<Rightarrow> net_device) \<Rightarrow> net_state \<Rightarrow> net_state" where
  "upd_net i f u = u\<lparr>net_devs := (net_devs u)[i := f (net_devs u ! i)]\<rparr>"

definition upd_priv :: "(dvb_net_priv \<Rightarrow> dvb_net_priv) \<Rightarrow> net_device \<Rightarrow> net_device" where
  "upd_priv f dev = dev\<lparr>nd_priv := map_option f (nd_priv dev)\<rparr>"

definition upd_stats :: "(net_device_stats \<Rightarrow> net_device_stats) \<Rightarrow> net_device \<Rightarrow> net_device" where
  "upd_stats f = upd_priv (\<lambda>p. p\<lparr>stats := f (stats p)\<rparr>)"

subsection \<open>Reception\<close>

definition be16 :: "u8 \<Rightarrow> u8 \<Rightarrow> nat" where
  "be16 h l = 256 * unat h + unat l"

text \<open>\<open>frame\<close> is the whole Ethernet frame; the 14 bytes of its header are pulled off the data.\<close>

definition dvb_net_eth_type_trans :: "bytes \<Rightarrow> sk_buff" where
  "dvb_net_eth_type_trans frame =
     (let data = drop 14 frame;
          type = (if frame ! 0 AND 1 = 0 then PACKET_HOST
            else if take 6 frame = replicate 6 0xff then PACKET_BROADCAST else PACKET_MULTICAST);
          proto = (if be16 (frame ! 12) (frame ! 13) \<ge> 1536 then be16 (frame ! 12) (frame ! 13)
            else if take 2 data = [0xff, 0xff] then 1 else 4)
      in \<lparr>skb_mac = take 14 frame, skb_data = data, skb_type = type, skb_protocol = proto\<rparr>)"

definition mpe_frame :: "bytes \<Rightarrow> bytes" where
  "mpe_frame pkt =
     [pkt ! 0x0b, pkt ! 0x0a, pkt ! 0x09, pkt ! 0x08, pkt ! 0x04, pkt ! 0x03] @ replicate 6 0 @ [0x08, 0x00] @
     take (length pkt - 12 - 4) (drop 12 pkt)"

text \<open>\<open>mem\<close> says whether a buffer for the frame can be allocated.\<close>

definition dvb_net_sec :: "bool \<Rightarrow> bytes \<Rightarrow> net_device \<Rightarrow> net_device" where
  "dvb_net_sec mem pkt dev =
     (if length pkt < 16
      then upd_stats (\<lambda>t. t\<lparr>rx_errors := rx_errors t + 1, rx_length_errors := rx_length_errors t + 1\<rparr>) dev
      else if pkt ! 5 AND 0xfd \<noteq> 0xc1
      then upd_stats (\<lambda>t. t\<lparr>rx_errors := rx_errors t + 1, rx_crc_errors := rx_crc_errors t + 1\<rparr>) dev
      else if pkt ! 5 AND 0x02 \<noteq> 0 then upd_stats (\<lambda>t. t\<lparr>rx_dropped := rx_dropped t + 1\<rparr>) dev
      else if pkt ! 7 \<noteq> 0
      then upd_stats (\<lambda>t. t\<lparr>rx_errors := rx_errors t + 1, rx_frame_errors := rx_frame_errors t + 1\<rparr>) dev
      else if \<not> mem then upd_stats (\<lambda>t. t\<lparr>rx_dropped := rx_dropped t + 1\<rparr>) dev
      else
        let skb = dvb_net_eth_type_trans (mpe_frame pkt);
            dev = upd_stats (\<lambda>t. t\<lparr>rx_packets := rx_packets t + 1, rx_bytes := rx_bytes t + of_nat (length (skb_data skb))\<rparr>) dev
        in dev\<lparr>nd_received := nd_received dev @ [skb]\<rparr>)"

text \<open>
  The callback of the section feed. The private part of a device that has been removed is freed memory;
  an access to it counts as a fault.
\<close>

definition dvb_net_callback :: "bytes \<Rightarrow> bytes \<Rightarrow> nat option \<Rightarrow> net_state \<Rightarrow> (int \<times> net_state) kres" where
  "dvb_net_callback buffer1 buffer2 priv u =
     (case priv of
        None \<Rightarrow> Oops
      | Some i \<Rightarrow>
          if i \<ge> length (net_devs u) \<or> nd_priv (net_devs u ! i) = None then Oops
          else
            let (mem, rest) = (case skb_mem u of [] \<Rightarrow> (True, []) | b # bs \<Rightarrow> (b, bs))
            in Ret (0, (upd_net i (dvb_net_sec mem buffer1) u)\<lparr>skb_mem := rest\<rparr>))"

definition dvb_net_tx :: "bytes \<Rightarrow> int" where
  "dvb_net_tx skb = 0"

subsection \<open>Calls of the demultiplexer\<close>

definition net_sig :: "dvb_net \<Rightarrow> bool \<times> dvb_net" where
  "net_sig s = (case ns_sigs s of [] \<Rightarrow> (False, s) | b # bs \<Rightarrow> (b, s\<lparr>ns_sigs := bs\<rparr>))"

definition net_call :: "(bool \<Rightarrow> net_state dvb_demux \<Rightarrow> ('r \<times> net_state dvb_demux) kres) \<Rightarrow> 'r netop" where
  "net_call f s = (let (sig, s) = net_sig s in kbind (f sig (ns_demux s)) (\<lambda>(r, d). Ret (r, s\<lparr>ns_demux := d\<rparr>)))"

definition net_call_hw ::
  "(bool \<Rightarrow> net_state dvb_demux \<Rightarrow> net_state \<Rightarrow> (('r \<times> net_state) \<times> net_state dvb_demux) kres) \<Rightarrow> 'r netop" where
  "net_call_hw f s =
     (let (sig, s) = net_sig s
      in kbind (f sig (ns_demux s) (ns_net s)) (\<lambda>((r, u), d). Ret (r, s\<lparr>ns_demux := d, ns_net := u\<rparr>)))"

definition upd_dev_net :: "nat \<Rightarrow> (net_device \<Rightarrow> net_device) \<Rightarrow> dvb_net \<Rightarrow> dvb_net" where
  "upd_dev_net i f s = s\<lparr>ns_net := upd_net i f (ns_net s)\<rparr>"

definition with_priv :: "nat \<Rightarrow> (dvb_net_priv \<Rightarrow> 'r netop) \<Rightarrow> 'r netop" where
  "with_priv i f s = (case nd_priv (net_devs (ns_net s) ! i) of None \<Rightarrow> Oops | Some p \<Rightarrow> f p s)"

subsection \<open>Filters for hardware addresses\<close>

definition mask_normal :: bytes where "mask_normal = replicate 6 0xff"
definition mask_allmulti :: bytes where "mask_allmulti = [0xff, 0xff, 0xff, 0, 0, 0]"
definition mac_allmulti :: bytes where "mac_allmulti = [0x01, 0x00, 0x5e, 0, 0, 0]"
definition mask_promisc :: bytes where "mask_promisc = replicate 6 0"

definition mac_pattern :: "u8 \<Rightarrow> bytes \<Rightarrow> bytes" where
  "mac_pattern b mac = (replicate DMX_MAX_FILTER_SIZE 0)
     [0 := b, 3 := mac ! 5, 4 := mac ! 4, 8 := mac ! 3, 9 := mac ! 2, 10 := mac ! 1, 11 := mac ! 0]"

text \<open>The result carries the pointer that the routine stores: the new filter, or NULL.\<close>

definition dvb_net_filter_set :: "nat \<Rightarrow> nat \<Rightarrow> bytes \<Rightarrow> bytes \<Rightarrow> (int \<times> nat option) netop" where
  "dvb_net_filter_set i fd mac mac_mask s =
     kbind (net_call (\<lambda>sig d. dmx_section_feed_allocate_filter sig d fd) s) (\<lambda>((ret, sf), s).
       if ret < 0 then Ret ((ret, None), s)
       else
         case sf of
           None \<Rightarrow> Oops
         | Some j \<Rightarrow>
             let g = (filters (ns_demux s) ! j)\<lparr>filter_priv := Some i, filter_value := mac_pattern 0x3e mac,
                   filter_mask := mac_pattern 0xff mac_mask, filter_mode := replicate DMX_MAX_FILTER_SIZE 0xff\<rparr>
             in Ret ((0, Some j), s\<lparr>ns_demux := set_filter j g (ns_demux s)\<rparr>))"

subsection \<open>Starting and stopping the feed\<close>

text \<open>The loop over the multicast addresses.\<close>

fun multi_filters :: "nat \<Rightarrow> nat \<Rightarrow> nat list \<Rightarrow> unit netop" where
  "multi_filters i fd [] s = Ret ((), s)"
| "multi_filters i fd (k # ks) s =
     with_priv i (\<lambda>p s. kbind (dvb_net_filter_set i fd (multi_macs p ! k) mask_normal s) (\<lambda>((_, sf), s).
       multi_filters i fd ks (upd_dev_net i (upd_priv (\<lambda>p. p\<lparr>multi_secfilter := (multi_secfilter p)[k := sf]\<rparr>)) s))) s"

definition feed_filters :: "nat \<Rightarrow> nat \<Rightarrow> unit netop" where
  "feed_filters i fd =
     with_priv i (\<lambda>p s.
       let mac = nd_addr (net_devs (ns_net s) ! i); mode = np_rx_mode p
       in kbind (if mode \<noteq> RX_MODE_PROMISC
           then kbind (dvb_net_filter_set i fd mac mask_normal s) (\<lambda>((_, sf), s).
             Ret ((), upd_dev_net i (upd_priv (\<lambda>p. p\<lparr>secfilter := sf\<rparr>)) s))
           else Ret ((), s)) (\<lambda>(_, s).
         case mode of
           RX_MODE_UNI \<Rightarrow> Ret ((), s)
         | RX_MODE_MULTI \<Rightarrow> multi_filters i fd [0..<multi_num p] s
         | RX_MODE_ALL_MULTI \<Rightarrow>
             kbind (dvb_net_filter_set i fd mac_allmulti mask_allmulti
               (upd_dev_net i (upd_priv (\<lambda>p. p\<lparr>multi_num := 1\<rparr>)) s)) (\<lambda>((_, sf), s).
               Ret ((), upd_dev_net i (upd_priv (\<lambda>p. p\<lparr>multi_secfilter := (multi_secfilter p)[0 := sf]\<rparr>)) s))
         | RX_MODE_PROMISC \<Rightarrow>
             kbind (dvb_net_filter_set i fd mac mask_promisc
               (upd_dev_net i (upd_priv (\<lambda>p. p\<lparr>multi_num := 0\<rparr>)) s)) (\<lambda>((_, sf), s).
               Ret ((), upd_dev_net i (upd_priv (\<lambda>p. p\<lparr>secfilter := sf\<rparr>)) s))))"

definition dvb_net_feed_start :: "nat \<Rightarrow> int netop" where
  "dvb_net_feed_start i s =
     with_priv i (\<lambda>p s.
       let s = upd_dev_net i (upd_priv (\<lambda>p. p\<lparr>secfeed := None, secfilter := None\<rparr>)) s
       in kbind (net_call (\<lambda>sig d. dvbdmx_allocate_section_feed sig d (total_cb dvb_net_callback)) s) (\<lambda>((ret, fd), s).
         let s = upd_dev_net i (upd_priv (\<lambda>p. p\<lparr>secfeed := fd\<rparr>)) s
         in if ret < 0 then Ret (ret, s)
            else
              case fd of
                None \<Rightarrow> Oops
              | Some fd \<Rightarrow>
                  kbind (net_call (\<lambda>sig d. dmx_section_feed_set sig d fd (net_pid p) 32768 False True) s) (\<lambda>(ret, s).
                    if ret < 0
                    then kbind (net_call (\<lambda>sig d. dvbdmx_release_section_feed sig d fd) s) (\<lambda>(_, s).
                      Ret (ret, upd_dev_net i (upd_priv (\<lambda>p. p\<lparr>secfeed := None\<rparr>)) s))
                    else kbind (feed_filters i fd s) (\<lambda>(_, s).
                      kbind (net_call_hw (\<lambda>sig d u. dmx_section_feed_start_filtering sig d fd u) s) (\<lambda>(_, s). Ret (0, s)))))) s"

definition net_release_filter :: "nat \<Rightarrow> nat \<Rightarrow> unit netop" where
  "net_release_filter fd j s =
     (let (sig, s) = net_sig s; (sig2, s) = net_sig s
      in kbind (dmx_section_feed_release_filter sig sig2 (ns_demux s) fd j (ns_net s)) (\<lambda>((_, u), d).
        Ret ((), s\<lparr>ns_demux := d, ns_net := u\<rparr>)))"

fun release_multi :: "nat \<Rightarrow> nat \<Rightarrow> nat list \<Rightarrow> unit netop" where
  "release_multi i fd [] s = Ret ((), s)"
| "release_multi i fd (k # ks) s =
     with_priv i (\<lambda>p s.
       case multi_secfilter p ! k of
         None \<Rightarrow> release_multi i fd ks s
       | Some j \<Rightarrow> kbind (net_release_filter fd j s) (\<lambda>(_, s).
           release_multi i fd ks (upd_dev_net i (upd_priv (\<lambda>p. p\<lparr>multi_secfilter := (multi_secfilter p)[k := None]\<rparr>)) s))) s"

definition dvb_net_feed_stop :: "nat \<Rightarrow> unit netop" where
  "dvb_net_feed_stop i s =
     with_priv i (\<lambda>p s.
       case secfeed p of
         None \<Rightarrow> Ret ((), s)
       | Some fd \<Rightarrow>
           kbind (if is_filtering (feeds (ns_demux s) ! fd)
             then kbind (net_call_hw (\<lambda>sig d u. dmx_section_feed_stop_filtering sig d fd u) s) (\<lambda>(_, s). Ret ((), s))
             else Ret ((), s)) (\<lambda>(_, s).
           kbind (case secfilter p of
               None \<Rightarrow> Ret ((), s)
             | Some j \<Rightarrow> kbind (net_release_filter fd j s) (\<lambda>(_, s).
                 Ret ((), upd_dev_net i (upd_priv (\<lambda>p. p\<lparr>secfilter := None\<rparr>)) s))) (\<lambda>(_, s).
           kbind (release_multi i fd [0..<multi_num p] s) (\<lambda>(_, s).
           kbind (net_call (\<lambda>sig d. dvbdmx_release_section_feed sig d fd) s) (\<lambda>(_, s).
             Ret ((), upd_dev_net i (upd_priv (\<lambda>p. p\<lparr>secfeed := None\<rparr>)) s)))))) s"

subsection \<open>Multicast lists and work queued by the network layer\<close>

definition dvb_set_mc_filter :: "bytes \<Rightarrow> dvb_net_priv \<Rightarrow> int \<times> dvb_net_priv" where
  "dvb_set_mc_filter mc p =
     (if multi_num p = DVB_NET_MULTICAST_MAX then (- ENOMEM, p)
      else (0, p\<lparr>multi_macs := (multi_macs p)[multi_num p := take 6 mc], multi_num := multi_num p + 1\<rparr>))"

definition wq_set_multicast_list :: "nat \<Rightarrow> unit netop" where
  "wq_set_multicast_list i s =
     kbind (dvb_net_feed_stop i (upd_dev_net i (\<lambda>dev. dev\<lparr>nd_multicast_work := False\<rparr>) s)) (\<lambda>(_, s).
       let dev = net_devs (ns_net s) ! i;
           f = (if nd_promisc dev then (\<lambda>p. p\<lparr>np_rx_mode := RX_MODE_PROMISC\<rparr>)
             else if nd_allmulti dev then (\<lambda>p. p\<lparr>np_rx_mode := RX_MODE_ALL_MULTI\<rparr>)
             else if nd_mc_list dev \<noteq> []
             then (\<lambda>p. fold (\<lambda>mc p. snd (dvb_set_mc_filter mc p)) (nd_mc_list dev) (p\<lparr>np_rx_mode := RX_MODE_MULTI, multi_num := 0\<rparr>))
             else (\<lambda>p. p\<lparr>np_rx_mode := RX_MODE_UNI\<rparr>))
       in kbind (dvb_net_feed_start i (upd_dev_net i (upd_priv f) s)) (\<lambda>(_, s). Ret ((), s)))"

definition dvb_net_set_multicast_list :: "nat \<Rightarrow> dvb_net \<Rightarrow> dvb_net" where
  "dvb_net_set_multicast_list i = upd_dev_net i (\<lambda>dev. dev\<lparr>nd_multicast_work := True\<rparr>)"

definition dvb_net_set_config :: "net_device \<Rightarrow> int" where
  "dvb_net_set_config dev = (if nd_running dev then - EBUSY else 0)"

definition wq_restart_net_feed :: "nat \<Rightarrow> unit netop" where
  "wq_restart_net_feed i s =
     (let s = upd_dev_net i (\<lambda>dev. dev\<lparr>nd_restart_work := False\<rparr>) s
      in if nd_running (net_devs (ns_net s) ! i)
         then kbind (dvb_net_feed_stop i s) (\<lambda>(_, s). kbind (dvb_net_feed_start i s) (\<lambda>(_, s). Ret ((), s)))
         else Ret ((), s))"

definition dvb_net_set_mac :: "nat \<Rightarrow> bytes \<Rightarrow> dvb_net \<Rightarrow> int \<times> dvb_net" where
  "dvb_net_set_mac i addr s =
     (0, upd_dev_net i (\<lambda>dev. (if nd_running dev then dev\<lparr>nd_addr := take 6 addr, nd_restart_work := True\<rparr>
       else dev\<lparr>nd_addr := take 6 addr\<rparr>)) s)"

definition dvb_net_open :: "nat \<Rightarrow> int netop" where
  "dvb_net_open i s =
     kbind (dvb_net_feed_start i (upd_dev_net i (upd_priv (\<lambda>p. p\<lparr>in_use := in_use p + 1\<rparr>)) s)) (\<lambda>(_, s). Ret (0, s))"

definition dvb_net_stop :: "nat \<Rightarrow> int netop" where
  "dvb_net_stop i s =
     kbind (dvb_net_feed_stop i (upd_dev_net i (upd_priv (\<lambda>p. p\<lparr>in_use := in_use p - 1\<rparr>)) s)) (\<lambda>(_, s). Ret (0, s))"

subsection \<open>Adding and removing interfaces\<close>

definition get_if :: "dvb_net \<Rightarrow> int \<times> dvb_net" where
  "get_if s =
     (let i = first_index (\<lambda>used. \<not> used) (ns_state s)
      in if i = DVB_NET_DEVICES_MAX then (- 1, s) else (int i, s\<lparr>ns_state := (ns_state s)[i := True]\<rparr>))"

definition zero_stats :: net_device_stats where
  "zero_stats = \<lparr>rx_packets = 0, rx_bytes = 0, rx_errors = 0, rx_dropped = 0, rx_length_errors = 0, rx_crc_errors = 0, rx_frame_errors = 0\<rparr>"

definition new_priv :: "nat \<Rightarrow> dvb_net_priv" where
  "new_priv pid = \<lparr>in_use = 0, stats = zero_stats, net_pid = pid, secfeed = None, secfilter = None, multi_num = 0,
     multi_secfilter = replicate DVB_NET_MULTICAST_MAX None, multi_macs = replicate DVB_NET_MULTICAST_MAX (replicate 6 0),
     np_rx_mode = RX_MODE_UNI\<rparr>"

definition new_device :: "nat \<Rightarrow> nat \<Rightarrow> bytes \<Rightarrow> net_device" where
  "new_device adapter if_num mac =
     \<lparr>nd_name = ''dvb'' @ [char_of (adapter + 48)] @ ''_'' @ [char_of (if_num + 48)], nd_addr = take 6 mac, nd_priv = None,
      nd_promisc = False, nd_allmulti = False, nd_mc_list = [], nd_running = False, nd_multicast_work = False,
      nd_restart_work = False, nd_received = []\<rparr>"

text \<open>
  \<open>adapter\<close> and \<open>mac\<close> are the number of the adapter and its proposed hardware address, \<open>mem\<close> says
  whether the private structure can be allocated, and \<open>result\<close> is the answer of \<^verbatim>\<open>register_netdev\<close>.
\<close>

definition dvb_net_add_if :: "nat \<Rightarrow> bytes \<Rightarrow> bool \<Rightarrow> int \<Rightarrow> nat \<Rightarrow> dvb_net \<Rightarrow> int \<times> dvb_net" where
  "dvb_net_add_if adapter mac mem result pid s =
     (case get_if s of
        (if_num, s) \<Rightarrow>
          if if_num < 0 then (- EINVAL, s)
          else
            let i = nat if_num; s = upd_dev_net i (\<lambda>_. new_device adapter i mac) s
            in if \<not> mem then (- ENOMEM, s)
               else
                 let s = upd_dev_net i (\<lambda>dev. dev\<lparr>nd_priv := Some (new_priv pid)\<rparr>) s
                 in if result < 0 then (result, s) else (if_num, s))"

text \<open>The work that is still queued runs before the interface goes (\<^verbatim>\<open>flush_scheduled_work\<close>).\<close>

definition flush_work :: "nat \<Rightarrow> unit netop" where
  "flush_work i s =
     kbind (if nd_multicast_work (net_devs (ns_net s) ! i) then wq_set_multicast_list i s else Ret ((), s)) (\<lambda>(_, s).
       if nd_restart_work (net_devs (ns_net s) ! i) then wq_restart_net_feed i s else Ret ((), s))"

definition dvb_net_remove_if :: "int \<Rightarrow> int netop" where
  "dvb_net_remove_if num s =
     (if num < 0 \<or> num \<ge> int DVB_NET_DEVICES_MAX then Oops
      else
        let i = nat num
        in if \<not> ns_state s ! i then Ret (- EINVAL, s)
           else with_priv i (\<lambda>p s.
             if in_use p \<noteq> 0 then Ret (- EBUSY, s)
             else kbind (dvb_net_stop i s) (\<lambda>(_, s).
               kbind (flush_work i s) (\<lambda>(_, s).
                 Ret (0, (upd_dev_net i (\<lambda>dev. dev\<lparr>nd_priv := None\<rparr>) s)\<lparr>ns_state := (ns_state s)[i := False]\<rparr>)))) s)"

subsection \<open>The control device\<close>

datatype net_cmd = NET_ADD_IF nat | NET_GET_IF nat | NET_REMOVE_IF int | NET_OTHER

datatype net_reply = Net_none | Net_if_num nat | Net_pid nat

definition dvb_net_do_ioctl ::
  "nat \<Rightarrow> bytes \<Rightarrow> bool \<Rightarrow> int \<Rightarrow> access \<Rightarrow> bool \<Rightarrow> net_cmd \<Rightarrow> (int \<times> net_reply) netop" where
  "dvb_net_do_ioctl adapter mac mem result mode admin cmd s =
     (if mode = O_RDONLY then Ret ((- EPERM, Net_none), s)
      else
        case cmd of
          NET_ADD_IF pid \<Rightarrow>
            if \<not> admin then Ret ((- EPERM, Net_none), s)
            else
              (case dvb_net_add_if adapter mac mem result pid s of
                 (r, s) \<Rightarrow> if r < 0 then Ret ((r, Net_none), s) else Ret ((0, Net_if_num (nat r)), s))
        | NET_GET_IF if_num \<Rightarrow>
            if if_num \<ge> DVB_NET_DEVICES_MAX \<or> \<not> ns_state s ! if_num then Ret ((- EFAULT, Net_none), s)
            else with_priv if_num (\<lambda>p s. Ret ((0, Net_pid (net_pid p)), s)) s
        | NET_REMOVE_IF num \<Rightarrow>
            if \<not> admin then Ret ((- EPERM, Net_none), s)
            else kbind (dvb_net_remove_if num s) (\<lambda>(r, s). Ret ((r, Net_none), s))
        | NET_OTHER \<Rightarrow> Ret ((- EINVAL, Net_none), s))"

fun remove_all :: "nat list \<Rightarrow> dvb_net \<Rightarrow> dvb_net kres" where
  "remove_all [] s = Ret s"
| "remove_all (i # is) s =
     (if \<not> ns_state s ! i then remove_all is s else kbind (dvb_net_remove_if (int i) s) (\<lambda>(_, s). remove_all is s))"

definition dvb_net_release :: "nat option \<Rightarrow> dvb_adapter list \<Rightarrow> dvb_net \<Rightarrow> (dvb_adapter list \<times> dvb_net) kres" where
  "dvb_net_release dvbdev adaps s =
     kbind (remove_all [0..<DVB_NET_DEVICES_MAX] s) (\<lambda>s. Ret (dvb_unregister_device dvbdev adaps, s))"

definition dvbdev_net :: dvb_device where
  "dvbdev_net = \<lparr>dev_addr = 0, dev_fops = True, dev_type = 0, dev_id = 0, dev_readers = 0, dev_writers = 1, dev_users = 1,
     kernel_ioctl = False, dev_priv = None\<rparr>"

definition dvb_net_init ::
  "bool \<Rightarrow> nat option \<Rightarrow> nat option \<Rightarrow> nat \<Rightarrow> dvb_adapter \<Rightarrow> dvb_adapter list \<Rightarrow> net_state dvb_demux \<Rightarrow> dvb_net \<Rightarrow>
   int \<times> nat option \<times> dvb_adapter list \<times> dvb_net" where
  "dvb_net_init sig addr old self adap adaps dmx s =
     (case dvb_register_device sig addr old adap dvbdev_net (Some self) DVB_DEVICE_NET adaps of
        (_, dev, adaps) \<Rightarrow>
          (0, dev, adaps, s\<lparr>ns_demux := dmx, ns_state := replicate DVB_NET_DEVICES_MAX False\<rparr>))"

end
