(* ===== verification/DVB_Net_Receive.thy ===== *)
theory DVB_Net_Receive
  imports DVB_Net
begin

text \<open>
  What the network interfaces do: the filter of an interface selects the sections for its hardware
  address, a datagram that is sent in a section comes out as a frame with exactly its bytes, and the
  flaws of the control device.
\<close>

section \<open>The filter of a hardware address\<close>

definition section_mac :: "bytes \<Rightarrow> bytes" where
  "section_mac S = [S ! 11, S ! 10, S ! 9, S ! 8, S ! 4, S ! 3]"

lemma bit_ff: "n < 8 \<Longrightarrow> bit (0xff :: u8) n"
proof -
  assume n: "n < 8"
  have "(0xff :: u8) = NOT 0" by simp
  then show ?thesis using n by (simp only: bit_not_iff) (simp add: possible_bit_word)
qed

lemma u8_bits_eq_iff: "(\<forall>n<8. bit a n = bit b n) \<longleftrightarrow> a = b" for a b :: u8
  by (auto simp: bit_eq_iff possible_bit_word)

definition mac_positions :: "nat set" where "mac_positions = {0, 3, 4, 8, 9, 10, 11}"

lemma mask_normal_pattern: "i < 18 \<Longrightarrow> mac_pattern 0xff mask_normal ! i = (if i \<in> mac_positions then 0xff else 0)"
  by (auto simp: mac_positions_def mac_pattern_def mask_normal_def nth_list_update)

lemma mac_bytes: "length mac = 6 \<Longrightarrow> [mac ! 0, mac ! 1, mac ! 2, mac ! 3, mac ! 4, mac ! 5] = mac"
  by (intro nth_equalityI) (auto simp: less_Suc_eq eval_nat_numeral)

lemma mac_filter_selects:
  assumes "filter_value g = mac_pattern 0x3e mac" "filter_mask g = mac_pattern 0xff mask_normal"
    "filter_mode g = replicate 18 0xff" "length mac = 6"
  shows "section_matches (prepare_filter g) S \<longleftrightarrow> S ! 0 = 0x3e \<and> section_mac S = mac"
proof -
  have mode: "bit (filter_mode g ! i) n" if "i < 18" "n < 8" for i n using that assms(3) bit_ff by simp
  have mask: "bit (filter_mask g ! i) n \<longleftrightarrow> i \<in> mac_positions" if "i < 18" "n < 8" for i n
    using that bit_ff by (simp add: assms(2) mask_normal_pattern)
  have "section_matches (prepare_filter g) S \<longleftrightarrow> (\<forall>i<18. i \<in> mac_positions \<longrightarrow> filter_value g ! i = S ! i)"
    unfolding prepared_filter_bits u8_bits_eq_iff [symmetric] using mode mask by blast
  also have "\<dots> \<longleftrightarrow> (\<forall>i\<in>mac_positions. mac_pattern 0x3e mac ! i = S ! i)"
  proof -
    have "i < 18" if "i \<in> mac_positions" for i using that by (auto simp: mac_positions_def)
    then show ?thesis unfolding assms(1) by blast
  qed
  also have "\<dots> \<longleftrightarrow> S ! 0 = 0x3e \<and> section_mac S = mac"
  proof -
    have "section_mac S = mac \<longleftrightarrow> section_mac S = [mac ! 0, mac ! 1, mac ! 2, mac ! 3, mac ! 4, mac ! 5]"
      using mac_bytes [OF assms(4)] by simp
    then show ?thesis by (auto simp: mac_positions_def mac_pattern_def section_mac_def)
  qed
  finally show ?thesis .
qed

section \<open>From the section to the frame\<close>

text \<open>A section with a datagram \<open>D\<close> for the address \<open>mac\<close>; \<open>crc\<close> are its last four bytes.\<close>

definition mpe_section :: "u8 \<Rightarrow> u8 \<Rightarrow> u8 \<Rightarrow> bytes \<Rightarrow> bytes \<Rightarrow> bytes \<Rightarrow> bytes" where
  "mpe_section b1 b2 sn mac D crc =
     [0x3e, b1, b2, mac ! 5, mac ! 4, 0xc1, sn, 0, mac ! 3, mac ! 2, mac ! 1, mac ! 0] @ D @ crc"

lemma mpe_section_selected: "length mac = 6 \<Longrightarrow> mpe_section b1 b2 sn mac D crc ! 0 = 0x3e \<and> section_mac (mpe_section b1 b2 sn mac D crc) = mac"
  using mac_bytes [of mac] by (simp add: mpe_section_def section_mac_def)

definition datagram_frame :: "bytes \<Rightarrow> bytes \<Rightarrow> sk_buff" where
  "datagram_frame mac D = \<lparr>skb_mac = mac @ replicate 6 0 @ [0x08, 0x00], skb_data = D,
     skb_type = (if mac ! 0 AND 1 = 0 then PACKET_HOST else if mac = replicate 6 0xff then PACKET_BROADCAST else PACKET_MULTICAST),
     skb_protocol = 0x0800\<rparr>"

lemma mpe_frame_section:
  assumes "length mac = 6" "length crc = 4"
  shows "dvb_net_eth_type_trans (mpe_frame (mpe_section b1 b2 sn mac D crc)) = datagram_frame mac D"
proof -
  have "mpe_frame (mpe_section b1 b2 sn mac D crc) = mac @ replicate 6 0 @ [0x08, 0x00] @ D"
    using mac_bytes [OF assms(1)] assms(2) by (simp add: mpe_frame_def mpe_section_def)
  then show ?thesis
    using assms(1) by (simp add: dvb_net_eth_type_trans_def datagram_frame_def nth_append be16_def)
qed

lemma net_sec_delivers:
  assumes "length mac = 6" "length crc = 4"
  shows "dvb_net_sec True (mpe_section b1 b2 sn mac D crc) dev =
    (upd_stats (\<lambda>t. t\<lparr>rx_packets := rx_packets t + 1, rx_bytes := rx_bytes t + of_nat (length D)\<rparr>) dev)
      \<lparr>nd_received := nd_received dev @ [datagram_frame mac D]\<rparr>"
proof -
  have "length (mpe_section b1 b2 sn mac D crc) \<ge> 16" "mpe_section b1 b2 sn mac D crc ! 5 = 0xc1" "mpe_section b1 b2 sn mac D crc ! 7 = 0"
    using assms(2) by (simp_all add: mpe_section_def)
  then show ?thesis
    using mpe_frame_section [OF assms] by (simp add: dvb_net_sec_def datagram_frame_def upd_stats_def upd_priv_def)
qed

section \<open>An interface that runs\<close>

text \<open>
  The feed \<open>fd\<close> serves the interface \<open>i\<close> with the address \<open>mac\<close>: it runs on the PID, checks
  checksums, and has one filter, which selects the sections for the address.
\<close>

definition net_serves :: "net_state dvb_demux \<Rightarrow> nat \<Rightarrow> nat \<Rightarrow> nat \<Rightarrow> bytes \<Rightarrow> bool" where
  "net_serves d fd pid i mac \<longleftrightarrow> fd \<in> set (feed_list d) \<and> feed_pid (feeds d ! fd) = pid \<and>
     feed_type (feeds d ! fd) = DMX_TYPE_SEC \<and> cb_sec (feeds d ! fd) = total_cb dvb_net_callback \<and>
     secbufp (feeds d ! fd) = 0 \<and> length (secbuf (feeds d ! fd)) = 4096 \<and> check_crc (feeds d ! fd) \<and>
     (\<exists>j. running (filters d) [j] (feeds d ! fd) \<and> filter_priv (filters d ! j) = Some i \<and>
       (\<forall>S. section_matches (filters d ! j) S \<longleftrightarrow> S ! 0 = 0x3e \<and> section_mac S = mac))"

definition net_startable :: "nat \<Rightarrow> nat \<Rightarrow> nat \<Rightarrow> dvb_net \<Rightarrow> bool" where
  "net_startable i fd j s \<longleftrightarrow> ns_sigs s = [] \<and> i < length (net_devs (ns_net s)) \<and>
     (\<exists>p. nd_priv (net_devs (ns_net s) ! i) = Some p \<and> np_rx_mode p = RX_MODE_UNI \<and> net_pid p \<le> 0x1fff) \<and>
     length (nd_addr (net_devs (ns_net s) ! i)) = 6 \<and> \<not> demux_mutex (ns_demux s) \<and>
     first_index (\<lambda>f. feed_state f = DMX_STATE_FREE) (feeds (ns_demux s)) = fd \<and> fd < length (feeds (ns_demux s)) \<and>
     first_index (\<lambda>f. filter_state f = DMX_STATE_FREE) (filters (ns_demux s)) = j \<and> j < length (filters (ns_demux s)) \<and>
     length (secbuf (feeds (ns_demux s) ! fd)) = 4096 \<and>
     (\<exists>hook. start_feed (ns_demux s) = Some hook \<and> (\<forall>f u. 0 \<le> fst (hook fd f u) \<and> snd (hook fd f u) = u))"

text \<open>
  The system \<open>s\<close> with another private structure of the interface \<open>i\<close> and another demultiplexer: the
  routines that start and stop the feed change nothing else.
\<close>

definition net_at :: "dvb_net \<Rightarrow> nat \<Rightarrow> dvb_net_priv \<Rightarrow> net_state dvb_demux \<Rightarrow> dvb_net" where
  "net_at s i q d = s\<lparr>ns_demux := d, ns_net := (ns_net s)\<lparr>net_devs := (net_devs (ns_net s))
     [i := (net_devs (ns_net s) ! i)\<lparr>nd_priv := Some q\<rparr>]\<rparr>\<rparr>"

lemma net_at_self:
  assumes "nd_priv (net_devs (ns_net s) ! i) = Some q"
  shows "s = net_at s i q (ns_demux s)"
proof -
  have "dev\<lparr>nd_priv := Some q\<rparr> = dev" if "nd_priv dev = Some q" for dev :: net_device using that by (cases dev) simp
  then have "(net_devs (ns_net s) ! i)\<lparr>nd_priv := Some q\<rparr> = net_devs (ns_net s) ! i" using assms by blast
  then show ?thesis by (cases s; cases "ns_net s") (simp add: net_at_def)
qed

definition net_ready :: "dvb_net \<Rightarrow> nat \<Rightarrow> bool" where
  "net_ready s i \<longleftrightarrow> i < length (net_devs (ns_net s)) \<and> ns_sigs s = []"

lemma net_at_upd: "net_ready s i \<Longrightarrow> upd_dev_net i (upd_priv f) (net_at s i q d) = net_at s i (f q) d"
  by (simp add: net_ready_def net_at_def upd_dev_net_def upd_net_def upd_priv_def)

lemma net_at_priv: "net_ready s i \<Longrightarrow> with_priv i F (net_at s i q d) = F q (net_at s i q d)"
  by (simp add: net_ready_def net_at_def with_priv_def)

lemma net_at_sig: "net_ready s i \<Longrightarrow> net_sig (net_at s i q d) = (False, net_at s i q d)"
  by (simp add: net_ready_def net_at_def net_sig_def)

lemma net_at_demux [simp]: "ns_demux (net_at s i q d) = d" "(net_at s i q d)\<lparr>ns_demux := d'\<rparr> = net_at s i q d'"
  "(net_at s i q d')\<lparr>ns_net := ns_net (net_at s i q d)\<rparr> = net_at s i q d'"
  by (simp_all add: net_at_def)

lemma net_at_call: "net_ready s i \<Longrightarrow> net_call F (net_at s i q d) = kbind (F False d) (\<lambda>(r, d'). Ret (r, net_at s i q d'))"
  by (simp add: net_call_def net_at_sig)

lemma net_at_addr: "net_ready s i \<Longrightarrow> nd_addr (net_devs (ns_net (net_at s i q d)) ! i) = nd_addr (net_devs (ns_net s) ! i)"
  by (simp add: net_ready_def net_at_def)

lemmas net_at_simps = net_at_upd net_at_priv net_at_sig net_at_call net_at_addr

text \<open>
  The four calls of the demultiplexer that make a running section feed with one filter; \<open>fill\<close> is what
  the client writes into the filter between them.
\<close>

lemma section_feed_started:
  fixes d :: "'u dvb_demux"
  assumes d: "\<not> demux_mutex d" "first_index (\<lambda>f. feed_state f = DMX_STATE_FREE) (feeds d) = fd" "fd < length (feeds d)"
      "first_index (\<lambda>f. filter_state f = DMX_STATE_FREE) (filters d) = j" "j < length (filters d)" "pid \<le> 0x1fff"
    and hook: "start_feed d = Some hook" "\<And>f u. 0 \<le> fst (hook fd f u)" "\<And>f u. snd (hook fd f u) = u"
    and fill: "\<And>g. filter_next (fill g) = filter_next g"
  shows "\<exists>d1 d2 d3 g d4. dvbdmx_allocate_section_feed False d cb = Ret ((0, Some fd), d1) \<and>
    dmx_section_feed_set False d1 fd pid sz False crc = Ret (0, d2) \<and>
    dmx_section_feed_allocate_filter False d2 fd = Ret ((0, Some j), d3) \<and> filters d3 ! j = g \<and>
    (\<forall>u. dmx_section_feed_start_filtering False (set_filter j (fill g) d3) fd u = Ret ((0, u), d4 u) \<and>
      running (filters (d4 u)) [j] (feeds (d4 u) ! fd) \<and> filters (d4 u) ! j = prepare_filter (fill g) \<and>
      fd \<in> set (feed_list (d4 u)) \<and> feed_pid (feeds (d4 u) ! fd) = pid \<and> feed_type (feeds (d4 u) ! fd) = DMX_TYPE_SEC \<and>
      cb_sec (feeds (d4 u) ! fd) = cb \<and> secbufp (feeds (d4 u) ! fd) = 0 \<and> secbuf (feeds (d4 u) ! fd) = secbuf (feeds d ! fd) \<and>
      check_crc (feeds (d4 u) ! fd) = crc)"
proof -
  obtain d1 f where d1: "dvbdmx_allocate_section_feed False d cb = Ret ((0, Some fd), d1)" "same_outside d d1"
    "filters d1 = filters d" "feeds d1 = (feeds d)[fd := f]" "feed_type f = DMX_TYPE_SEC" "cb_sec f = cb"
    "feed_filter f = None" "\<not> is_filtering f" "secbuf f = secbuf (feeds d ! fd)"
    using allocate_feed_ok [OF d(1-3)] by blast
  obtain d2 where d2: "dmx_section_feed_set False d1 fd pid sz False crc = Ret (0, d2)" "same_outside d1 d2"
    "filters d2 = filters d1" "fd \<in> set (feed_list d2)"
    "feeds d2 = (feeds d1)[fd := (feeds d1 ! fd)\<lparr>feed_pid := pid, feed_buffer_size := sz, feed_descramble := False,
      check_crc := crc, feed_state := DMX_STATE_READY\<rparr>]"
    using feed_set_ok [of d1 pid fd sz crc] d1(2) d(6) by (auto simp: same_outside_def)
  have j: "first_index (\<lambda>f. filter_state f = DMX_STATE_FREE) (filters d2) = j" "j < length (filters d2)" "\<not> demux_mutex d2"
    using d(4,5) d1(3) d2(2,3) by (simp_all add: same_outside_def)
  have fd: "feeds d2 ! fd = f\<lparr>feed_pid := pid, feed_buffer_size := sz, feed_descramble := False, check_crc := crc,
    feed_state := DMX_STATE_READY\<rparr>" "fd < length (feeds d2)"
    using d2(5) d1(4) d(3) by simp_all
  obtain d3 g where d3: "dmx_section_feed_allocate_filter False d2 fd = Ret ((0, Some j), d3)" "same_outside d2 d3"
    "feed_list d3 = feed_list d2" "feeds d3 = (feeds d2)[fd := (feeds d2 ! fd)\<lparr>feed_filter := Some j\<rparr>]"
    "filters d3 = (filters d2)[j := g]" "filter_next g = None"
    using allocate_filter_ok [OF j(3,1,2), of fd] fd(1) d1(7) by auto
  let ?d3 = "set_filter j (fill g) d3"
  have pre: "\<not> demux_mutex ?d3" "fd < length (feeds ?d3)" "\<not> is_filtering (feeds ?d3 ! fd)" "feed_filter (feeds ?d3 ! fd) = Some j"
    "j < length (filters ?d3)" "filter_next (filters ?d3 ! j) = None" "start_feed ?d3 = Some hook"
    using d3 fd d1(2,8) d2(2) j hook(1) fill by (simp_all add: same_outside_def)
  have "\<exists>d4. dmx_section_feed_start_filtering False ?d3 fd u = Ret ((0, u), d4) \<and>
      running (filters d4) [j] (feeds d4 ! fd) \<and> filters d4 ! j = prepare_filter (fill g) \<and>
      fd \<in> set (feed_list d4) \<and> feed_pid (feeds d4 ! fd) = pid \<and> feed_type (feeds d4 ! fd) = DMX_TYPE_SEC \<and>
      cb_sec (feeds d4 ! fd) = cb \<and> secbufp (feeds d4 ! fd) = 0 \<and> secbuf (feeds d4 ! fd) = secbuf (feeds d ! fd) \<and>
      check_crc (feeds d4 ! fd) = crc" for u
  proof -
    obtain d4 where d4: "dmx_section_feed_start_filtering False ?d3 fd u = Ret ((0, u), d4)" "feed_list d4 = feed_list ?d3"
      "filters d4 = (filters ?d3)[j := prepare_filter (filters ?d3 ! j)]"
      "feeds d4 = (feeds ?d3)[fd := (feeds ?d3 ! fd)\<lparr>secbufp := 0, seclen := 0, is_filtering := True, feed_state := DMX_STATE_GO\<rparr>]"
      using start_filtering_ok [OF pre, of u u] hook(2,3) by blast
    have "filters d4 ! j = prepare_filter (fill g)" "j < length (filters d4)" using d4(3) d3(5) j(2) by simp_all
    moreover have "filter_next (prepare_filter (fill g)) = None" using d3(6) fill by (simp add: prepare_filter_def Let_def)
    moreover have "feeds d4 ! fd = (feeds d2 ! fd)\<lparr>feed_filter := Some j, secbufp := 0, seclen := 0, is_filtering := True, feed_state := DMX_STATE_GO\<rparr>"
      using d4(4) d3(4) fd(2) by simp
    ultimately show ?thesis using d4(1,2) d1(5,6,9) d2(4) d3(3) fd(1) by (simp add: running_def)
  qed
  then have "\<exists>d4. \<forall>u. dmx_section_feed_start_filtering False ?d3 fd u = Ret ((0, u), d4 u) \<and>
      running (filters (d4 u)) [j] (feeds (d4 u) ! fd) \<and> filters (d4 u) ! j = prepare_filter (fill g) \<and>
      fd \<in> set (feed_list (d4 u)) \<and> feed_pid (feeds (d4 u) ! fd) = pid \<and> feed_type (feeds (d4 u) ! fd) = DMX_TYPE_SEC \<and>
      cb_sec (feeds (d4 u) ! fd) = cb \<and> secbufp (feeds (d4 u) ! fd) = 0 \<and> secbuf (feeds (d4 u) ! fd) = secbuf (feeds d ! fd) \<and>
      check_crc (feeds (d4 u) ! fd) = crc"
    by metis
  moreover have "filters d3 ! j = g" using d3(5) j(2) by simp
  ultimately show ?thesis using d1(1) d2(1) d3(1) by blast
qed

lemma feed_start_ok:
  assumes "net_startable i fd j s" "nd_priv (net_devs (ns_net s) ! i) = Some p"
  shows "\<exists>d. dvb_net_feed_start i s = Ret (0, net_at s i (p\<lparr>secfeed := Some fd, secfilter := Some j\<rparr>) d) \<and>
    net_serves d fd (net_pid p) i (nd_addr (net_devs (ns_net s) ! i))"
proof -
  let ?mac = "nd_addr (net_devs (ns_net s) ! i)" let ?d = "ns_demux s"
  let ?fill = "\<lambda>g. g\<lparr>filter_priv := Some i, filter_value := mac_pattern 0x3e ?mac, filter_mask := mac_pattern 0xff mask_normal,
    filter_mode := replicate DMX_MAX_FILTER_SIZE 0xff\<rparr>"
  have st: "net_ready s i" "np_rx_mode p = RX_MODE_UNI" "net_pid p \<le> 0x1fff" "length ?mac = 6" "\<not> demux_mutex ?d"
    "first_index (\<lambda>f. feed_state f = DMX_STATE_FREE) (feeds ?d) = fd" "fd < length (feeds ?d)"
    "first_index (\<lambda>f. filter_state f = DMX_STATE_FREE) (filters ?d) = j" "j < length (filters ?d)"
    "length (secbuf (feeds ?d ! fd)) = 4096"
    using assms by (auto simp: net_startable_def net_ready_def)
  obtain hook where hook: "start_feed ?d = Some hook" "\<And>f u. 0 \<le> fst (hook fd f u)" "\<And>f u. snd (hook fd f u) = u"
    using assms(1) by (auto simp: net_startable_def)
  have "filter_next (?fill g) = filter_next g" for g by simp
  from section_feed_started [OF st(5-9,3) hook this, of "total_cb dvb_net_callback" 32768 True]
  obtain d1 d2 d3 g d4 where c: "dvbdmx_allocate_section_feed False ?d (total_cb dvb_net_callback) = Ret ((0, Some fd), d1)"
    "dmx_section_feed_set False d1 fd (net_pid p) 32768 False True = Ret (0, d2)"
    "dmx_section_feed_allocate_filter False d2 fd = Ret ((0, Some j), d3)" "filters d3 ! j = g"
    "\<And>u. dmx_section_feed_start_filtering False (set_filter j (?fill g) d3) fd u = Ret ((0, u), d4 u)"
    and r: "\<And>u. running (filters (d4 u)) [j] (feeds (d4 u) ! fd)" "\<And>u. filters (d4 u) ! j = prepare_filter (?fill g)"
      "\<And>u. fd \<in> set (feed_list (d4 u))" "\<And>u. feed_pid (feeds (d4 u) ! fd) = net_pid p" "\<And>u. feed_type (feeds (d4 u) ! fd) = DMX_TYPE_SEC"
      "\<And>u. cb_sec (feeds (d4 u) ! fd) = total_cb dvb_net_callback" "\<And>u. secbufp (feeds (d4 u) ! fd) = 0"
      "\<And>u. secbuf (feeds (d4 u) ! fd) = secbuf (feeds ?d ! fd)" "\<And>u. check_crc (feeds (d4 u) ! fd)"
    by blast
  let ?q = "p\<lparr>secfeed := Some fd, secfilter := Some j\<rparr>" let ?d3 = "set_filter j (?fill g) d3"
  let ?d4 = "d4 (ns_net (net_at s i ?q ?d3))"
  have start: "net_call_hw (\<lambda>sig d u. dmx_section_feed_start_filtering sig d fd u) (net_at s i ?q ?d3) = Ret (0, net_at s i ?q ?d4)"
    using c(5) by (simp add: net_call_hw_def net_at_simps [OF st(1)])
  have flt: "dvb_net_filter_set i fd ?mac mask_normal (net_at s i q d2) = Ret ((0, Some j), net_at s i q ?d3)" for q
    using c(3,4) by (simp add: dvb_net_filter_set_def net_at_simps [OF st(1)])
  have "dvb_net_feed_start i (net_at s i p ?d) = Ret (0, net_at s i ?q ?d4)"
    using st(2) c(1,2) flt start by (simp add: dvb_net_feed_start_def feed_filters_def Let_def net_at_simps [OF st(1)])
  then have "dvb_net_feed_start i s = Ret (0, net_at s i ?q ?d4)" using net_at_self [OF assms(2)] by simp
  moreover have "section_matches (prepare_filter (?fill g)) S \<longleftrightarrow> S ! 0 = 0x3e \<and> section_mac S = ?mac" for S
    by (rule mac_filter_selects) (simp_all add: st(4))
  moreover have "filter_priv (prepare_filter (?fill g)) = Some i" by (simp add: prepare_filter_def Let_def)
  ultimately show ?thesis unfolding net_serves_def using r st(10) by metis
qed

section \<open>Properties\<close>

text \<open>
  C5. A network interface that is brought up receives the datagrams sent to its hardware address.
  Opening it starts a feed on its PID whose filter selects exactly the sections for the address; when the
  transport packets of a section with a right checksum pass the feed, the network layer is handed a
  frame with this address as destination and exactly the bytes of the datagram, and the interface
  counts them.
\<close>

theorem interface_receives_datagram:
  assumes "net_startable i fd j s" "nd_priv (net_devs (ns_net s) ! i) = Some p" "mac = nd_addr (net_devs (ns_net s) ! i)"
    and "S = mpe_section b1 b2 sn mac D crc" "length crc = 4" "packetised pkts S" "18 \<le> length S" "length S \<le> 4096" "section_valid True S"
    and "skb_mem (ns_net s) = []"
  shows "\<exists>s1 feed' u'. dvb_net_open i s = Ret (0, s1) \<and> net_serves (ns_demux s1) fd (net_pid p) i mac \<and>
    feed_packets (ns_demux s1) fd (feeds (ns_demux s1) ! fd) pkts (ns_net s1) = Ret (feed', u') \<and>
    nd_received (net_devs u' ! i) = nd_received (net_devs (ns_net s) ! i) @ [datagram_frame mac D] \<and>
    (\<exists>q. nd_priv (net_devs u' ! i) = Some q \<and>
      stats q = (stats p)\<lparr>rx_packets := rx_packets (stats p) + 1, rx_bytes := rx_bytes (stats p) + of_nat (length D)\<rparr>)"
proof -
  let ?p = "p\<lparr>in_use := in_use p + 1\<rparr>" let ?s = "upd_dev_net i (upd_priv (\<lambda>p. p\<lparr>in_use := in_use p + 1\<rparr>)) s"
  have i: "i < length (net_devs (ns_net s))" and six: "length mac = 6" using assms(1,3) by (simp_all add: net_startable_def)
  have dev: "net_devs (ns_net ?s) = (net_devs (ns_net s))[i := (net_devs (ns_net s) ! i)\<lparr>nd_priv := Some ?p\<rparr>]"
    using assms(2) by (simp add: upd_dev_net_def upd_net_def upd_priv_def)
  have "net_startable i fd j ?s" using assms(1,2) i dev by (simp add: net_startable_def) (simp add: upd_dev_net_def)
  then obtain d where d: "dvb_net_feed_start i ?s = Ret (0, net_at ?s i (?p\<lparr>secfeed := Some fd, secfilter := Some j\<rparr>) d)"
    "net_serves d fd (net_pid p) i mac"
    using feed_start_ok [of i fd j ?s ?p] dev i assms(3) by auto
  let ?q = "?p\<lparr>secfeed := Some fd, secfilter := Some j\<rparr>" let ?s1 = "net_at ?s i ?q d" let ?u = "ns_net ?s1"
  have u: "net_devs ?u = (net_devs (ns_net s))[i := (net_devs (ns_net s) ! i)\<lparr>nd_priv := Some ?q\<rparr>]" "skb_mem ?u = []"
    using dev i assms(10) by (simp_all add: net_at_def) (simp add: upd_dev_net_def upd_net_def)
  obtain l where l: "running (filters d) [l] (feeds d ! fd)" "filter_priv (filters d ! l) = Some i" "section_matches (filters d ! l) S"
    and f: "feed_type (feeds d ! fd) = DMX_TYPE_SEC" "cb_sec (feeds d ! fd) = total_cb dvb_net_callback" "secbufp (feeds d ! fd) = 0"
      "length (secbuf (feeds d ! fd)) = 4096" "check_crc (feeds d ! fd)"
    using d(2) mpe_section_selected [OF six] assms(4) unfolding net_serves_def by blast
  have "\<forall>k\<in>set [l]. covers (filters d ! k) S" using assms(7) by (simp add: covers_long)
  from packetised_done [OF assms(6,8) f(4,3,1) l(1) this, of fd ?u]
  obtain feed' u' where r: "feed_packets d fd (feeds d ! fd) pkts ?u = Ret (feed', u')"
    "u' = snd (offer (total_cb dvb_net_callback) [filters d ! l] S ?u)"
    using assms(9) f(2,5) by (auto simp: section_done_def)
  have "total_cb dvb_net_callback S [] (Some i) ?u = (0, (upd_net i (dvb_net_sec True S) ?u)\<lparr>skb_mem := []\<rparr>)"
    using u i by (simp add: total_cb_def dvb_net_callback_def)
  then have u': "u' = (upd_net i (dvb_net_sec True S) ?u)\<lparr>skb_mem := []\<rparr>" using r(2) l(2,3) by simp
  have "net_devs u' ! i = dvb_net_sec True S ((net_devs (ns_net s) ! i)\<lparr>nd_priv := Some ?q\<rparr>)"
    using u i by (simp add: u' upd_net_def)
  then have "nd_received (net_devs u' ! i) = nd_received (net_devs (ns_net s) ! i) @ [datagram_frame mac D]"
    "nd_priv (net_devs u' ! i) = Some (?q\<lparr>stats := (stats p)\<lparr>rx_packets := rx_packets (stats p) + 1, rx_bytes := rx_bytes (stats p) + of_nat (length D)\<rparr>\<rparr>)"
    using net_sec_delivers [OF six assms(5), of b1 b2 sn D] assms(4) by (simp_all add: upd_stats_def upd_priv_def)
  moreover have "dvb_net_open i s = Ret (0, ?s1)" using d(1) by (simp add: dvb_net_open_def)
  ultimately show ?thesis using d(2) r(1) by (intro exI [of _ ?s1] exI [of _ feed'] exI [of _ u']) simp
qed

definition net_demux :: "net_state dvb_demux" where
  "net_demux =
     \<lparr>filters = [(demo_filter 0 0 None)\<lparr>filter_state := DMX_STATE_FREE\<rparr>],
      feeds = [\<lparr>is_filtering = False, feed_priv = None, check_crc = False, crc_val = 0, secbuf = replicate 4096 0, secbufp = 0,
        seclen = 0, cb_ts = total_cb dvb_net_callback, cb_sec = total_cb dvb_net_callback, feed_type = DMX_TYPE_SEC,
        feed_state = DMX_STATE_FREE, feed_pid = 0, feed_buffer_size = 0, feed_descramble = False, feed_timeout = 0,
        feed_filter = None, cb_length = 0, ts_type = 0, feed_pes_type = 0, feed_cc = 0, peslen = 0\<rparr>],
      dmx_users = 0, demux_users = 0, frontend_list = [], demux_frontend = None, pesfilter = replicate 20 None,
      demux_pids = replicate 20 0xffff, playing = False, recording = False, feed_list = [], tsbuf = replicate 204 0,
      tsbufp = 0, demux_mutex = False, start_feed = Some (\<lambda>fd f u. (0, u)), stop_feed = Some (\<lambda>fd f u. (0, u)), write_to_decoder = None\<rparr>"

definition net_sys :: dvb_net where
  "net_sys = \<lparr>ns_state = True # replicate 9 False,
     ns_net = \<lparr>net_devs = [(new_device 0 0 [0, 2, 4, 6, 8, 10])\<lparr>nd_priv := Some (new_priv 0x100), nd_multicast_work := True\<rparr>], skb_mem = []\<rparr>,
     ns_demux = net_demux, ns_sigs = []\<rparr>"

lemma net_sys_startable:
  "net_startable 0 0 0 net_sys" "nd_priv (net_devs (ns_net net_sys) ! 0) = Some (new_priv 0x100)"
  "nd_addr (net_devs (ns_net net_sys) ! 0) = [0, 2, 4, 6, 8, 10]" "skb_mem (ns_net net_sys) = []"
  by (simp_all add: net_startable_def net_sys_def net_demux_def new_device_def new_priv_def demo_filter_def)

theorem interface_receives_datagram_witness:
  "\<exists>s1 feed' u'. dvb_net_open 0 net_sys = Ret (0, s1) \<and>
    feed_packets (ns_demux s1) 0 (feeds (ns_demux s1) ! 0)
      [ts_packet True 0 (0 # mpe_section 0 197 0 [0, 2, 4, 6, 8, 10] (replicate 171 7) []),
       ts_packet False 1 (replicate 13 7 @ [1, 2, 3, 4] @ replicate 167 0xff)] (ns_net s1) = Ret (feed', u') \<and>
    nd_received (net_devs u' ! 0) = [datagram_frame [0, 2, 4, 6, 8, 10] (replicate 184 7)]"
proof -
  let ?S = "mpe_section 0 197 0 [0, 2, 4, 6, 8, 10] (replicate 184 7) [1, 2, 3, 4]"
  let ?pkts = "[ts_packet True 0 (0 # mpe_section 0 197 0 [0, 2, 4, 6, 8, 10] (replicate 171 7) []),
    ts_packet False 1 (replicate 13 7 @ [1, 2, 3, 4] @ replicate 167 0xff)]"
  have pk: "packetised ?pkts ?S"
    by (simp add: ts_packet_def pkt_payload_def payload_def pkt_start_def pkt_cc_def section_length_def mpe_section_def)
  have S: "18 \<le> length ?S" "length ?S \<le> 4096" "section_valid True ?S" "length [1 :: u8, 2, 3, 4] = 4"
    by (simp_all add: mpe_section_def section_valid_def)
  from interface_receives_datagram [OF net_sys_startable(1,2) net_sys_startable(3) [symmetric] refl S(4) pk S(1-3) net_sys_startable(4)]
  show ?thesis by (auto simp: net_sys_def new_device_def)
qed

text \<open>
  C40. An interface can be removed while a change of its multicast list is still queued. The removal
  stops the feed and then runs the queued work, which starts the feed again without looking whether the
  interface is still in use; then the private structure is freed. The feed stays in the
  demultiplexer, and the next section for the address faults in the callback.
\<close>

theorem removed_interface_keeps_feed:
  assumes "net_startable i fd j s" "nd_priv (net_devs (ns_net s) ! i) = Some p" "mac = nd_addr (net_devs (ns_net s) ! i)"
    "i < DVB_NET_DEVICES_MAX" "length (ns_state s) = DVB_NET_DEVICES_MAX" "ns_state s ! i" "in_use p = 0" "secfeed p = None"
    "nd_multicast_work (net_devs (ns_net s) ! i)" "\<not> nd_restart_work (net_devs (ns_net s) ! i)"
    "\<not> nd_promisc (net_devs (ns_net s) ! i)" "\<not> nd_allmulti (net_devs (ns_net s) ! i)" "nd_mc_list (net_devs (ns_net s) ! i) = []"
  shows "\<exists>s1. dvb_net_remove_if (int i) s = Ret (0, s1) \<and> \<not> ns_state s1 ! i \<and> net_serves (ns_demux s1) fd (net_pid p) i mac \<and>
    dvb_net_callback S [] (Some i) (ns_net s1) = Oops"
proof -
  let ?dev = "net_devs (ns_net s) ! i" let ?q = "p\<lparr>in_use := - 1, np_rx_mode := RX_MODE_UNI\<rparr>"
  let ?t = "upd_dev_net i (upd_priv (\<lambda>p. p\<lparr>in_use := in_use p - 1\<rparr>)) s"
  let ?w = "upd_dev_net i (\<lambda>dev. dev\<lparr>nd_multicast_work := False\<rparr>) ?t"
  let ?v = "upd_dev_net i (upd_priv (\<lambda>p. p\<lparr>np_rx_mode := RX_MODE_UNI\<rparr>)) ?w"
  have i: "i < length (net_devs (ns_net s))" using assms(1) by (simp add: net_startable_def)
  have t: "net_devs (ns_net ?t) ! i = ?dev\<lparr>nd_priv := Some (p\<lparr>in_use := - 1\<rparr>)\<rparr>"
    and w: "net_devs (ns_net ?w) ! i = ?dev\<lparr>nd_priv := Some (p\<lparr>in_use := - 1\<rparr>), nd_multicast_work := False\<rparr>"
    and v: "net_devs (ns_net ?v) ! i = ?dev\<lparr>nd_priv := Some ?q, nd_multicast_work := False\<rparr>"
    and rest: "ns_sigs ?v = ns_sigs s" "ns_demux ?v = ns_demux s" "ns_state ?v = ns_state s" "i < length (net_devs (ns_net ?v))"
    using i assms(2,7) by (simp_all add: upd_dev_net_def upd_net_def upd_priv_def)
  have "net_startable i fd j ?v" unfolding net_startable_def rest v using assms(1,2) rest(4) by (auto simp: net_startable_def)
  moreover have "nd_priv (net_devs (ns_net ?v) ! i) = Some ?q" by (simp add: v)
  ultimately obtain d where d: "dvb_net_feed_start i ?v = Ret (0, net_at ?v i (?q\<lparr>secfeed := Some fd, secfilter := Some j\<rparr>) d)"
    "net_serves d fd (net_pid p) i mac"
    using feed_start_ok [of i fd j ?v ?q] v assms(3) by auto
  let ?r = "net_at ?v i (?q\<lparr>secfeed := Some fd, secfilter := Some j\<rparr>) d"
  have stop: "dvb_net_stop i s = Ret (0, ?t)" using t assms(8) by (simp add: dvb_net_stop_def dvb_net_feed_stop_def with_priv_def)
  have "dvb_net_feed_stop i ?w = Ret ((), ?w)" using w assms(8) by (simp add: dvb_net_feed_stop_def with_priv_def)
  then have "wq_set_multicast_list i ?t = Ret ((), ?r)" using w assms(11-13) d(1) by (simp add: wq_set_multicast_list_def)
  moreover have r: "\<not> nd_restart_work (net_devs (ns_net ?r) ! i)" "ns_state ?r = ns_state s" "length (net_devs (ns_net ?r)) = length (net_devs (ns_net ?v))"
    using v rest(3,4) assms(10) by (simp_all add: net_at_def)
  ultimately have flush: "flush_work i ?t = Ret ((), ?r)" using t assms(9) by (simp add: flush_work_def)
  let ?s1 = "(upd_dev_net i (\<lambda>dev. dev\<lparr>nd_priv := None\<rparr>) ?r)\<lparr>ns_state := (ns_state ?r)[i := False]\<rparr>"
  have "dvb_net_remove_if (int i) s = Ret (0, ?s1)"
    using assms(2,4,6,7) stop flush by (simp add: dvb_net_remove_if_def with_priv_def)
  moreover have "\<not> ns_state ?s1 ! i" "ns_demux ?s1 = d" "nd_priv (net_devs (ns_net ?s1) ! i) = None"
    using r assms(4,5) rest(4) by (simp_all add: upd_dev_net_def upd_net_def)
  moreover have "dvb_net_callback S [] (Some i) (ns_net ?s1) = Oops" using calculation(4) by (simp add: dvb_net_callback_def)
  ultimately show ?thesis using d(2) by (intro exI [of _ ?s1]) simp
qed

theorem removed_interface_keeps_feed_witness:
  "\<exists>s1. dvb_net_remove_if 0 net_sys = Ret (0, s1) \<and> net_serves (ns_demux s1) 0 0x100 0 [0, 2, 4, 6, 8, 10] \<and>
    dvb_net_callback (mpe_section 0 197 0 [0, 2, 4, 6, 8, 10] (replicate 184 7) [1, 2, 3, 4]) [] (Some 0) (ns_net s1) = Oops"
proof -
  have "(0 :: nat) < DVB_NET_DEVICES_MAX" "length (ns_state net_sys) = DVB_NET_DEVICES_MAX" "ns_state net_sys ! 0" "in_use (new_priv 0x100) = 0"
    "secfeed (new_priv 0x100) = None" "nd_multicast_work (net_devs (ns_net net_sys) ! 0)" "\<not> nd_restart_work (net_devs (ns_net net_sys) ! 0)"
    "\<not> nd_promisc (net_devs (ns_net net_sys) ! 0)" "\<not> nd_allmulti (net_devs (ns_net net_sys) ! 0)" "nd_mc_list (net_devs (ns_net net_sys) ! 0) = []"
    by (simp_all add: net_sys_def new_device_def new_priv_def)
  from removed_interface_keeps_feed [OF net_sys_startable(1,2) net_sys_startable(3) [symmetric] this]
  have "\<exists>s1. dvb_net_remove_if (int 0) net_sys = Ret (0, s1) \<and> \<not> ns_state s1 ! 0 \<and>
    net_serves (ns_demux s1) 0 (net_pid (new_priv 0x100)) 0 [0, 2, 4, 6, 8, 10] \<and>
    dvb_net_callback (mpe_section 0 197 0 [0, 2, 4, 6, 8, 10] (replicate 184 7) [1, 2, 3, 4]) [] (Some 0) (ns_net s1) = Oops" .
  then show ?thesis by (auto simp: new_priv_def)
qed

end
