(* ===== verification/Spec2Isabelle.thy ===== *)
theory Spec2Isabelle
  imports DVB_Ringbuffer DVB_Filter DVB_Demux_Reach DVB_Dmxdev_Stream DVB_Fe_Events DVB_Fe_Registry DVB_Net_Receive
begin

text \<open>
  A verification of the DVB core of the dbox2 kernel drivers
  (\<^verbatim>\<open>src/driver/dvb/drivers/media/dvb/dvb-core\<close>).

  \<^bold>\<open>The program.\<close> A receiver delivers a transport stream, packets of 188 bytes that belong to numbered
  streams (PIDs). The demultiplexer takes the packets, reassembles the sections (tables) and payloads they
  carry, and hands them to its clients through callbacks. Its clients are the demultiplexer device, from
  which applications read sections and streams, and the network interfaces, which make Ethernet frames
  of datagrams in sections. The front end devices tune the receiver; their drivers are found on I2C
  busses. All of them are reached through the registry of adapters and devices.

  \<^bold>\<open>The theories\<close>, each with the code first and its lemmas after it:
  \<^item> \<open>DVB_Prelude\<close>: words, error numbers, the result type of kernel routines (\<open>Ret\<close>, \<open>Hang\<close> for a call that
    never returns, \<open>Oops\<close> for a memory fault), bounded copies, the search loop over an array.
  \<^item> \<open>DVB_Crc32\<close> (\<^verbatim>\<open>dvb_compat.c\<close>, \<^verbatim>\<open>dvb_demux.c\<close>): the checksum of sections. The table-driven routine is division
    by the CRC polynomial; an appended checksum verifies; bursts of up to 32 bits are detected.
  \<^item> \<open>DVB_Fifo\<close>: the interface \<open>byte_fifo\<close> of byte queues and rings of memory, with what every client may rely on.
  \<^item> \<open>DVB_Ringbuffer\<close> (\<^verbatim>\<open>dvb_ringbuffer.c\<close>): the ring buffer of the decoder drivers; the interface holds for
    transfers that do not wrap, and a wrapping transfer leaves a wrong index.
  \<^item> \<open>DVB_Demux_Types\<close>, \<open>DVB_Section\<close>, \<open>DVB_Section_Safety\<close>, \<open>DVB_Reassembly\<close> (\<^verbatim>\<open>dvb_demux.c\<close>): the section filter. It is
    memory safe for announced lengths up to 4096, reassembles every packetised section and delivers it
    once to every matching filter; two theorems show inputs for which it goes wrong.
  \<^item> \<open>DVB_Swfilter\<close> (\<^verbatim>\<open>dvb_demux.c\<close>): from byte chunks of any size to packets: filtering a stream in chunks refines
    filtering it at once.
  \<^item> \<open>DVB_Feeds\<close>, \<open>DVB_Feeds_Inv\<close> (\<^verbatim>\<open>dvb_demux.c\<close>): allocation of feeds and filters, start and stop, front ends,
    initialisation. The states reachable through these calls satisfy an invariant under which every
    packet is handled without fault or hang.
  \<^item> \<open>DVB_Filter\<close> (\<^verbatim>\<open>dvb_filter.c\<close>): PES to TS conversion (a round trip with the demultiplexer) and the AC3 header.
  \<^item> \<open>DVB_Dev\<close> (\<^verbatim>\<open>dvbdev.c\<close>, \<^verbatim>\<open>dvb_functions.c\<close>): adapters, devices, minor numbers, open and release, ioctl arguments.
  \<^item> \<open>DVB_Dmxdev_Buffer\<close>, \<open>DVB_Dmxdev\<close>, \<open>DVB_Dmxdev_Read\<close>, \<open>DVB_Dmxdev_Control\<close> (\<^verbatim>\<open>dmxdev.c\<close>): the demultiplexer
    device: its buffers (an interpretation of \<open>byte_fifo\<close>), reads and their framing, filters and feeds,
    commands. This theory joins them: from the command of an application to the section it reads.
  \<^item> \<open>DVB_I2C\<close> (\<^verbatim>\<open>dvb_i2c.c\<close>): busses, devices and the references of modules.
  \<^item> \<open>DVB_Frontend\<close>, \<open>DVB_Tuning\<close>, \<open>DVB_Fe_Events\<close>, \<open>DVB_Fe_Registry\<close> (\<^verbatim>\<open>dvb_frontend.c\<close>): the front end core: hooks,
    tuning and the scan for a lost signal, the kernel thread and its pace, the event queue (an
    interpretation of the interface \<open>lossy_queue\<close>), the lock, registration, open and release.
  \<^item> \<open>DVB_Net\<close>, \<open>DVB_Net_Receive\<close> (\<^verbatim>\<open>dvb_net.c\<close>): network interfaces: address filters, reception of datagrams
    through the demultiplexer, queued work, the control device.

  \<^bold>\<open>Conventions.\<close> Structures are records, pointers to array elements or list entries are indices or
  addresses (natural numbers, \<^const>\<open>None\<close> for NULL), function pointers that are compared are addresses,
  those that are only called are functions. Driver hooks, module code and the network layer are arguments
  with the state they work on. Events from outside are arguments too: signals that interrupt a wait
  (lists of booleans, used up in order), allocation failures, faults of user memory, what other threads do
  while a caller sleeps, the time. A semaphore is part of the state where a path leaves it unbalanced
  or waits for itself. Bytes, checksums, frequencies and time stamps are words of their C width; counters
  that cannot overflow in practice are integers.

  \<^bold>\<open>Bounds.\<close> Loops are structural recursions or functions with a termination measure. Walks along linked
  lists of filters are given one step more than there are filters, which is enough in every reachable
  state (\<open>DVB_Feeds_Inv\<close>); when it is not, the result is \<open>Hang\<close>. The search for an adapter number is given one step
  more than there are adapters. The wait loops end with the list of wake-ups.

  \<^bold>\<open>Not modelled:\<close> debug output, devfs and module entry points, the branches for kernels from 2.5 on, the bridge
  to the kernel's I2C layer (\<^verbatim>\<open>dvb_i2c_bridge.c\<close>), the disabled code of \<^verbatim>\<open>dvb_filter.c\<close>, interleavings inside a
  section that a lock protects, the drivers of single chips under \<^verbatim>\<open>frontends\<close> and \<^verbatim>\<open>avia\<close>, and the
  applications.
\<close>

section \<open>The chain from an application to the stream and back\<close>

text \<open>
  C1. An application that sets and starts a section filter reads exactly the sections it asked for. The
  command succeeds and puts a feed for the PID into the list of the demultiplexer. When packets that
  carry a sequence of sections, each with its packets or several in a packet, pass this feed, reads that do not
  block return the sections that match the parameters, whole, in order and nothing else, and the next
  read finds the buffer empty (\<open>-EWOULDBLOCK\<close>). A filter for one section (\<open>DMX_ONESHOT\<close>) gives the first match only.
  The sections have 18 to 4096 bytes and the length their header announces; their checksum is right, when the
  application asks for the check; those that match fit into the buffer of the filter and the buffer of the application.
\<close>

theorem application_gets_sections:
  assumes "startable vm i params fd j h s" "sct_flags params AND DMX_IMMEDIATE_START \<noteq> 0"
    "\<not> dd_mutex (sys_dev s)" "\<not> df_mutex (flt s i)" "length (df_secheader (flt s i)) = 3"
    and "carried pkts Ss"
    "\<forall>S\<in>set Ss. 18 \<le> length S \<and> well_framed S \<and> section_valid (sct_flags params AND DMX_CHECK_CRC \<noteq> 0) S"
    and "G = kept_sections (sct_flags params AND DMX_ONESHOT \<noteq> 0) (filter (user_match (sct_filter params)) Ss)"
    "length (concat G) < buf_size (df_buffer (flt s i))" "\<forall>S\<in>set G. length S \<le> count \<and> length S \<le> cap" "count \<noteq> 0"
  shows "\<exists>s1 feed' d'. dvb_demux_do_ioctl vm stc i (DMX_SET_FILTER params) s = Ret ((0, No_reply), s1) \<and>
    feed_pid (feeds (sys_demux s1) ! fd) = sct_pid params \<and> fd \<in> set (feed_list (sys_demux s1)) \<and>
    feed_packets (sys_demux s1) fd (feeds (sys_demux s1) ! fd) pkts (sys_dev s1) = Ret (feed', d') \<and>
    (\<forall>s2. sys_dev s2 = d' \<and> sys_sigs s2 = [] \<longrightarrow>
      (\<exists>s3. demux_reads i cap count (Suc (length G)) s2 =
        Ret (map (\<lambda>S. (int (length S), S)) G @ [(- EWOULDBLOCK, [])], s3)))"
proof -
  obtain s1 where s1: "dvb_demux_do_ioctl vm stc i (DMX_SET_FILTER params) s = Ret ((0, No_reply), s1)"
    "serves (sys_demux s1) fd (sct_pid params) (sct_flags params AND DMX_CHECK_CRC \<noteq> 0) i (sct_filter params)"
    "length (dd_filter (sys_dev s1)) = length (dd_filter (sys_dev s))" "idle_sec_filter (flt s1 i)"
    "buf_size (df_buffer (flt s1 i)) = buf_size (df_buffer (flt s i))" "sct_flags (df_sec (flt s1 i)) = sct_flags params"
    using set_filter_running [OF assms(1-4), of stc] assms(5) by blast
  have i: "i < length (dd_filter (sys_dev s1))" using assms(1) s1(3) by (simp add: startable_def)
  have hold: "holding (sct_flags params AND DMX_ONESHOT \<noteq> 0) [] (dd_filter (sys_dev s1) ! i)"
    using holding_idle [OF s1(4)] s1(6) by (simp add: flt_def)
  have valid: "\<forall>S\<in>set Ss. 18 \<le> length S \<and> section_valid (sct_flags params AND DMX_CHECK_CRC \<noteq> 0) S" using assms(7) by blast
  have fits: "length (concat (kept_sections (sct_flags params AND DMX_ONESHOT \<noteq> 0) (filter (user_match (sct_filter params)) Ss)))
      < buf_size (df_buffer (dd_filter (sys_dev s1) ! i))"
    using assms(8,9) s1(5) by (simp add: flt_def)
  obtain feed' d' where d': "feed_packets (sys_demux s1) fd (feeds (sys_demux s1) ! fd) pkts (sys_dev s1) = Ret (feed', d')"
    "\<forall>s2. sys_dev s2 = d' \<and> sys_sigs s2 = [] \<longrightarrow> readable i G s2"
    using served_sections_readable [OF s1(2) i hold assms(6) valid fits] unfolding assms(8) by blast
  have "set G \<subseteq> set Ss" using assms(8) by (auto simp: kept_sections_def dest: in_set_takeD)
  then have "\<forall>S\<in>set G. well_framed S \<and> length S \<le> count \<and> length S \<le> cap" using assms(7,10) by blast
  then have "\<forall>s2. sys_dev s2 = d' \<and> sys_sigs s2 = [] \<longrightarrow> (\<exists>s3. demux_reads i cap count (Suc (length G)) s2 =
      Ret (map (\<lambda>S. (int (length S), S)) G @ [(- EWOULDBLOCK, [])], s3))"
    using d'(2) reads_all assms(11) by blast
  moreover have "feed_pid (feeds (sys_demux s1) ! fd) = sct_pid params" "fd \<in> set (feed_list (sys_demux s1))"
    using s1(2) by (simp_all add: serves_def)
  ultimately show ?thesis using s1(1) d'(1) by blast
qed

text \<open>The stream of the example: a section that matches in two packets, then one that does not and another match in one packet.\<close>

definition demo_sections :: "bytes list" where
  "demo_sections = [[0x42, 0, 197] @ replicate 197 7, [0x43, 0, 27] @ replicate 27 8, [0x42, 0, 37] @ replicate 37 9]"

definition demo_stream :: "bytes list" where
  "demo_stream = [ts_packet True 0 (0 # [0x42, 0, 197] @ replicate 180 7), ts_packet False 1 (replicate 17 7 @ replicate 167 0xff),
     ts_packet True 2 (0 # ([0x43, 0, 27] @ replicate 27 8) @ ([0x42, 0, 37] @ replicate 37 9) @ replicate 113 0xff)]"

lemma demo_stream_carried: "carried demo_stream demo_sections"
proof -
  have "packetised [ts_packet True 0 (0 # [0x42, 0, 197] @ replicate 180 7), ts_packet False 1 (replicate 17 7 @ replicate 167 0xff)]
      ([0x42, 0, 197] @ replicate 197 7)"
    by (simp add: ts_packet_def pkt_payload_def payload_def pkt_start_def pkt_cc_def section_length_def)
  moreover have "carried [ts_packet True 2 (0 # ([0x43, 0, 27] @ replicate 27 8) @ ([0x42, 0, 37] @ replicate 37 9) @ replicate 113 0xff)]
      ([[0x43, 0, 27] @ replicate 27 8, [0x42, 0, 37] @ replicate 37 9] @ [])"
    by (rule carried_whole [where fill = "replicate 113 0xff", OF _ _ _ _ carried_none])
      (simp_all add: ts_packet_def pkt_payload_def payload_def pkt_start_def filled_def section_length_def)
  ultimately show ?thesis
    using carried_spanning [of _ "[0x42, 0, 197] @ replicate 197 7"] unfolding demo_stream_def demo_sections_def by fastforce
qed

lemma demo_sections_match: "user_match (sct_filter sct_params) S \<longleftrightarrow> S ! 0 = 0x42"
proof -
  have mode: "flt_mode (sct_filter sct_params) ! k = 0" if "k < 16" for k using that by (simp add: sct_params_def)
  have mask: "flt_mask (sct_filter sct_params) ! k = (if k = 0 then 0xff else 0)" if "k < 16" for k
    using that by (cases k) (simp_all add: sct_params_def)
  have ff: "bit (0xff :: u8) n" if "n < 8" for n using that bit_mask_iff [of 8 n, where 'a = u8] by (simp add: mask_eq_exp_minus_1)
  have "flt_filter (sct_filter sct_params) ! 0 = 0x42" "filter_pos 0 = 0" by (simp_all add: sct_params_def filter_pos_def)
  then have "user_match (sct_filter sct_params) S \<longleftrightarrow> (\<forall>n<8. bit (0x42 :: u8) n = bit (S ! 0) n)"
    unfolding user_match_def using mode mask ff by (auto split: if_splits)
  then show ?thesis by (auto intro: bit_word_eqI)
qed

theorem application_gets_sections_witness:
  "\<exists>s1 feed' d'. dvb_demux_do_ioctl (\<lambda>n. True) None 0 (DMX_SET_FILTER sct_params) fresh_sys = Ret ((0, No_reply), s1) \<and>
    feed_packets (sys_demux s1) 0 (feeds (sys_demux s1) ! 0) demo_stream (sys_dev s1) = Ret (feed', d') \<and>
    (\<forall>s2. sys_dev s2 = d' \<and> sys_sigs s2 = [] \<longrightarrow>
      (\<exists>s3. demux_reads 0 4096 4096 3 s2 = Ret ([(200, [0x42, 0, 197] @ replicate 197 7),
        (40, [0x42, 0, 37] @ replicate 37 9), (- EWOULDBLOCK, [])], s3)))"
proof -
  let ?G = "[[0x42, 0, 197] @ replicate 197 7, [0x42, 0, 37] @ replicate 37 9] :: bytes list"
  have dev: "length (df_secheader (flt fresh_sys 0)) = 3" "length (concat ?G) < buf_size (df_buffer (flt fresh_sys 0))"
    by (simp_all add: fresh_sys_def free_sys_def flt_def demo_dmxdev_filter_def)
  have G: "?G = kept_sections (sct_flags sct_params AND DMX_ONESHOT \<noteq> 0) (filter (user_match (sct_filter sct_params)) demo_sections)"
    unfolding demo_sections_match kept_sections_def by (simp add: demo_sections_def) (simp add: sct_params_def)
  have S: "\<forall>S\<in>set demo_sections. 18 \<le> length S \<and> well_framed S \<and> section_valid (sct_flags sct_params AND DMX_CHECK_CRC \<noteq> 0) S"
    unfolding fresh_sys_startable(5) by (simp add: demo_sections_def well_framed_def section_valid_def)
  have "\<exists>s1 feed' d'. dvb_demux_do_ioctl (\<lambda>n. True) None 0 (DMX_SET_FILTER sct_params) fresh_sys = Ret ((0, No_reply), s1) \<and>
    feed_pid (feeds (sys_demux s1) ! 0) = sct_pid sct_params \<and> 0 \<in> set (feed_list (sys_demux s1)) \<and>
    feed_packets (sys_demux s1) 0 (feeds (sys_demux s1) ! 0) demo_stream (sys_dev s1) = Ret (feed', d') \<and>
    (\<forall>s2. sys_dev s2 = d' \<and> sys_sigs s2 = [] \<longrightarrow> (\<exists>s3. demux_reads 0 4096 4096 (Suc (length ?G)) s2 =
      Ret (map (\<lambda>S. (int (length S), S)) ?G @ [(- EWOULDBLOCK, [])], s3)))"
    by (rule application_gets_sections [OF fresh_sys_startable(1,4,2,3) dev(1) demo_stream_carried S G dev(2)]) simp_all
  then show ?thesis by (auto simp: numeral_3_eq_3)
qed

end
